(* ===== verification/Prelude.thy ===== *)
theory Prelude
  imports Main "HOL-Library.Word" "HOL-Library.AList" "HOL-Library.State_Monad"
begin

text \<open>
  What every component shares: the types that stand for Go's basic types, 64-bit
  duration arithmetic, effectful Go functions as programs of the state monad, Go's
  \<open>if err != nil\<close> as a combinator, and the rules that lift a relation between the world
  before and the world after from the single steps of a program to the whole program.
\<close>

section \<open>Basic types\<close>

text \<open>
  \<open>uuid.UUID\<close> is \<open>[16]byte\<close>. An instant (\<open>time.Time\<close>) and a \<open>time.Duration\<close> are counted in
  nanoseconds; a duration is an \<open>int64\<close>, so products of durations wrap around.
\<close>

type_synonym uuid = "128 word"
type_synonym byte = "8 word"
type_synonym time = int
type_synonym duration = int

definition wrap64 :: "int \<Rightarrow> int" where
  "wrap64 n = (n + 2 ^ 63) mod 2 ^ 64 - 2 ^ 63"

definition nsSecond :: duration where "nsSecond = 1000000000"
definition nsMinute :: duration where "nsMinute = 60 * nsSecond"
definition nsHour :: duration where "nsHour = 60 * nsMinute"

definition dur_mul :: "duration \<Rightarrow> duration \<Rightarrow> duration" where
  "dur_mul a b = wrap64 (a * b)"

lemmas duration_defs = nsSecond_def nsMinute_def nsHour_def

text \<open>\<open>int(d.Minutes())\<close>: the conversion cuts off towards zero.\<close>

definition whole_minutes :: "duration \<Rightarrow> int" where
  "whole_minutes d = (if 0 \<le> d then d div nsMinute else - (- d div nsMinute))"

lemma wrap64_id: "- (2 ^ 63) \<le> n \<Longrightarrow> n < 2 ^ 63 \<Longrightarrow> wrap64 n = n"
  by (simp add: wrap64_def)

lemma wrap64_bounds: "- (2 ^ 63) \<le> wrap64 n \<and> wrap64 n < 2 ^ 63"
  by (simp add: wrap64_def)

section \<open>Errors\<close>

text \<open>
  \<open>db_error\<close> is what PostgreSQL or the driver reports for a statement; a \<open>go_error\<close> is a
  Go error value: \<open>Msg\<close> for \<open>fmt.Errorf\<close> of a constant text, \<open>Wrap\<close> for a text with \<open>%w\<close>,
  \<open>LockedOut m\<close> for the lock-out message with its number of minutes, \<open>Ext\<close> for the error
  of a third-party call.
\<close>

datatype db_error =
  ConnLost
| NoRows
| UniqueViolation string
| ForeignKeyViolation string
| ValueTooLong string
| InvalidInet
| UndefinedTable string
| ScanNull string

datatype go_error =
  Msg string
| Wrap string go_error
| LockedOut int
| Db db_error
| Ext string

section \<open>Programs\<close>

text \<open>
  A Go function with effects is a program: a state transformer that returns a value. A Go
  function that returns \<open>(T, error)\<close> returns a sum, \<open>Inl\<close> for the error.
\<close>

abbreviation ret :: "'a \<Rightarrow> ('w, 'a) state" where
  "ret \<equiv> State_Monad.return"

definition on_error ::
  "('w, 'e + 'a) state \<Rightarrow> ('e \<Rightarrow> ('w, 'b) state) \<Rightarrow> ('a \<Rightarrow> ('w, 'b) state) \<Rightarrow> ('w, 'b) state" where
  "on_error m h k = State_Monad.bind m (case_sum h k)"

definition read_state :: "('w \<Rightarrow> 'a) \<Rightarrow> ('w, 'a) state" where
  "read_state f = State (\<lambda>w. (f w, w))"

definition only_if :: "bool \<Rightarrow> ('w, unit) state \<Rightarrow> ('w, unit) state" where
  "only_if b m = (if b then m else ret ())"

lemma run_on_error [simp]:
  "run_state (on_error m h k) w =
     (case run_state m w of (Inl e, w') \<Rightarrow> run_state (h e) w' | (Inr x, w') \<Rightarrow> run_state (k x) w')"
  by (simp add: on_error_def split: prod.splits sum.splits)

lemma run_read_state [simp]: "run_state (read_state f) w = (f w, w)"
  by (simp add: read_state_def)

lemma run_only_if [simp]: "run_state (only_if b m) w = (if b then run_state m w else ((), w))"
  by (simp add: only_if_def)

section \<open>Relations between the world before and after\<close>

text \<open>
  \<open>state_io_rel R m\<close> of the library says that \<open>R\<close> relates the world before a run of \<open>m\<close> to
  the world after it. For a reflexive and transitive \<open>R\<close> it composes along a program.
  An invariant \<open>I\<close> is the relation \<open>keeps I\<close>; \<open>same f\<close> says that a component of the world
  is left alone.
\<close>

named_theorems io_intros

definition io_preorder :: "('w \<Rightarrow> 'w \<Rightarrow> bool) \<Rightarrow> bool" where
  "io_preorder R \<longleftrightarrow> reflp R \<and> transp R"

definition keeps :: "('w \<Rightarrow> bool) \<Rightarrow> 'w \<Rightarrow> 'w \<Rightarrow> bool" where
  "keeps I w w' \<longleftrightarrow> (I w \<longrightarrow> I w')"

definition same :: "('w \<Rightarrow> 'a) \<Rightarrow> 'w \<Rightarrow> 'w \<Rightarrow> bool" where
  "same f w w' \<longleftrightarrow> f w' = f w"

lemma io_preorder_keeps [simp, intro]: "io_preorder (keeps I)"
  by (auto simp: io_preorder_def keeps_def reflp_def transp_def)

lemma io_preorder_same [simp, intro]: "io_preorder (same f)"
  by (auto simp: io_preorder_def same_def reflp_def transp_def)

lemma io_preorder_refl: "io_preorder R \<Longrightarrow> R w w"
  by (auto simp: io_preorder_def reflp_def)

lemma io_preorder_trans: "io_preorder R \<Longrightarrow> R u v \<Longrightarrow> R v w \<Longrightarrow> R u w"
  by (auto simp: io_preorder_def transp_def)

lemma io_rel_return [io_intros]: "io_preorder R \<Longrightarrow> state_io_rel R (ret x)"
  by (simp add: state_io_rel_def io_preorder_refl)

lemma io_rel_read [io_intros]: "io_preorder R \<Longrightarrow> state_io_rel R (read_state f)"
  by (simp add: state_io_rel_def io_preorder_refl)

lemma io_rel_bind [io_intros]:
  assumes "io_preorder R" and "state_io_rel R m" and "\<And>x. state_io_rel R (f x)"
  shows "state_io_rel R (State_Monad.bind m f)"
  unfolding state_io_rel_def
proof
  fix w
  obtain x w' where m: "run_state m w = (x, w')" by fastforce
  obtain y w'' where f: "run_state (f x) w' = (y, w'')" by fastforce
  have "R w w'" using assms(2) m by (auto dest: state_io_relD)
  moreover have "R w' w''" using assms(3) f by (auto dest: state_io_relD)
  ultimately show "R w (snd (run_state (State_Monad.bind m f) w))"
    using m f assms(1) by (auto intro: io_preorder_trans)
qed

lemma io_rel_on_error [io_intros]:
  assumes "io_preorder R" and "state_io_rel R m"
    and "\<And>e. state_io_rel R (h e)" and "\<And>x. state_io_rel R (k x)"
  shows "state_io_rel R (on_error m h k)"
  unfolding on_error_def
  by (rule io_rel_bind [OF assms(1,2)]) (auto split: sum.splits intro: assms(3,4))

lemma io_rel_if [io_intros]:
  "(b \<Longrightarrow> state_io_rel R m) \<Longrightarrow> (\<not> b \<Longrightarrow> state_io_rel R n) \<Longrightarrow>
     state_io_rel R (if b then m else n)"
  by simp

lemma io_rel_only_if [io_intros]: "io_preorder R \<Longrightarrow> state_io_rel R m \<Longrightarrow> state_io_rel R (only_if b m)"
  by (simp add: only_if_def io_rel_return)

lemma io_rel_case_option [io_intros]:
  "(x = None \<Longrightarrow> state_io_rel R m) \<Longrightarrow> (\<And>y. x = Some y \<Longrightarrow> state_io_rel R (f y)) \<Longrightarrow>
     state_io_rel R (case x of None \<Rightarrow> m | Some y \<Rightarrow> f y)"
  by (cases x) auto

lemma io_rel_case_sum [io_intros]:
  "(\<And>e. x = Inl e \<Longrightarrow> state_io_rel R (f e)) \<Longrightarrow> (\<And>y. x = Inr y \<Longrightarrow> state_io_rel R (g y)) \<Longrightarrow>
     state_io_rel R (case x of Inl e \<Rightarrow> f e | Inr y \<Rightarrow> g y)"
  by (cases x) auto

lemma io_rel_let [io_intros]: "(\<And>x. state_io_rel R (f x)) \<Longrightarrow> state_io_rel R (let x = e in f x)"
  by (simp add: Let_def)

lemma io_keepsD: "state_io_rel (keeps I) m \<Longrightarrow> I w \<Longrightarrow> I (snd (run_state m w))"
  by (simp add: state_io_rel_def keeps_def)

lemma io_sameD: "state_io_rel (same f) m \<Longrightarrow> f (snd (run_state m w)) = f w"
  by (simp add: state_io_rel_def same_def)

text \<open>A \<open>for\<close> loop over a slice whose body ignores what it returns.\<close>

fun for_each :: "'a list \<Rightarrow> ('a \<Rightarrow> ('w, unit) state) \<Rightarrow> ('w, unit) state" where
  "for_each [] f = ret ()"
| "for_each (x # xs) f = do { f x; for_each xs f }"

lemma io_rel_for_each [io_intros]:
  "io_preorder R \<Longrightarrow> (\<And>x. state_io_rel R (f x)) \<Longrightarrow> state_io_rel R (for_each xs f)"
  by (induction xs) (auto intro!: io_intros)

text \<open>A \<open>for\<close> loop over a slice whose body returns from the function on an error.\<close>

fun try_each :: "'a list \<Rightarrow> ('a \<Rightarrow> ('w, 'e + 'b) state) \<Rightarrow> ('w, 'e + unit) state" where
  "try_each [] f = ret (Inr ())"
| "try_each (x # xs) f = on_error (f x) (\<lambda>e. ret (Inl e)) (\<lambda>_. try_each xs f)"

lemma io_rel_try_each [io_intros]:
  "io_preorder R \<Longrightarrow> (\<And>x. state_io_rel R (f x)) \<Longrightarrow> state_io_rel R (try_each xs f)"
  by (induction xs) (auto intro!: io_intros)

text \<open>A \<open>for\<close> loop that appends one result per element.\<close>

fun collect_each :: "'a list \<Rightarrow> ('a \<Rightarrow> ('w, 'b) state) \<Rightarrow> ('w, 'b list) state" where
  "collect_each [] f = ret []"
| "collect_each (x # xs) f = do { y \<leftarrow> f x; ys \<leftarrow> collect_each xs f; ret (y # ys) }"

lemma io_rel_collect_each [io_intros]:
  "io_preorder R \<Longrightarrow> (\<And>x. state_io_rel R (f x)) \<Longrightarrow> state_io_rel R (collect_each xs f)"
  by (induction xs) (auto intro!: io_intros)

lemma length_collect_each: "run_state (collect_each xs f) w = (ys, w') \<Longrightarrow> length ys = length xs"
  by (induction xs arbitrary: w ys) (auto split: prod.splits)

section \<open>Lists\<close>

lemma find_Some_in: "find P xs = Some x \<Longrightarrow> x \<in> set xs \<and> P x"
  by (auto simp: find_Some_iff)

lemma distinct_map_filter_snoc:
  "distinct (map f xs) \<Longrightarrow> f x \<notin> f ` set xs \<Longrightarrow> distinct (map f (xs @ [x]))"
  by simp

lemma map_of_filter_keys:
  "map_of (filter (\<lambda>(k, v). P k) xs) k = (if P k then map_of xs k else None)"
  by (induction xs) auto

end
