(* ===== verification/Redis.thy ===== *)
theory Redis
  imports Prelude
begin

text \<open>
  The interface of the Redis client (\<open>go-redis\<close>), which the middleware and the
  authentication service call. The client and the server are not part of the repository:
  their commands are the fields of a record that the model's definitions take as a
  parameter, and \<open>redis_service\<close> states the documented effect of each command on an
  abstract key space. \<open>mem_redis\<close> is an in-memory store that satisfies the interface.
\<close>

section \<open>Commands\<close>

text \<open>
  A value is either a decimal integer (what \<open>INCR\<close> writes and \<open>.Int()\<close> parses) or any
  other string. A key carries an optional expiry instant. All commands are given the
  instant at which the server runs them.
\<close>

datatype redis_value = RInt int | RStr string

record 'r redis_ops =
  rd_get :: "time \<Rightarrow> string \<Rightarrow> 'r \<Rightarrow> redis_value option"
  rd_set :: "time \<Rightarrow> string \<Rightarrow> redis_value \<Rightarrow> duration \<Rightarrow> 'r \<Rightarrow> 'r"
  rd_incr :: "time \<Rightarrow> string \<Rightarrow> 'r \<Rightarrow> int option \<times> 'r"
  rd_expire :: "time \<Rightarrow> string \<Rightarrow> duration \<Rightarrow> 'r \<Rightarrow> 'r"
  rd_del :: "time \<Rightarrow> string \<Rightarrow> 'r \<Rightarrow> 'r"
  rd_ttl :: "time \<Rightarrow> string \<Rightarrow> 'r \<Rightarrow> duration"

type_synonym key_space = "string \<Rightarrow> (redis_value \<times> time option) option"

definition expired :: "time \<Rightarrow> time option \<Rightarrow> bool" where
  "expired t x = (case x of None \<Rightarrow> False | Some e \<Rightarrow> e \<le> t)"

definition live :: "key_space \<Rightarrow> time \<Rightarrow> string \<Rightarrow> (redis_value \<times> time option) option" where
  "live m t k = (case m k of None \<Rightarrow> None | Some (v, x) \<Rightarrow> if expired t x then None else Some (v, x))"

lemma live_upd_same [simp]:
  "live (m(k \<mapsto> (v, x))) t k = (if expired t x then None else Some (v, x))"
  by (simp add: live_def)

lemma live_upd_other [simp]: "k' \<noteq> k \<Longrightarrow> live (m(k := y)) t k' = live m t k'"
  by (simp add: live_def)

lemma live_del_same [simp]: "live (m(k := None)) t k = None"
  by (simp add: live_def)

lemma expired_None [simp]: "\<not> expired t None"
  by (simp add: expired_def)

lemma expired_Some [simp]: "expired t (Some e) \<longleftrightarrow> e \<le> t"
  by (simp add: expired_def)

lemma live_later: "live m t k = None \<Longrightarrow> t \<le> t' \<Longrightarrow> live m t' k = None"
  by (auto simp: live_def expired_def split: option.splits if_splits)

section \<open>The documented behaviour\<close>

text \<open>
  \<open>SET\<close> with a positive duration sets the key to expire after that duration, which the
  client rounds down to milliseconds where it is not a whole number of seconds;
  \<open>INCR\<close> starts a missing key at 1 without expiry and keeps the expiry of an existing
  key; \<open>EXPIRE\<close> replaces the expiry of an existing key and ignores a missing one.
  \<open>INCR\<close> is specified below the range where the server reports an overflow.
\<close>

locale redis_service =
  fixes R :: "'r redis_ops"
    and view :: "'r \<Rightarrow> key_space"
  assumes get_view: "rd_get R t k s = map_option fst (live (view s) t k)"
    and set_view_sec: "0 < d \<Longrightarrow> nsSecond dvd d \<Longrightarrow>
      view (rd_set R t k v d s) = (view s)(k \<mapsto> (v, Some (t + d)))"
    and set_view: "0 < d \<Longrightarrow>
      \<exists>e. view (rd_set R t k v d s) = (view s)(k \<mapsto> (v, Some (t + e)))
        \<and> d - 1000000 < e \<and> e \<le> max d 1000000"
    and incr_new: "live (view s) t k = None \<Longrightarrow>
      fst (rd_incr R t k s) = Some 1 \<and> view (snd (rd_incr R t k s)) = (view s)(k \<mapsto> (RInt 1, None))"
    and incr_old: "live (view s) t k = Some (RInt n, x) \<Longrightarrow> n < 2 ^ 63 - 1 \<Longrightarrow>
      fst (rd_incr R t k s) = Some (n + 1) \<and>
      view (snd (rd_incr R t k s)) = (view s)(k \<mapsto> (RInt (n + 1), x))"
    and incr_str: "live (view s) t k = Some (RStr z, x) \<Longrightarrow>
      fst (rd_incr R t k s) = None \<and> view (snd (rd_incr R t k s)) = view s"
    and expire_live: "live (view s) t k = Some (v, x) \<Longrightarrow> 0 < d \<Longrightarrow> nsSecond dvd d \<Longrightarrow>
      view (rd_expire R t k d s) = (view s)(k \<mapsto> (v, Some (t + d)))"
    and expire_dead: "live (view s) t k = None \<Longrightarrow>
      live (view (rd_expire R t k d s)) t' k' = live (view s) t' k'"
    and expire_other: "k' \<noteq> k \<Longrightarrow> view (rd_expire R t k d s) k' = view s k'"
    and del_view: "view (rd_del R t k s) = (view s)(k := None)"
begin

lemma incr_other: "k' \<noteq> k \<Longrightarrow> live (view s) t k = Some (RInt n, x) \<Longrightarrow> n < 2 ^ 63 - 1 \<Longrightarrow>
    view (snd (rd_incr R t k s)) k' = view s k'"
  using incr_old by simp

text \<open>A key that was just set is found until it expires.\<close>

lemma get_set_same: "0 < d \<Longrightarrow> nsSecond dvd d \<Longrightarrow>
    rd_get R t' k (rd_set R t k v d s) = (if t + d \<le> t' then None else Some v)"
  by (simp add: get_view set_view_sec)

lemma get_set_before: "0 < d \<Longrightarrow> t' \<le> t + d - 1000000 \<Longrightarrow>
    rd_get R t' k (rd_set R t k v d s) = Some v"
  using set_view [of d t k v s] by (auto simp: get_view)

lemma get_set_after: "1000000 \<le> d \<Longrightarrow> t + d \<le> t' \<Longrightarrow>
    rd_get R t' k (rd_set R t k v d s) = None"
  using set_view [of d t k v s] by (auto simp: get_view)

lemma get_set_other: "0 < d \<Longrightarrow> k' \<noteq> k \<Longrightarrow> rd_get R t' k' (rd_set R t k v d s) = rd_get R t' k' s"
  using set_view [of d t k v s] by (auto simp: get_view)

lemma get_del_same: "rd_get R t' k (rd_del R t k s) = None"
  by (simp add: get_view del_view)

lemma get_del_other: "k' \<noteq> k \<Longrightarrow> rd_get R t' k' (rd_del R t k s) = rd_get R t' k' s"
  by (simp add: get_view del_view)

text \<open>
  The counting idiom of the program, \<open>INCR\<close> followed by \<open>EXPIRE\<close>: the counter moves to
  the next value and lives for the whole duration from now on.
\<close>

lemma count_new:
  assumes "live (view s) t k = None" and "0 < d" and "nsSecond dvd d"
  shows "view (rd_expire R t k d (snd (rd_incr R t k s))) = (view s)(k \<mapsto> (RInt 1, Some (t + d)))"
proof -
  have v: "view (snd (rd_incr R t k s)) = (view s)(k \<mapsto> (RInt 1, None))"
    using incr_new [OF assms(1)] by simp
  then have "live (view (snd (rd_incr R t k s))) t k = Some (RInt 1, None)"
    by simp
  from expire_live [OF this assms(2,3)] v show ?thesis by simp
qed

lemma count_old:
  assumes l: "live (view s) t k = Some (RInt n, x)" and "n < 2 ^ 63 - 1"
    and "0 < d" and "nsSecond dvd d"
  shows "view (rd_expire R t k d (snd (rd_incr R t k s)))
    = (view s)(k \<mapsto> (RInt (n + 1), Some (t + d)))"
proof -
  have v: "view (snd (rd_incr R t k s)) = (view s)(k \<mapsto> (RInt (n + 1), x))"
    using incr_old [OF l assms(2)] by simp
  have "\<not> expired t x"
    using l by (auto simp: live_def split: option.splits if_splits)
  with v have "live (view (snd (rd_incr R t k s))) t k = Some (RInt (n + 1), x)"
    by simp
  from expire_live [OF this assms(3,4)] v show ?thesis by simp
qed

end

section \<open>An in-memory store\<close>

type_synonym mem_store = "(string \<times> redis_value \<times> time option) list"

definition mem_live :: "mem_store \<Rightarrow> time \<Rightarrow> string \<Rightarrow> (redis_value \<times> time option) option" where
  "mem_live s = live (map_of s)"

definition mem_round :: "duration \<Rightarrow> duration" where
  "mem_round d = (if d < 1000000 then 1000000 else d - d mod 1000000)"

definition mem_redis :: "mem_store redis_ops" where
  "mem_redis = \<lparr>
     rd_get = (\<lambda>t k s. map_option fst (mem_live s t k)),
     rd_set = (\<lambda>t k v d s. AList.update k (v, Some (t + mem_round d)) s),
     rd_incr = (\<lambda>t k s. case mem_live s t k of
         None \<Rightarrow> (Some 1, AList.update k (RInt 1, None) s)
       | Some (RInt n, x) \<Rightarrow> (Some (n + 1), AList.update k (RInt (n + 1), x) s)
       | Some (RStr v, x) \<Rightarrow> (None, s)),
     rd_expire = (\<lambda>t k d s. case mem_live s t k of
         None \<Rightarrow> s
       | Some (v, x) \<Rightarrow> AList.update k (v, Some (t + d)) s),
     rd_del = (\<lambda>t k s. AList.delete k s),
     rd_ttl = (\<lambda>t k s. case mem_live s t k of Some (v, Some x) \<Rightarrow> x - t | _ \<Rightarrow> -1) \<rparr>"

lemma mem_round_second: "0 < d \<Longrightarrow> nsSecond dvd d \<Longrightarrow> mem_round d = d"
  by (auto simp: mem_round_def nsSecond_def elim!: dvdE)

lemma mem_round_bounds: "0 < d \<Longrightarrow> d - 1000000 < mem_round d \<and> mem_round d \<le> max d 1000000"
proof (cases "d < 1000000")
  case False
  have "0 \<le> d mod 1000000" and "d mod 1000000 < 1000000" by simp_all
  with False show ?thesis by (auto simp: mem_round_def max_def)
qed (simp add: mem_round_def)

lemma mem_live_not_expired: "mem_live s t k = Some (v, x) \<Longrightarrow> \<not> expired t x"
  by (auto simp: mem_live_def live_def split: option.splits if_splits)

interpretation mem: redis_service mem_redis map_of
proof (unfold_locales, goal_cases)
  case (1 t k s) show ?case by (simp add: mem_redis_def mem_live_def)
next
  case (2 d t k v s) then show ?case
    by (simp add: mem_redis_def AList.update_conv' mem_round_second)
next
  case (3 d t k v s) then show ?case
    by (intro exI [of _ "mem_round d"]) (simp add: mem_redis_def AList.update_conv' mem_round_bounds)
next
  case (4 s t k) then show ?case
    by (simp add: mem_redis_def mem_live_def AList.update_conv')
next
  case (5 s t k n x) then show ?case
    by (simp add: mem_redis_def mem_live_def AList.update_conv')
next
  case (6 s t k v x) then show ?case
    by (simp add: mem_redis_def mem_live_def)
next
  case (7 s t k v x d) then show ?case
    by (simp add: mem_redis_def mem_live_def AList.update_conv')
next
  case (8 s t k d t' k') then show ?case
    by (simp add: mem_redis_def mem_live_def)
next
  case (9 k' k t d s) then show ?case
    by (auto simp: mem_redis_def AList.update_conv' split: option.splits)
next
  case (10 t k s) then show ?case
    by (simp add: mem_redis_def AList.delete_conv')
qed

end
