(* ===== verification/TokenCache.thy ===== *)
theory TokenCache
  imports Prelude
begin

text \<open>
  The in-memory cache of validated tokens, \<open>internal/shared/utils/cache.go\<close>: a map from
  keys to entries with an expiry instant, bounded by \<open>maxSize\<close>, evicting the entry that
  expires first. \<open>Get\<close> takes two critical sections (a read under the read lock, a deletion
  under the write lock), so it is modelled as two steps between which other goroutines
  may run. Go visits a map in an unspecified order: the order is an argument of \<open>Set\<close>.
\<close>

section \<open>State and operations\<close>

record 'a cache_entry =
  ce_data :: 'a
  ce_expires :: time

record 'a token_cache =
  tc_entries :: "(string \<times> 'a cache_entry) list"
  tc_ttl :: duration
  tc_max :: int

definition new_token_cache :: "duration \<Rightarrow> int \<Rightarrow> 'a token_cache" where
  "new_token_cache ttl maxSize = \<lparr>tc_entries = [], tc_ttl = ttl, tc_max = maxSize\<rparr>"

definition cache_keys :: "'a token_cache \<Rightarrow> string list" where
  "cache_keys c = map fst (tc_entries c)"

text \<open>The goroutine that \<open>NewTokenCache\<close> starts: one pass of the clean-up loop.\<close>

definition cache_sweep :: "time \<Rightarrow> 'a token_cache \<Rightarrow> 'a token_cache" where
  "cache_sweep now c =
     c\<lparr>tc_entries := filter (\<lambda>(k, e). \<not> ce_expires e < now) (tc_entries c)\<rparr>"

definition cache_delete :: "string \<Rightarrow> 'a token_cache \<Rightarrow> 'a token_cache" where
  "cache_delete key c = c\<lparr>tc_entries := AList.delete key (tc_entries c)\<rparr>"

text \<open>\<open>Get\<close>: the read, then the check against the clock with the deletion.\<close>

definition cache_read :: "string \<Rightarrow> 'a token_cache \<Rightarrow> 'a cache_entry option" where
  "cache_read key c = map_of (tc_entries c) key"

definition cache_finish ::
  "time \<Rightarrow> string \<Rightarrow> 'a cache_entry option \<Rightarrow> 'a token_cache \<Rightarrow> 'a option \<times> 'a token_cache" where
  "cache_finish now key entry c =
     (case entry of
        None \<Rightarrow> (None, c)
      | Some e \<Rightarrow> (if ce_expires e < now then (None, cache_delete key c) else (Some (ce_data e), c)))"

definition cache_get :: "time \<Rightarrow> string \<Rightarrow> 'a token_cache \<Rightarrow> 'a option \<times> 'a token_cache" where
  "cache_get now key c = cache_finish now key (cache_read key c) c"

text \<open>
  The eviction loop of \<open>Set\<close> over the keys in the order in which the runtime visits them;
  the accumulator is \<open>(oldestKey, oldestTime)\<close>.
\<close>

fun oldest_scan ::
  "(string \<rightharpoonup> 'a cache_entry) \<Rightarrow> string list \<Rightarrow> string \<times> time \<Rightarrow> string \<times> time" where
  "oldest_scan m [] acc = acc"
| "oldest_scan m (k # ks) (oldestKey, oldestTime) =
     (case m k of
        None \<Rightarrow> oldest_scan m ks (oldestKey, oldestTime)
      | Some v \<Rightarrow>
          (if oldestKey = [] \<or> ce_expires v < oldestTime
           then oldest_scan m ks (k, ce_expires v)
           else oldest_scan m ks (oldestKey, oldestTime)))"

definition cache_evict :: "string list \<Rightarrow> 'a token_cache \<Rightarrow> 'a token_cache" where
  "cache_evict order c =
     (if tc_max c \<le> int (length (tc_entries c))
      then cache_delete (fst (oldest_scan (map_of (tc_entries c)) order ([], 0))) c
      else c)"

definition cache_set ::
  "string list \<Rightarrow> time \<Rightarrow> string \<Rightarrow> 'a \<Rightarrow> 'a token_cache \<Rightarrow> 'a token_cache" where
  "cache_set order now key d c =
     (let c' = cache_evict order c
      in c'\<lparr>tc_entries :=
           AList.update key \<lparr>ce_data = d, ce_expires = now + tc_ttl c'\<rparr> (tc_entries c')\<rparr>)"

lemmas cache_defs = cache_sweep_def cache_delete_def cache_read_def cache_finish_def
  cache_get_def cache_evict_def cache_set_def cache_keys_def

section \<open>The eviction loop\<close>

text \<open>The loop ends with a key of the map, whatever the order, as long as it visits one.\<close>

lemma oldest_scan_member:
  "fst (oldest_scan m ks (ok, ot)) \<in> insert ok (dom m)"
proof (induction ks arbitrary: ok ot)
  case (Cons k ks)
  have "m k = Some v \<Longrightarrow> fst (oldest_scan m ks (k, ce_expires v)) \<in> dom m" for v
    using Cons.IH [of k "ce_expires v"] by auto
  with Cons.IH [of ok ot] show ?case by (auto split: option.splits)
qed simp

lemma oldest_scan_in_dom:
  assumes "set ks \<inter> dom m \<noteq> {}"
  shows "fst (oldest_scan m ks ([], t)) \<in> dom m"
  using assms
proof (induction ks arbitrary: t)
  case (Cons k ks)
  show ?case
  proof (cases "m k")
    case None
    with Cons show ?thesis by auto
  next
    case (Some v)
    then have "k \<in> dom m" by auto
    with Some oldest_scan_member [of m ks k "ce_expires v"] show ?thesis by auto
  qed
qed simp

text \<open>With non-empty keys the loop ends with an entry that expires first.\<close>

lemma oldest_scan_least:
  assumes "[] \<notin> dom m" and "ok \<in> dom m" and "ot = ce_expires (the (m ok))"
  shows "\<forall>k \<in> insert ok (set ks \<inter> dom m).
    ce_expires (the (m (fst (oldest_scan m ks (ok, ot))))) \<le> ce_expires (the (m k))"
  using assms
proof (induction ks arbitrary: ok ot)
  case (Cons k ks)
  show ?case
  proof (cases "m k")
    case None
    with Cons.IH [OF Cons.prems] show ?thesis by auto
  next
    case (Some v)
    have ne: "ok \<noteq> []" using Cons.prems by auto
    have k: "k \<in> dom m" using Some by auto
    show ?thesis
    proof (cases "ce_expires v < ot")
      case True
      have ih: "\<forall>x \<in> insert k (set ks \<inter> dom m).
          ce_expires (the (m (fst (oldest_scan m ks (k, ce_expires v))))) \<le> ce_expires (the (m x))"
        using Cons.IH [OF Cons.prems(1) k] Some by simp
      with True Some Cons.prems(3) have
        "ce_expires (the (m (fst (oldest_scan m ks (k, ce_expires v))))) \<le> ce_expires (the (m ok))"
        by fastforce
      with ih True Some show ?thesis by auto
    next
      case False
      have ih: "\<forall>x \<in> insert ok (set ks \<inter> dom m).
          ce_expires (the (m (fst (oldest_scan m ks (ok, ot))))) \<le> ce_expires (the (m x))"
        using Cons.IH [OF Cons.prems] .
      with False Some Cons.prems(3) have
        "ce_expires (the (m (fst (oldest_scan m ks (ok, ot))))) \<le> ce_expires (the (m k))"
        by fastforce
      with ih False Some ne show ?thesis by auto
    qed
  qed
qed simp

lemma oldest_scan_min:
  assumes "[] \<notin> dom m" and "k \<in> set ks" and "k \<in> dom m"
  shows "ce_expires (the (m (fst (oldest_scan m ks ([], t))))) \<le> ce_expires (the (m k))"
  using assms(2,3)
proof (induction ks arbitrary: t)
  case (Cons a ks)
  show ?case
  proof (cases "m a")
    case None
    with Cons show ?thesis by auto
  next
    case (Some v)
    have "\<forall>x \<in> insert a (set ks \<inter> dom m).
      ce_expires (the (m (fst (oldest_scan m ks (a, ce_expires v))))) \<le> ce_expires (the (m x))"
      using assms(1) Some by (intro oldest_scan_least) auto
    with Some Cons.prems show ?thesis by auto
  qed
qed simp

section \<open>Well-formed caches\<close>

definition cache_wf :: "'a token_cache \<Rightarrow> bool" where
  "cache_wf c \<longleftrightarrow>
     distinct (cache_keys c) \<and> int (length (tc_entries c)) \<le> max 1 (tc_max c)"

lemma cache_wf_distinct: "cache_wf c \<Longrightarrow> distinct (cache_keys c)"
  by (simp add: cache_wf_def)

lemma length_delete_member:
  "distinct (map fst al) \<Longrightarrow> k \<in> fst ` set al \<Longrightarrow> Suc (length (AList.delete k al)) = length al"
proof (induction al)
  case (Cons p al)
  show ?case
  proof (cases "fst p = k")
    case True
    with Cons.prems have "k \<notin> fst ` set al" by auto
    with True show ?thesis by (cases p) simp
  next
    case False
    with Cons show ?thesis by (cases p) auto
  qed
qed simp

lemma length_update_le: "length (AList.update k v al) \<le> Suc (length al)"
proof -
  have "length (map fst (AList.update k v al)) \<le> Suc (length (map fst al))"
    by (simp add: AList.update_keys del: length_map)
  then show ?thesis by simp
qed

lemma cache_keys_dom: "set (cache_keys c) = dom (map_of (tc_entries c))"
  by (simp add: cache_keys_def dom_map_of_conv_image_fst)

lemma cache_config [simp]:
  "tc_ttl (cache_delete k c) = tc_ttl c" "tc_max (cache_delete k c) = tc_max c"
  "tc_ttl (cache_sweep t c) = tc_ttl c" "tc_max (cache_sweep t c) = tc_max c"
  "tc_ttl (cache_evict ord c) = tc_ttl c" "tc_max (cache_evict ord c) = tc_max c"
  "tc_ttl (cache_set ord t k d c) = tc_ttl c" "tc_max (cache_set ord t k d c) = tc_max c"
  by (auto simp: cache_defs Let_def)

lemma cache_finish_config [simp]:
  "tc_ttl (snd (cache_finish t k e c)) = tc_ttl c" "tc_max (snd (cache_finish t k e c)) = tc_max c"
  by (auto simp: cache_finish_def split: option.splits)

lemma cache_delete_wf: "cache_wf c \<Longrightarrow> cache_wf (cache_delete k c)"
  using AList.length_delete_le [of k "tc_entries c"]
  by (auto simp: cache_wf_def cache_delete_def cache_keys_def AList.distinct_delete)

lemma cache_sweep_wf: "cache_wf c \<Longrightarrow> cache_wf (cache_sweep t c)"
proof -
  assume c: "cache_wf c"
  have "length (tc_entries (cache_sweep t c)) \<le> length (tc_entries c)"
    by (simp add: cache_sweep_def)
  with c have "int (length (tc_entries (cache_sweep t c))) \<le> max 1 (tc_max (cache_sweep t c))"
    unfolding cache_wf_def cache_config by linarith
  moreover have "distinct (cache_keys (cache_sweep t c))"
    using c by (simp add: cache_wf_def cache_sweep_def cache_keys_def distinct_map_filter)
  ultimately show ?thesis by (simp add: cache_wf_def)
qed

lemma cache_finish_wf: "cache_wf c \<Longrightarrow> cache_wf (snd (cache_finish t k e c))"
  by (auto simp: cache_finish_def cache_delete_wf split: option.splits)

text \<open>A full cache loses exactly one entry before the new one goes in.\<close>

lemma cache_evict_length:
  assumes "cache_wf c" and "set order = set (cache_keys c)"
  shows "int (length (tc_entries (cache_evict order c))) < max 1 (tc_max c)"
proof (cases "tc_max c \<le> int (length (tc_entries c))")
  case True
  let ?k = "fst (oldest_scan (map_of (tc_entries c)) order ([], 0))"
  have d: "distinct (map fst (tc_entries c))" using assms(1) by (simp add: cache_wf_def cache_keys_def)
  show ?thesis
  proof (cases "tc_entries c = []")
    case False
    then have "set order \<inter> dom (map_of (tc_entries c)) \<noteq> {}"
      using assms(2) by (auto simp: cache_keys_dom [symmetric] cache_keys_def)
    then have "?k \<in> dom (map_of (tc_entries c))" by (rule oldest_scan_in_dom)
    then have "?k \<in> fst ` set (tc_entries c)" by (simp add: dom_map_of_conv_image_fst)
    from length_delete_member [OF d this] True assms(1) show ?thesis
      by (auto simp: cache_evict_def cache_delete_def cache_wf_def)
  qed (simp add: cache_evict_def cache_delete_def)
qed (auto simp: cache_evict_def)

lemma cache_evict_distinct: "distinct (cache_keys c) \<Longrightarrow> distinct (cache_keys (cache_evict order c))"
  by (simp add: cache_evict_def cache_delete_def cache_keys_def AList.distinct_delete)

lemma cache_set_wf:
  assumes "cache_wf c" and "set order = set (cache_keys c)"
  shows "cache_wf (cache_set order t k d c)"
proof -
  have "int (length (tc_entries (cache_set order t k d c))) \<le> max 1 (tc_max c)"
    using cache_evict_length [OF assms]
      length_update_le [of k "\<lparr>ce_data = d, ce_expires = t + tc_ttl c\<rparr>"
        "tc_entries (cache_evict order c)"]
    by (simp add: cache_set_def Let_def)
  moreover have "distinct (cache_keys (cache_set order t k d c))"
    using cache_evict_distinct [of c order] assms(1)
    by (simp add: cache_set_def Let_def cache_keys_def cache_wf_def AList.distinct_update)
  ultimately show ?thesis by (simp add: cache_wf_def)
qed

section \<open>Lookups after the operations\<close>

lemma cache_read_set:
  "cache_read k' (cache_set order t k d c) =
     (if k' = k then Some \<lparr>ce_data = d, ce_expires = t + tc_ttl c\<rparr>
      else cache_read k' (cache_evict order c))"
  by (simp add: cache_set_def Let_def cache_read_def AList.update_conv')

lemma cache_read_delete:
  "cache_read k' (cache_delete k c) = (if k' = k then None else cache_read k' c)"
  by (simp add: cache_read_def cache_delete_def AList.delete_conv')

lemma cache_read_evict: "cache_read k (cache_evict order c) = Some e \<Longrightarrow> cache_read k c = Some e"
  by (auto simp: cache_evict_def cache_read_delete split: if_splits)

lemma cache_read_evict_room:
  "int (length (tc_entries c)) < tc_max c \<Longrightarrow> cache_read k (cache_evict order c) = cache_read k c"
  by (simp add: cache_evict_def)

lemma cache_read_sweep: "cache_read k (cache_sweep t c) = Some e \<Longrightarrow> distinct (cache_keys c) \<Longrightarrow>
    cache_read k c = Some e \<and> t \<le> ce_expires e"
  unfolding cache_read_def cache_sweep_def cache_keys_def
  by (auto dest!: map_of_SomeD)

lemma cache_read_finish:
  "cache_read k' (snd (cache_finish t k e c)) = Some x \<Longrightarrow> cache_read k' c = Some x"
  by (auto simp: cache_finish_def cache_read_delete split: option.splits if_splits)

lemma cache_get_hit:
  "fst (cache_get t k c) = Some d \<longleftrightarrow> (\<exists>e. cache_read k c = Some e \<and> t \<le> ce_expires e \<and> ce_data e = d)"
  by (auto simp: cache_get_def cache_finish_def split: option.splits)

section \<open>The interface the middleware relies on\<close>

text \<open>
  A cache with a time to live, as its client sees it: an insertion is found until it
  expires, and no other operation makes a lookup succeed that would have failed. The
  unspecified visiting order of a Go map is a function \<open>range\<close> that permutes the keys.
\<close>

locale timed_cache =
  fixes get :: "time \<Rightarrow> string \<Rightarrow> 'c \<Rightarrow> 'a option \<times> 'c"
    and put :: "time \<Rightarrow> string \<Rightarrow> 'a \<Rightarrow> 'c \<Rightarrow> 'c"
    and ttl :: "'c \<Rightarrow> duration"
  assumes get_put_same: "t' \<le> t + ttl c \<Longrightarrow> fst (get t' k (put t k d c)) = Some d"
    and put_expires: "t + ttl c < t' \<Longrightarrow> fst (get t' k (put t k d c)) = None"
    and get_put_other: "k' \<noteq> k \<Longrightarrow> fst (get t' k' (put t k d c)) = Some x \<Longrightarrow>
      fst (get t' k' c) = Some x"
    and get_get: "t \<le> t' \<Longrightarrow> fst (get t' k' (snd (get t k c))) = fst (get t' k' c)"
    and get_mono: "fst (get t' k c) = Some x \<Longrightarrow> t \<le> t' \<Longrightarrow> fst (get t k c) = Some x"
    and ttl_put: "ttl (put t k d c) = ttl c"
    and ttl_get: "ttl (snd (get t k c)) = ttl c"
begin

fun lookups :: "(time \<times> string) list \<Rightarrow> 'c \<Rightarrow> 'c" where
  "lookups [] c = c"
| "lookups ((t, k) # rs) c = lookups rs (snd (get t k c))"

text \<open>Lookups, of whatever keys, do not change what a later lookup finds.\<close>

lemma get_after_lookups:
  "\<forall>(t, k) \<in> set rs. t \<le> t' \<Longrightarrow> fst (get t' k' (lookups rs c)) = fst (get t' k' c)"
  by (induction rs c rule: lookups.induct) (auto simp: get_get)

lemma cached_decision_stays:
  assumes "\<forall>(s, j) \<in> set rs. s \<le> t'" and "t' \<le> t + ttl c"
  shows "fst (get t' k (lookups rs (put t k d c))) = Some d"
  using assms by (simp add: get_after_lookups get_put_same)

end

locale key_range =
  fixes range :: "string list \<Rightarrow> string list"
  assumes range_keys: "set (range ks) = set ks"

lemma cache_get_put_same: "t' \<le> t + tc_ttl c \<Longrightarrow> fst (cache_get t' k (cache_set ord t k d c)) = Some d"
  by (simp add: cache_get_hit cache_read_set)

lemma cache_put_expires: "t + tc_ttl c < t' \<Longrightarrow> fst (cache_get t' k (cache_set ord t k d c)) = None"
  by (simp add: cache_get_def cache_finish_def cache_read_set)

lemma cache_get_put_other: "k' \<noteq> k \<Longrightarrow> fst (cache_get t' k' (cache_set ord t k d c)) = Some x \<Longrightarrow>
    fst (cache_get t' k' c) = Some x"
  by (auto simp: cache_get_hit cache_read_set dest: cache_read_evict)

lemma cache_read_get:
  "cache_read k' (snd (cache_get t k c)) =
     (if k' = k \<and> (\<exists>e. cache_read k c = Some e \<and> ce_expires e < t) then None else cache_read k' c)"
  by (auto simp: cache_get_def cache_finish_def cache_read_delete split: option.splits)

lemma cache_get_get: "t \<le> t' \<Longrightarrow> fst (cache_get t' k' (snd (cache_get t k c))) = fst (cache_get t' k' c)"
  by (auto simp: cache_get_def [of t' k'] cache_finish_def cache_read_get split: option.splits)

sublocale key_range \<subseteq> cache: timed_cache cache_get
    "\<lambda>t k d c. cache_set (range (cache_keys c)) t k d c" tc_ttl
proof (unfold_locales, goal_cases)
  case (5 t' k c x t) then show ?case by (auto simp: cache_get_hit)
next
  case (7 t k c) then show ?case by (simp add: cache_get_def)
qed (auto simp: cache_get_put_same cache_put_expires cache_get_get dest: cache_get_put_other)

interpretation insertion_order: key_range "\<lambda>ks. ks"
  by unfold_locales simp

section \<open>Any interleaving of the operations\<close>

text \<open>
  The cache with the goroutines that use it: \<open>cs_pending\<close> are the calls of \<open>Get\<close> between
  their two critical sections, \<open>cs_log\<close> records every \<open>Set\<close> that took place.
\<close>

record 'a cache_sys =
  cs_cache :: "'a token_cache"
  cs_pending :: "(string \<times> 'a cache_entry option) list"
  cs_now :: time
  cs_log :: "(time \<times> string \<times> 'a) list"

inductive cache_step :: "'a cache_sys \<Rightarrow> 'a cache_sys \<Rightarrow> bool" where
  tick: "cs_now s \<le> t \<Longrightarrow> cache_step s (s\<lparr>cs_now := t\<rparr>)"
| get_read: "cache_step s (s\<lparr>cs_pending := (k, cache_read k (cs_cache s)) # cs_pending s\<rparr>)"
| get_finish: "(k, e) \<in> set (cs_pending s) \<Longrightarrow>
    cache_step s (s\<lparr>cs_cache := snd (cache_finish (cs_now s) k e (cs_cache s)),
                    cs_pending := remove1 (k, e) (cs_pending s)\<rparr>)"
| set: "set order = set (cache_keys (cs_cache s)) \<Longrightarrow>
    cache_step s (s\<lparr>cs_cache := cache_set order (cs_now s) k d (cs_cache s),
                    cs_log := (cs_now s, k, d) # cs_log s\<rparr>)"
| delete: "cache_step s (s\<lparr>cs_cache := cache_delete k (cs_cache s)\<rparr>)"
| sweep: "cache_step s (s\<lparr>cs_cache := cache_sweep (cs_now s) (cs_cache s)\<rparr>)"

inductive cache_reachable :: "duration \<Rightarrow> int \<Rightarrow> 'a cache_sys \<Rightarrow> bool" for ttl maxSize where
  start: "cache_reachable ttl maxSize
    \<lparr>cs_cache = new_token_cache ttl maxSize, cs_pending = [], cs_now = t, cs_log = []\<rparr>"
| step: "cache_reachable ttl maxSize s \<Longrightarrow> cache_step s s' \<Longrightarrow> cache_reachable ttl maxSize s'"

definition logged :: "'a cache_sys \<Rightarrow> string \<Rightarrow> 'a cache_entry \<Rightarrow> bool" where
  "logged s k e \<longleftrightarrow> (\<exists>t. (t, k, ce_data e) \<in> set (cs_log s) \<and> t \<le> cs_now s
     \<and> ce_expires e = t + tc_ttl (cs_cache s))"

definition cache_sys_inv :: "duration \<Rightarrow> int \<Rightarrow> 'a cache_sys \<Rightarrow> bool" where
  "cache_sys_inv ttl maxSize s \<longleftrightarrow>
     cache_wf (cs_cache s) \<and> tc_ttl (cs_cache s) = ttl \<and> tc_max (cs_cache s) = maxSize \<and>
     (\<forall>k e. cache_read k (cs_cache s) = Some e \<longrightarrow> logged s k e) \<and>
     (\<forall>k e. (k, Some e) \<in> set (cs_pending s) \<longrightarrow> logged s k e)"

lemma cache_step_inv: "cache_step s s' \<Longrightarrow> cache_sys_inv ttl m s \<Longrightarrow> cache_sys_inv ttl m s'"
proof (induction rule: cache_step.induct)
  case (tick s t)
  then show ?case by (fastforce simp: cache_sys_inv_def logged_def)
next
  case (get_read s k)
  then show ?case by (auto simp: cache_sys_inv_def logged_def)
next
  case (get_finish k e s)
  then show ?case
    by (auto simp: cache_sys_inv_def logged_def cache_finish_wf
        dest!: cache_read_finish notin_set_remove1 set_remove1_subset [THEN subsetD])
next
  case (set order s k d)
  then show ?case
    by (force simp: cache_sys_inv_def logged_def cache_set_wf cache_read_set
        dest!: cache_read_evict split: if_splits)
next
  case (delete s k)
  then show ?case
    by (auto simp: cache_sys_inv_def logged_def cache_delete_wf cache_read_delete split: if_splits)
next
  case (sweep s)
  then show ?case
    by (auto simp: cache_sys_inv_def logged_def cache_sweep_wf
        dest!: cache_read_sweep intro: cache_wf_distinct)
qed

lemma cache_reachable_inv: "cache_reachable ttl m s \<Longrightarrow> cache_sys_inv ttl m s"
proof (induction rule: cache_reachable.induct)
  case (start t)
  show ?case
    by (simp add: cache_sys_inv_def cache_wf_def new_token_cache_def cache_keys_def cache_read_def)
next
  case (step s s')
  then show ?case by (blast intro: cache_step_inv)
qed

section \<open>Properties\<close>

text \<open>
  C11: whatever goroutines do concurrently with the cache, in whatever order maps are
  visited, the cache never holds two entries for a key and never more than \<open>maxSize\<close>
  entries (one, where \<open>maxSize\<close> is not positive).
\<close>
theorem cache_bounded:
  assumes "cache_reachable ttl maxSize s"
  shows "distinct (cache_keys (cs_cache s)) \<and> int (length (tc_entries (cs_cache s))) \<le> max 1 maxSize"
  using cache_reachable_inv [OF assms] by (auto simp: cache_sys_inv_def cache_wf_def)

text \<open>A reachable state: one insertion, then the first half of a lookup.\<close>

definition cache_demo :: "nat cache_sys" where
  "cache_demo = \<lparr>cs_cache = cache_set [] 5 ''k'' 7 (new_token_cache 10 1),
     cs_pending = [(''k'', Some \<lparr>ce_data = 7, ce_expires = 15\<rparr>)],
     cs_now = 5, cs_log = [(5, ''k'', 7)]\<rparr>"

lemma cache_demo_reachable: "cache_reachable 10 1 cache_demo"
proof -
  let ?s0 = "\<lparr>cs_cache = new_token_cache 10 1, cs_pending = [], cs_now = 5, cs_log = []\<rparr> :: nat cache_sys"
  have "cache_reachable 10 1 ?s0" by (rule cache_reachable.start)
  moreover have "cache_step ?s0 (?s0\<lparr>cs_cache := cache_set [] 5 ''k'' 7 (cs_cache ?s0),
      cs_log := (5, ''k'', 7) # cs_log ?s0\<rparr>)"
    using cache_step.set [of "[]" ?s0 "''k''" 7] by (simp add: new_token_cache_def cache_keys_def)
  ultimately have "cache_reachable 10 1 (?s0\<lparr>cs_cache := cache_set [] 5 ''k'' 7 (cs_cache ?s0),
      cs_log := (5, ''k'', 7) # cs_log ?s0\<rparr>)" (is "cache_reachable 10 1 ?s1")
    by (rule cache_reachable.step)
  from cache_reachable.step [OF this cache_step.get_read [of ?s1 "''k''"]]
  show ?thesis
    by (simp add: cache_demo_def cache_read_set new_token_cache_def)
qed

theorem cache_bounded_witness:
  "distinct (cache_keys (cs_cache cache_demo)) \<and>
   int (length (tc_entries (cs_cache cache_demo))) \<le> max 1 1"
  using cache_bounded [OF cache_demo_reachable] by simp

text \<open>
  C10: a lookup that succeeds returns what some earlier \<open>Set\<close> stored under the same key,
  and not longer than the time to live after that \<open>Set\<close>, even when other goroutines run
  between the two critical sections of \<open>Get\<close>.
\<close>
theorem cache_get_fresh:
  assumes "cache_reachable ttl maxSize s" and "(k, e) \<in> set (cs_pending s)"
    and "fst (cache_finish (cs_now s) k e (cs_cache s)) = Some d"
  shows "\<exists>t. (t, k, d) \<in> set (cs_log s) \<and> t \<le> cs_now s \<and> cs_now s \<le> t + ttl"
  using cache_reachable_inv [OF assms(1)] assms(2,3)
  by (fastforce simp: cache_sys_inv_def logged_def cache_finish_def split: option.splits if_splits)

theorem cache_get_fresh_witness:
  "\<exists>t. (t, ''k'', 7) \<in> set (cs_log cache_demo) \<and> t \<le> cs_now cache_demo \<and> cs_now cache_demo \<le> t + 10"
  by (rule cache_get_fresh [OF cache_demo_reachable, of _ "Some \<lparr>ce_data = 7, ce_expires = 15\<rparr>"])
     (simp_all add: cache_demo_def cache_finish_def)

text \<open>
  When the cache is full, \<open>Set\<close> evicts exactly one entry, and one that expires first,
  whatever the order in which the runtime visits the map.
\<close>
lemma cache_evict_oldest:
  assumes "[] \<notin> set (cache_keys c)" and "tc_entries c \<noteq> []"
    and "tc_max c \<le> int (length (tc_entries c))" and "set order = set (cache_keys c)"
  shows "\<exists>k e. cache_read k c = Some e \<and>
    (\<forall>k' e'. cache_read k' c = Some e' \<longrightarrow> ce_expires e \<le> ce_expires e') \<and>
    (\<forall>k'. cache_read k' (cache_evict order c) = (if k' = k then None else cache_read k' c))"
proof -
  let ?m = "map_of (tc_entries c)"
  let ?k = "fst (oldest_scan ?m order ([], 0))"
  have dom: "set order = dom ?m" and ne: "[] \<notin> dom ?m"
    using assms(1,4) by (simp_all add: cache_keys_dom)
  have "set order \<inter> dom ?m \<noteq> {}"
    using assms(2) dom by (auto simp: dom_map_of_conv_image_fst)
  then obtain e where e: "?m ?k = Some e" using oldest_scan_in_dom [of order ?m 0] by auto
  have "ce_expires e \<le> ce_expires e'" if "?m k' = Some e'" for k' e'
    using oldest_scan_min [OF ne, of k' order 0] that dom e by force
  with e assms(3) show ?thesis
    by (intro exI [of _ ?k] exI [of _ e])
       (auto simp: cache_read_def cache_evict_def cache_delete_def AList.delete_conv')
qed

end
