(* ===== verification/Tables.thy ===== *)
theory Tables
  imports Prelude
begin

text \<open>
  The PostgreSQL tables of \<open>internal/database/migrations/*.up.sql\<close> with their keys, unique
  columns, foreign keys and cascades, and one function per SQL statement of the
  repositories and services. A table is the list of its rows in insertion order. A
  statement either fails with the error that the violated constraint raises and leaves the
  tables alone, or returns its result with the new tables. The first two arguments of a
  statement are what \<open>gen_random_uuid()\<close> and \<open>now()\<close> yield while it runs. Columns that no
  statement of the repository leaves NULL are plain values; \<open>description\<close>, which the seed
  script \<open>migrations/\<close> leaves NULL, is an option.
\<close>

section \<open>Rows\<close>

record user =
  u_id :: uuid
  u_email :: string
  u_hash :: string
  u_name :: string
  u_active :: bool
  u_created :: time
  u_updated :: time

record 'd role =
  r_id :: uuid
  r_name :: string
  r_category :: string
  r_desc :: 'd
  r_created :: time

record 'd permission =
  p_id :: uuid
  p_name :: string
  p_action :: string
  p_resource :: string
  p_desc :: 'd
  p_created :: time

record refresh_token =
  t_id :: uuid
  t_user :: uuid
  t_hash :: string
  t_device :: string
  t_ip :: string
  t_expires :: time
  t_created :: time

record session =
  s_id :: uuid
  s_user :: uuid
  s_hash :: string
  s_device :: string
  s_ip :: string
  s_agent :: string
  s_accessed :: time
  s_created :: time

record activity =
  a_id :: uuid
  a_user :: "uuid option"
  a_action :: string
  a_resource :: string
  a_ip :: string
  a_agent :: string
  a_device :: string
  a_created :: time

record incident =
  i_id :: uuid
  i_title :: string
  i_desc :: string
  i_status :: string
  i_severity :: string
  i_reporter :: uuid
  i_created :: time
  i_updated :: time

text \<open>
  \<open>incidents\<close> is an option: none of the migrations creates that table, and a statement on a
  table that does not exist fails.
\<close>

record db =
  users :: "user list"
  roles :: "string option role list"
  permissions :: "string option permission list"
  role_permissions :: "(uuid \<times> uuid) list"
  user_roles :: "(uuid \<times> uuid) list"
  refresh_tokens :: "refresh_token list"
  sessions :: "session list"
  activity_logs :: "activity list"
  incidents :: "incident list option"

definition empty_db :: db where
  "empty_db = \<lparr>users = [], roles = [], permissions = [], role_permissions = [], user_roles = [],
     refresh_tokens = [], sessions = [], activity_logs = [], incidents = None\<rparr>"

type_synonym 'a stmt = "uuid \<Rightarrow> time \<Rightarrow> db \<Rightarrow> db_error + 'a \<times> db"

text \<open>
  \<open>VARCHAR(n)\<close> counts characters: the bytes of a UTF-8 string that do not continue a
  character. Timestamps have a resolution of microseconds. Texts are those that PostgreSQL takes
  and keeps as they are: that it refuses NUL bytes and invalid UTF-8, and cuts off blanks at the
  end of a text that is too long, is left out.
\<close>

definition pg_length :: "string \<Rightarrow> nat" where
  "pg_length s = length (filter (\<lambda>c. \<not> (128 \<le> (of_char c :: nat) \<and> (of_char c :: nat) < 192)) s)"

definition fits :: "nat \<Rightarrow> string \<Rightarrow> bool" where
  "fits n s \<longleftrightarrow> pg_length s \<le> n"

definition pg_time :: "time \<Rightarrow> time" where
  "pg_time t = t - t mod 1000"

lemma pg_time_le: "pg_time t \<le> t"
  by (simp add: pg_time_def)

lemma pg_time_mono: "s \<le> t \<Longrightarrow> pg_time s \<le> pg_time t"
proof -
  assume "s \<le> t"
  then have "s div 1000 \<le> t div 1000" by (simp add: zdiv_mono1)
  then show ?thesis by (simp add: pg_time_def minus_mod_eq_mult_div)
qed

section \<open>Users\<close>

definition find_user_by_email :: "string \<Rightarrow> db \<Rightarrow> user option" where
  "find_user_by_email email d = find (\<lambda>u. u_email u = email) (users d)"

definition find_user_by_id :: "uuid \<Rightarrow> db \<Rightarrow> user option" where
  "find_user_by_id uid d = find (\<lambda>u. u_id u = uid) (users d)"

definition insert_user :: "string \<Rightarrow> string \<Rightarrow> string \<Rightarrow> user stmt" where
  "insert_user email hash name i now d =
     (if \<not> (fits 255 email \<and> fits 255 hash \<and> fits 255 name) then Inl (ValueTooLong ''users'')
      else if i \<in> u_id ` set (users d) then Inl (UniqueViolation ''users_pkey'')
      else if email \<in> u_email ` set (users d) then Inl (UniqueViolation ''users_email_key'')
      else let u = \<lparr>u_id = i, u_email = email, u_hash = hash, u_name = name, u_active = True,
                    u_created = now, u_updated = now\<rparr>
           in Inr (u, d\<lparr>users := users d @ [u]\<rparr>))"

definition update_user_login :: "time \<Rightarrow> uuid \<Rightarrow> unit stmt" where
  "update_user_login at uid i now d =
     Inr ((), d\<lparr>users := map (\<lambda>u. if u_id u = uid then u\<lparr>u_updated := pg_time at\<rparr> else u) (users d)\<rparr>)"

section \<open>Roles and permissions\<close>

definition find_role_by_id :: "uuid \<Rightarrow> db \<Rightarrow> string option role option" where
  "find_role_by_id rid d = find (\<lambda>r. r_id r = rid) (roles d)"

definition find_role_by_name :: "string \<Rightarrow> db \<Rightarrow> string option role option" where
  "find_role_by_name name d = find (\<lambda>r. r_name r = name) (roles d)"

definition insert_role :: "string \<Rightarrow> string \<Rightarrow> string \<Rightarrow> (uuid \<times> time) stmt" where
  "insert_role name category desc i now d =
     (if \<not> (fits 100 name \<and> fits 100 category) then Inl (ValueTooLong ''roles'')
      else if i \<in> r_id ` set (roles d) then Inl (UniqueViolation ''roles_pkey'')
      else if name \<in> r_name ` set (roles d) then Inl (UniqueViolation ''roles_name_key'')
      else Inr ((i, now), d\<lparr>roles := roles d @
             [\<lparr>r_id = i, r_name = name, r_category = category, r_desc = Some desc, r_created = now\<rparr>]\<rparr>))"

definition update_role :: "uuid \<Rightarrow> string \<Rightarrow> string \<Rightarrow> string \<Rightarrow> unit stmt" where
  "update_role rid name category desc i now d =
     (if rid \<notin> r_id ` set (roles d) then Inr ((), d)
      else if \<not> (fits 100 name \<and> fits 100 category) then Inl (ValueTooLong ''roles'')
      else if name \<in> r_name ` {r \<in> set (roles d). r_id r \<noteq> rid}
        then Inl (UniqueViolation ''roles_name_key'')
      else Inr ((), d\<lparr>roles := map (\<lambda>r. if r_id r = rid
             then r\<lparr>r_name := name, r_category := category, r_desc := Some desc\<rparr> else r) (roles d)\<rparr>))"

definition delete_role :: "uuid \<Rightarrow> unit stmt" where
  "delete_role rid i now d =
     Inr ((), d\<lparr>roles := filter (\<lambda>r. r_id r \<noteq> rid) (roles d),
                role_permissions := filter (\<lambda>rp. fst rp \<noteq> rid) (role_permissions d),
                user_roles := filter (\<lambda>ur. snd ur \<noteq> rid) (user_roles d)\<rparr>)"

definition find_permission_by_id :: "uuid \<Rightarrow> db \<Rightarrow> string option permission option" where
  "find_permission_by_id pid d = find (\<lambda>p. p_id p = pid) (permissions d)"

definition insert_permission :: "string \<Rightarrow> string \<Rightarrow> string \<Rightarrow> string \<Rightarrow> (uuid \<times> time) stmt" where
  "insert_permission name action resource desc i now d =
     (if \<not> (fits 100 name \<and> fits 100 action \<and> fits 100 resource)
        then Inl (ValueTooLong ''permissions'')
      else if i \<in> p_id ` set (permissions d) then Inl (UniqueViolation ''permissions_pkey'')
      else if name \<in> p_name ` set (permissions d) then Inl (UniqueViolation ''permissions_name_key'')
      else Inr ((i, now), d\<lparr>permissions := permissions d @
             [\<lparr>p_id = i, p_name = name, p_action = action, p_resource = resource,
               p_desc = Some desc, p_created = now\<rparr>]\<rparr>))"

definition update_permission ::
  "uuid \<Rightarrow> string \<Rightarrow> string \<Rightarrow> string \<Rightarrow> string \<Rightarrow> unit stmt" where
  "update_permission pid name action resource desc i now d =
     (if pid \<notin> p_id ` set (permissions d) then Inr ((), d)
      else if \<not> (fits 100 name \<and> fits 100 action \<and> fits 100 resource)
        then Inl (ValueTooLong ''permissions'')
      else if name \<in> p_name ` {p \<in> set (permissions d). p_id p \<noteq> pid}
        then Inl (UniqueViolation ''permissions_name_key'')
      else Inr ((), d\<lparr>permissions := map (\<lambda>p. if p_id p = pid
             then p\<lparr>p_name := name, p_action := action, p_resource := resource, p_desc := Some desc\<rparr>
             else p) (permissions d)\<rparr>))"

definition delete_permission :: "uuid \<Rightarrow> unit stmt" where
  "delete_permission pid i now d =
     Inr ((), d\<lparr>permissions := filter (\<lambda>p. p_id p \<noteq> pid) (permissions d),
                role_permissions := filter (\<lambda>rp. snd rp \<noteq> pid) (role_permissions d)\<rparr>)"

section \<open>The two relations\<close>

definition insert_user_role :: "bool \<Rightarrow> uuid \<Rightarrow> uuid \<Rightarrow> unit stmt" where
  "insert_user_role do_nothing uid rid i now d =
     (if (uid, rid) \<in> set (user_roles d)
        then (if do_nothing then Inr ((), d) else Inl (UniqueViolation ''user_roles_pkey''))
      else if uid \<notin> u_id ` set (users d) then Inl (ForeignKeyViolation ''user_roles_user_id_fkey'')
      else if rid \<notin> r_id ` set (roles d) then Inl (ForeignKeyViolation ''user_roles_role_id_fkey'')
      else Inr ((), d\<lparr>user_roles := user_roles d @ [(uid, rid)]\<rparr>))"

definition delete_user_role :: "uuid \<Rightarrow> uuid \<Rightarrow> unit stmt" where
  "delete_user_role uid rid i now d =
     Inr ((), d\<lparr>user_roles := filter (\<lambda>ur. ur \<noteq> (uid, rid)) (user_roles d)\<rparr>)"

definition delete_user_roles :: "uuid \<Rightarrow> unit stmt" where
  "delete_user_roles uid i now d =
     Inr ((), d\<lparr>user_roles := filter (\<lambda>ur. fst ur \<noteq> uid) (user_roles d)\<rparr>)"

definition insert_role_permission :: "uuid \<Rightarrow> uuid \<Rightarrow> unit stmt" where
  "insert_role_permission rid pid i now d =
     (if (rid, pid) \<in> set (role_permissions d) then Inr ((), d)
      else if rid \<notin> r_id ` set (roles d)
        then Inl (ForeignKeyViolation ''role_permissions_role_id_fkey'')
      else if pid \<notin> p_id ` set (permissions d)
        then Inl (ForeignKeyViolation ''role_permissions_permission_id_fkey'')
      else Inr ((), d\<lparr>role_permissions := role_permissions d @ [(rid, pid)]\<rparr>))"

definition delete_role_permissions :: "uuid \<Rightarrow> unit stmt" where
  "delete_role_permissions rid i now d =
     Inr ((), d\<lparr>role_permissions := filter (\<lambda>rp. fst rp \<noteq> rid) (role_permissions d)\<rparr>)"

definition roles_of_user :: "uuid \<Rightarrow> db \<Rightarrow> string option role list" where
  "roles_of_user uid d = filter (\<lambda>r. (uid, r_id r) \<in> set (user_roles d)) (roles d)"

definition permissions_of_role :: "uuid \<Rightarrow> db \<Rightarrow> string option permission list" where
  "permissions_of_role rid d = filter (\<lambda>p. (rid, p_id p) \<in> set (role_permissions d)) (permissions d)"

definition has_permission :: "uuid \<Rightarrow> string \<Rightarrow> string \<Rightarrow> db \<Rightarrow> bool" where
  "has_permission uid action resource d \<longleftrightarrow>
     (\<exists>ur \<in> set (user_roles d). \<exists>rp \<in> set (role_permissions d). \<exists>p \<in> set (permissions d).
        snd ur = fst rp \<and> p_id p = snd rp \<and> fst ur = uid \<and> p_action p = action \<and> p_resource p = resource)"

section \<open>Sessions and refresh tokens\<close>

text \<open>
  The cast \<open>$n::inet\<close> rejects a text that is no network address: which texts PostgreSQL
  accepts is the argument \<open>inet_ok\<close>.
\<close>

definition insert_refresh_token ::
  "(string \<Rightarrow> bool) \<Rightarrow> uuid \<Rightarrow> string \<Rightarrow> string \<Rightarrow> string \<Rightarrow> time \<Rightarrow> unit stmt" where
  "insert_refresh_token inet_ok uid hash device ip expires i now d =
     (if \<not> inet_ok ip then Inl InvalidInet
      else if \<not> (fits 255 hash \<and> fits 255 device) then Inl (ValueTooLong ''refresh_tokens'')
      else if i \<in> t_id ` set (refresh_tokens d) then Inl (UniqueViolation ''refresh_tokens_pkey'')
      else if hash \<in> t_hash ` set (refresh_tokens d)
        then Inl (UniqueViolation ''refresh_tokens_token_hash_key'')
      else if uid \<notin> u_id ` set (users d) then Inl (ForeignKeyViolation ''refresh_tokens_user_id_fkey'')
      else Inr ((), d\<lparr>refresh_tokens := refresh_tokens d @
             [\<lparr>t_id = i, t_user = uid, t_hash = hash, t_device = device, t_ip = ip,
               t_expires = pg_time expires, t_created = now\<rparr>]\<rparr>))"

definition find_refresh_token :: "string \<Rightarrow> db \<Rightarrow> refresh_token option" where
  "find_refresh_token hash d = find (\<lambda>t. t_hash t = hash) (refresh_tokens d)"

definition delete_refresh_token_by_id :: "uuid \<Rightarrow> unit stmt" where
  "delete_refresh_token_by_id tid i now d =
     Inr ((), d\<lparr>refresh_tokens := filter (\<lambda>t. t_id t \<noteq> tid) (refresh_tokens d)\<rparr>)"

definition delete_refresh_token_by_hash :: "string \<Rightarrow> unit stmt" where
  "delete_refresh_token_by_hash hash i now d =
     Inr ((), d\<lparr>refresh_tokens := filter (\<lambda>t. t_hash t \<noteq> hash) (refresh_tokens d)\<rparr>)"

definition insert_session ::
  "(string \<Rightarrow> bool) \<Rightarrow> uuid \<Rightarrow> string \<Rightarrow> string \<Rightarrow> string \<Rightarrow> string \<Rightarrow> (uuid \<times> time) stmt" where
  "insert_session inet_ok uid hash device ip agent i now d =
     (if \<not> inet_ok ip then Inl InvalidInet
      else if \<not> (fits 255 hash \<and> fits 255 device) then Inl (ValueTooLong ''sessions'')
      else if i \<in> s_id ` set (sessions d) then Inl (UniqueViolation ''sessions_pkey'')
      else if hash \<in> s_hash ` set (sessions d)
        then Inl (UniqueViolation ''sessions_refresh_token_hash_key'')
      else if uid \<notin> u_id ` set (users d) then Inl (ForeignKeyViolation ''sessions_user_id_fkey'')
      else Inr ((i, now), d\<lparr>sessions := sessions d @
             [\<lparr>s_id = i, s_user = uid, s_hash = hash, s_device = device, s_ip = ip,
               s_agent = agent, s_accessed = now, s_created = now\<rparr>]\<rparr>))"

definition delete_session_by_id :: "uuid \<Rightarrow> unit stmt" where
  "delete_session_by_id sid i now d =
     Inr ((), d\<lparr>sessions := filter (\<lambda>s. s_id s \<noteq> sid) (sessions d)\<rparr>)"

definition delete_session_by_hash :: "string \<Rightarrow> unit stmt" where
  "delete_session_by_hash hash i now d =
     Inr ((), d\<lparr>sessions := filter (\<lambda>s. s_hash s \<noteq> hash) (sessions d)\<rparr>)"

definition sessions_of :: "uuid \<Rightarrow> db \<Rightarrow> session list" where
  "sessions_of uid d = filter (\<lambda>s. s_user s = uid) (sessions d)"

definition oldest_session :: "uuid \<Rightarrow> db \<Rightarrow> session option" where
  "oldest_session uid d =
     (case sort_key s_accessed (sessions_of uid d) of [] \<Rightarrow> None | s # _ \<Rightarrow> Some s)"

definition touch_session :: "time \<Rightarrow> uuid \<Rightarrow> unit stmt" where
  "touch_session at sid i now d =
     Inr ((), d\<lparr>sessions := map (\<lambda>s. if s_id s = sid then s\<lparr>s_accessed := pg_time at\<rparr> else s) (sessions d)\<rparr>)"

text \<open>
  \<open>ORDER BY last_accessed_at DESC LIMIT n\<close>: among equal instants PostgreSQL may choose any
  order, the model takes the most recently inserted row first.
\<close>

definition newest_sessions :: "uuid \<Rightarrow> int \<Rightarrow> db \<Rightarrow> session list" where
  "newest_sessions uid n d = take (nat n) (rev (sort_key s_accessed (sessions_of uid d)))"

definition delete_sessions_beyond :: "uuid \<Rightarrow> int \<Rightarrow> unit stmt" where
  "delete_sessions_beyond uid n i now d =
     Inr ((), d\<lparr>sessions := filter
       (\<lambda>s. \<not> (s_user s = uid \<and> s_id s \<notin> s_id ` set (newest_sessions uid n d))) (sessions d)\<rparr>)"

definition delete_orphan_tokens :: "uuid \<Rightarrow> unit stmt" where
  "delete_orphan_tokens uid i now d =
     Inr ((), d\<lparr>refresh_tokens := filter
       (\<lambda>t. \<not> (t_user t = uid \<and> t_hash t \<notin> s_hash ` set (sessions_of uid d) \<and> now < t_expires t))
       (refresh_tokens d)\<rparr>)"

section \<open>Audit log and incidents\<close>

definition insert_activity ::
  "(string \<Rightarrow> bool) \<Rightarrow> uuid option \<Rightarrow> string \<Rightarrow> string \<Rightarrow> string \<Rightarrow> string \<Rightarrow> string \<Rightarrow> unit stmt" where
  "insert_activity inet_ok uid action resource ip agent device i now d =
     (if \<not> inet_ok ip then Inl InvalidInet
      else if \<not> (fits 100 action \<and> fits 100 resource \<and> fits 255 device)
        then Inl (ValueTooLong ''activity_logs'')
      else if i \<in> a_id ` set (activity_logs d) then Inl (UniqueViolation ''activity_logs_pkey'')
      else if (case uid of None \<Rightarrow> False | Some u \<Rightarrow> u \<notin> u_id ` set (users d))
        then Inl (ForeignKeyViolation ''activity_logs_user_id_fkey'')
      else Inr ((), d\<lparr>activity_logs := activity_logs d @
             [\<lparr>a_id = i, a_user = uid, a_action = action, a_resource = resource, a_ip = ip,
               a_agent = agent, a_device = device, a_created = now\<rparr>]\<rparr>))"

text \<open>
  The columns' defaults of a table that no migration creates are not in the repository:
  the status that \<open>INSERT\<close> gives a new incident is an argument.
\<close>

definition insert_incident ::
  "string \<Rightarrow> string \<Rightarrow> string \<Rightarrow> string \<Rightarrow> uuid \<Rightarrow> (uuid \<times> time \<times> time) stmt" where
  "insert_incident default_status title desc severity reporter i now d =
     (case incidents d of
        None \<Rightarrow> Inl (UndefinedTable ''incidents'')
      | Some rows \<Rightarrow> Inr ((i, now, now), d\<lparr>incidents := Some (rows @
          [\<lparr>i_id = i, i_title = title, i_desc = desc, i_status = default_status,
            i_severity = severity, i_reporter = reporter, i_created = now, i_updated = now\<rparr>])\<rparr>))"

section \<open>Paging\<close>

text \<open>\<open>LIMIT n OFFSET m\<close> of an ordered query.\<close>

definition page :: "int \<Rightarrow> int \<Rightarrow> 'a list \<Rightarrow> 'a list" where
  "page n m xs = take (nat n) (drop (nat m) xs)"

end
