(* ===== verification/Integrity.thy ===== *)
theory Integrity
  imports Tables
begin

text \<open>
  Referential integrity of the tables: primary keys and unique columns hold no duplicates,
  every foreign key refers to a row. Each statement of \<open>Tables\<close> preserves it, because it
  checks the constraints of the schema before it writes.
\<close>

section \<open>The constraints of the schema\<close>

definition users_ok :: "db \<Rightarrow> bool" where
  "users_ok d \<longleftrightarrow> distinct (map u_id (users d)) \<and> distinct (map u_email (users d))"

definition roles_ok :: "db \<Rightarrow> bool" where
  "roles_ok d \<longleftrightarrow> distinct (map r_id (roles d)) \<and> distinct (map r_name (roles d))"

definition permissions_ok :: "db \<Rightarrow> bool" where
  "permissions_ok d \<longleftrightarrow> distinct (map p_id (permissions d)) \<and> distinct (map p_name (permissions d))"

definition user_roles_ok :: "db \<Rightarrow> bool" where
  "user_roles_ok d \<longleftrightarrow> distinct (user_roles d) \<and>
     fst ` set (user_roles d) \<subseteq> u_id ` set (users d) \<and> snd ` set (user_roles d) \<subseteq> r_id ` set (roles d)"

definition role_permissions_ok :: "db \<Rightarrow> bool" where
  "role_permissions_ok d \<longleftrightarrow> distinct (role_permissions d) \<and>
     fst ` set (role_permissions d) \<subseteq> r_id ` set (roles d) \<and>
     snd ` set (role_permissions d) \<subseteq> p_id ` set (permissions d)"

definition tokens_ok :: "db \<Rightarrow> bool" where
  "tokens_ok d \<longleftrightarrow> distinct (map t_id (refresh_tokens d)) \<and> distinct (map t_hash (refresh_tokens d)) \<and>
     t_user ` set (refresh_tokens d) \<subseteq> u_id ` set (users d)"

definition sessions_ok :: "db \<Rightarrow> bool" where
  "sessions_ok d \<longleftrightarrow> distinct (map s_id (sessions d)) \<and> distinct (map s_hash (sessions d)) \<and>
     s_user ` set (sessions d) \<subseteq> u_id ` set (users d)"

definition activity_ok :: "db \<Rightarrow> bool" where
  "activity_ok d \<longleftrightarrow> distinct (map a_id (activity_logs d)) \<and>
     {u. Some u \<in> a_user ` set (activity_logs d)} \<subseteq> u_id ` set (users d)"

definition db_ok :: "db \<Rightarrow> bool" where
  "db_ok d \<longleftrightarrow> users_ok d \<and> roles_ok d \<and> permissions_ok d \<and> user_roles_ok d \<and>
     role_permissions_ok d \<and> tokens_ok d \<and> sessions_ok d \<and> activity_ok d"

lemmas ok_defs = users_ok_def roles_ok_def permissions_ok_def user_roles_ok_def
  role_permissions_ok_def tokens_ok_def sessions_ok_def activity_ok_def

lemma empty_db_ok: "db_ok empty_db"
  by (simp add: db_ok_def ok_defs empty_db_def)

definition stmt_keeps :: "(db \<Rightarrow> bool) \<Rightarrow> 'a stmt \<Rightarrow> bool" where
  "stmt_keeps I st \<longleftrightarrow> (\<forall>i now d a d'. I d \<longrightarrow> st i now d = Inr (a, d') \<longrightarrow> I d')"

lemma stmt_keepsI: "(\<And>i now d a d'. I d \<Longrightarrow> st i now d = Inr (a, d') \<Longrightarrow> I d') \<Longrightarrow> stmt_keeps I st"
  by (simp add: stmt_keeps_def)

lemma stmt_keepsD: "stmt_keeps I st \<Longrightarrow> I d \<Longrightarrow> st i now d = Inr (a, d') \<Longrightarrow> I d'"
  by (auto simp: stmt_keeps_def)

named_theorems db_keeps

section \<open>What integrity gives\<close>

lemma db_okD:
  assumes "db_ok d"
  shows "distinct (map u_id (users d))" "distinct (map u_email (users d))"
    "distinct (map r_id (roles d))" "distinct (map r_name (roles d))"
    "distinct (map p_id (permissions d))" "distinct (map p_name (permissions d))"
    "distinct (user_roles d)" "distinct (role_permissions d)"
    "distinct (map t_id (refresh_tokens d))" "distinct (map t_hash (refresh_tokens d))"
    "distinct (map s_id (sessions d))" "distinct (map s_hash (sessions d))"
    "distinct (map a_id (activity_logs d))"
  using assms by (simp_all add: db_ok_def ok_defs)

lemma db_ok_refs:
  assumes "db_ok d"
  shows "fst ` set (user_roles d) \<subseteq> u_id ` set (users d)"
    "snd ` set (user_roles d) \<subseteq> r_id ` set (roles d)"
    "fst ` set (role_permissions d) \<subseteq> r_id ` set (roles d)"
    "snd ` set (role_permissions d) \<subseteq> p_id ` set (permissions d)"
    "t_user ` set (refresh_tokens d) \<subseteq> u_id ` set (users d)"
    "s_user ` set (sessions d) \<subseteq> u_id ` set (users d)"
    "{u. Some u \<in> a_user ` set (activity_logs d)} \<subseteq> u_id ` set (users d)"
  using assms by (simp_all add: db_ok_def ok_defs)

lemma user_role_user: "db_ok d \<Longrightarrow> (x, y) \<in> set (user_roles d) \<Longrightarrow> x \<in> u_id ` set (users d)"
  by (drule db_ok_refs(1)) force

lemma user_role_role: "db_ok d \<Longrightarrow> (x, y) \<in> set (user_roles d) \<Longrightarrow> y \<in> r_id ` set (roles d)"
  by (drule db_ok_refs(2)) force

lemma role_permission_role: "db_ok d \<Longrightarrow> (x, y) \<in> set (role_permissions d) \<Longrightarrow> x \<in> r_id ` set (roles d)"
  by (drule db_ok_refs(3)) force

lemma role_permission_permission: "db_ok d \<Longrightarrow> (x, y) \<in> set (role_permissions d) \<Longrightarrow> y \<in> p_id ` set (permissions d)"
  by (drule db_ok_refs(4)) force

lemma token_user: "db_ok d \<Longrightarrow> t \<in> set (refresh_tokens d) \<Longrightarrow> t_user t \<in> u_id ` set (users d)"
  by (drule db_ok_refs(5)) force

lemma session_user: "db_ok d \<Longrightarrow> s \<in> set (sessions d) \<Longrightarrow> s_user s \<in> u_id ` set (users d)"
  by (drule db_ok_refs(6)) force

lemma activity_user:
  "db_ok d \<Longrightarrow> l \<in> set (activity_logs d) \<Longrightarrow> Some u = a_user l \<Longrightarrow> u \<in> u_id ` set (users d)"
  by (drule db_ok_refs(7)) force

lemmas db_ok_member = user_role_user user_role_role role_permission_role
  role_permission_permission token_user session_user activity_user

section \<open>Replacing one table\<close>

text \<open>
  The conditions under which one table may be replaced: its own keys stay distinct, its
  references stay valid, and no row that others refer to disappears.
\<close>

lemma db_ok_users:
  assumes d: "db_ok d" and "distinct (map u_id us)" and "distinct (map u_email us)"
    and sub: "u_id ` set (users d) \<subseteq> u_id ` set us"
  shows "db_ok (d\<lparr>users := us\<rparr>)"
proof -
  note refs = db_ok_refs(1,5,6,7) [OF d, THEN subset_trans, OF sub]
  with assms show ?thesis by (simp add: db_ok_def ok_defs)
qed

lemma db_ok_roles:
  assumes d: "db_ok d" and "distinct (map r_id rs)" and "distinct (map r_name rs)"
    and sub: "r_id ` set (roles d) \<subseteq> r_id ` set rs"
  shows "db_ok (d\<lparr>roles := rs\<rparr>)"
proof -
  note refs = db_ok_refs(2,3) [OF d, THEN subset_trans, OF sub]
  with assms show ?thesis by (simp add: db_ok_def ok_defs)
qed

lemma db_ok_permissions:
  assumes d: "db_ok d" and "distinct (map p_id ps)" and "distinct (map p_name ps)"
    and sub: "p_id ` set (permissions d) \<subseteq> p_id ` set ps"
  shows "db_ok (d\<lparr>permissions := ps\<rparr>)"
proof -
  note refs = db_ok_refs(4) [OF d, THEN subset_trans, OF sub]
  with assms show ?thesis by (simp add: db_ok_def ok_defs)
qed

lemma db_ok_user_roles:
  "db_ok d \<Longrightarrow> distinct urs \<Longrightarrow> fst ` set urs \<subseteq> u_id ` set (users d) \<Longrightarrow>
     snd ` set urs \<subseteq> r_id ` set (roles d) \<Longrightarrow> db_ok (d\<lparr>user_roles := urs\<rparr>)"
  by (simp add: db_ok_def ok_defs)

lemma db_ok_role_permissions:
  "db_ok d \<Longrightarrow> distinct rps \<Longrightarrow> fst ` set rps \<subseteq> r_id ` set (roles d) \<Longrightarrow>
     snd ` set rps \<subseteq> p_id ` set (permissions d) \<Longrightarrow> db_ok (d\<lparr>role_permissions := rps\<rparr>)"
  by (simp add: db_ok_def ok_defs)

lemma db_ok_tokens:
  "db_ok d \<Longrightarrow> distinct (map t_id ts) \<Longrightarrow> distinct (map t_hash ts) \<Longrightarrow>
     t_user ` set ts \<subseteq> u_id ` set (users d) \<Longrightarrow> db_ok (d\<lparr>refresh_tokens := ts\<rparr>)"
  by (simp add: db_ok_def ok_defs)

lemma db_ok_sessions:
  "db_ok d \<Longrightarrow> distinct (map s_id ss) \<Longrightarrow> distinct (map s_hash ss) \<Longrightarrow>
     s_user ` set ss \<subseteq> u_id ` set (users d) \<Longrightarrow> db_ok (d\<lparr>sessions := ss\<rparr>)"
  by (simp add: db_ok_def ok_defs)

lemma db_ok_activity:
  "db_ok d \<Longrightarrow> distinct (map a_id as) \<Longrightarrow>
     {u. Some u \<in> a_user ` set as} \<subseteq> u_id ` set (users d) \<Longrightarrow> db_ok (d\<lparr>activity_logs := as\<rparr>)"
  by (simp add: db_ok_def ok_defs)

lemma db_ok_incidents [simp]: "db_ok (d\<lparr>incidents := x\<rparr>) = db_ok d"
  by (simp add: db_ok_def ok_defs)

section \<open>Rows that are added, removed, replaced\<close>

lemma distinct_filter_map: "distinct (map f xs) \<Longrightarrow> distinct (map f (filter P xs))"
  by (simp add: distinct_map_filter)

lemma image_filter_subset: "f ` set xs \<subseteq> A \<Longrightarrow> f ` set (filter P xs) \<subseteq> A"
  by auto

lemma map_key_update:
  "(\<And>x. f (g x) = f x) \<Longrightarrow> map f (map (\<lambda>x. if P x then g x else x) xs) = map f xs"
  by (induction xs) auto

lemma keys_of_update:
  assumes "\<And>x. f (g x) = f x"
  shows "f ` set (map (\<lambda>x. if P x then g x else x) xs) = f ` set xs"
  using map_key_update [of f g P xs, OF assms] by (metis set_map)

text \<open>Renaming one row to a name no other row has keeps the names distinct.\<close>

lemma distinct_rename:
  assumes "distinct (map k xs)" and "distinct (map f xs)" and "v \<notin> f ` {x \<in> set xs. k x \<noteq> a}"
    and "\<And>x. f (g x) = v"
  shows "distinct (map f (map (\<lambda>x. if k x = a then g x else x) xs))"
  using assms(1-3)
proof (induction xs)
  case (Cons y ys)
  have ih: "distinct (map f (map (\<lambda>x. if k x = a then g x else x) ys))"
    using Cons.prems by (intro Cons.IH) auto
  show ?case
  proof (cases "k y = a")
    case True
    then have ne: "k x \<noteq> a" if "x \<in> set ys" for x
      using that Cons.prems(1) by (metis distinct.simps(2) image_eqI list.map(2) set_map)
    then have "v \<notin> f ` set ys" using Cons.prems(3) by auto
    moreover have "map (\<lambda>x. if k x = a then g x else x) ys = ys"
      using ne by (intro map_idI) auto
    ultimately show ?thesis using Cons.prems(2) True assms(4) by auto
  next
    case False
    then have "f y \<noteq> v" using Cons.prems(3) by auto
    moreover have "f y \<notin> f ` set ys" using Cons.prems(2) by auto
    ultimately have "f y \<notin> f ` set (map (\<lambda>x. if k x = a then g x else x) ys)"
      using assms(4) by auto
    then have "f y \<notin> set (map f (map (\<lambda>x. if k x = a then g x else x) ys))" by (metis set_map)
    then show ?thesis using ih False by (simp del: map_map set_map)
  qed
qed simp

section \<open>Every statement preserves integrity\<close>

lemma insert_user_ok [db_keeps]: "stmt_keeps db_ok (insert_user e h n)"
  by (rule stmt_keepsI)
     (auto simp: insert_user_def Let_def db_okD intro!: db_ok_users split: if_splits)

lemma update_user_login_ok [db_keeps]: "stmt_keeps db_ok (update_user_login at uid)"
  by (rule stmt_keepsI)
     (auto simp: update_user_login_def map_key_update keys_of_update db_okD
       simp del: map_map set_map intro!: db_ok_users)

lemma insert_role_ok [db_keeps]: "stmt_keeps db_ok (insert_role n c s)"
  by (rule stmt_keepsI) (auto simp: insert_role_def db_okD intro!: db_ok_roles split: if_splits)

lemma update_role_ok [db_keeps]: "stmt_keeps db_ok (update_role k n c e)"
proof (rule stmt_keepsI)
  fix i now d a d'
  assume d: "db_ok d" and st: "update_role k n c e i now d = Inr (a, d')"
  define xs where "xs = map (\<lambda>x. if r_id x = k then x\<lparr>r_name := n, r_category := c, r_desc := Some e\<rparr> else x) (roles d)"
  have keys: "map r_id xs = map r_id (roles d)" unfolding xs_def by (rule map_key_update) simp
  then have dom: "r_id ` set xs = r_id ` set (roles d)" by (metis set_map)
  show "db_ok d'"
  proof (cases "d' = d")
    case False
    then have d': "d' = d\<lparr>roles := xs\<rparr>" and fresh: "n \<notin> r_name ` {x \<in> set (roles d). r_id x \<noteq> k}"
      using st unfolding update_role_def xs_def [symmetric] by (simp_all split: if_split_asm)
    have "distinct (map r_name xs)"
      unfolding xs_def by (rule distinct_rename [where v = n]) (use db_okD [OF d] fresh in simp_all)
    then show ?thesis
      unfolding d' by (intro db_ok_roles) (simp_all add: d keys dom db_okD)
  qed (use d in simp)
qed

lemma delete_role_ok [db_keeps]: "stmt_keeps db_ok (delete_role rid)"
proof (rule stmt_keepsI)
  fix i now d a d'
  assume d: "db_ok d" and st: "delete_role rid i now d = Inr (a, d')"
  have "fst ` set (filter (\<lambda>rp. fst rp \<noteq> rid) (role_permissions d))
      \<subseteq> r_id ` set (filter (\<lambda>r. r_id r \<noteq> rid) (roles d))"
    using role_permission_role [OF d] by fastforce
  moreover have "snd ` set (filter (\<lambda>ur. snd ur \<noteq> rid) (user_roles d))
      \<subseteq> r_id ` set (filter (\<lambda>r. r_id r \<noteq> rid) (roles d))"
    using user_role_role [OF d] by fastforce
  moreover have "d' = d\<lparr>roles := filter (\<lambda>r. r_id r \<noteq> rid) (roles d),
      role_permissions := filter (\<lambda>rp. fst rp \<noteq> rid) (role_permissions d),
      user_roles := filter (\<lambda>ur. snd ur \<noteq> rid) (user_roles d)\<rparr>"
    using st by (simp add: delete_role_def)
  moreover note image_filter_subset [OF db_ok_refs(1) [OF d]] image_filter_subset [OF db_ok_refs(4) [OF d]]
  ultimately show "db_ok d'"
    using d by (simp add: db_ok_def ok_defs distinct_filter_map del: set_filter)
qed

lemma insert_permission_ok [db_keeps]: "stmt_keeps db_ok (insert_permission n a r s)"
  by (rule stmt_keepsI)
     (auto simp: insert_permission_def db_okD intro!: db_ok_permissions split: if_splits)

lemma update_permission_ok [db_keeps]: "stmt_keeps db_ok (update_permission k n ac re e)"
proof (rule stmt_keepsI)
  fix i now d a d'
  assume d: "db_ok d" and st: "update_permission k n ac re e i now d = Inr (a, d')"
  define xs where "xs = map (\<lambda>x. if p_id x = k then x\<lparr>p_name := n, p_action := ac, p_resource := re, p_desc := Some e\<rparr> else x) (permissions d)"
  have keys: "map p_id xs = map p_id (permissions d)" unfolding xs_def by (rule map_key_update) simp
  then have dom: "p_id ` set xs = p_id ` set (permissions d)" by (metis set_map)
  show "db_ok d'"
  proof (cases "d' = d")
    case False
    then have d': "d' = d\<lparr>permissions := xs\<rparr>" and fresh: "n \<notin> p_name ` {x \<in> set (permissions d). p_id x \<noteq> k}"
      using st unfolding update_permission_def xs_def [symmetric] by (simp_all split: if_split_asm)
    have "distinct (map p_name xs)"
      unfolding xs_def by (rule distinct_rename [where v = n]) (use db_okD [OF d] fresh in simp_all)
    then show ?thesis
      unfolding d' by (intro db_ok_permissions) (simp_all add: d keys dom db_okD)
  qed (use d in simp)
qed

lemma delete_permission_ok [db_keeps]: "stmt_keeps db_ok (delete_permission pid)"
proof (rule stmt_keepsI)
  fix i now d a d'
  assume d: "db_ok d" and st: "delete_permission pid i now d = Inr (a, d')"
  have "snd ` set (filter (\<lambda>rp. snd rp \<noteq> pid) (role_permissions d))
      \<subseteq> p_id ` set (filter (\<lambda>p. p_id p \<noteq> pid) (permissions d))"
    using role_permission_permission [OF d] by fastforce
  moreover have "d' = d\<lparr>permissions := filter (\<lambda>p. p_id p \<noteq> pid) (permissions d),
      role_permissions := filter (\<lambda>rp. snd rp \<noteq> pid) (role_permissions d)\<rparr>"
    using st by (simp add: delete_permission_def)
  moreover note image_filter_subset [OF db_ok_refs(3) [OF d]]
  ultimately show "db_ok d'"
    using d by (simp add: db_ok_def ok_defs distinct_filter_map del: set_filter)
qed

lemma user_role_statements_ok [db_keeps]:
  "stmt_keeps db_ok (insert_user_role b uid rid)"
  "stmt_keeps db_ok (delete_user_role uid rid)"
  "stmt_keeps db_ok (delete_user_roles uid)"
  by (rule stmt_keepsI, auto simp: insert_user_role_def delete_user_role_def delete_user_roles_def
      db_okD intro!: db_ok_user_roles intro: db_ok_member split: if_splits)+

lemma role_permission_statements_ok [db_keeps]:
  "stmt_keeps db_ok (insert_role_permission rid pid)"
  "stmt_keeps db_ok (delete_role_permissions rid)"
  by (rule stmt_keepsI, auto simp: insert_role_permission_def delete_role_permissions_def
      db_okD intro!: db_ok_role_permissions intro: db_ok_member split: if_splits)+

lemma insert_refresh_token_ok [db_keeps]:
  "stmt_keeps db_ok (insert_refresh_token iok uid h dv ip e)"
  by (rule stmt_keepsI) (auto simp: insert_refresh_token_def db_okD intro!: db_ok_tokens
      intro: db_ok_member split: if_splits)

lemma delete_token_statements_ok [db_keeps]:
  "stmt_keeps db_ok (delete_refresh_token_by_id tid)"
  "stmt_keeps db_ok (delete_refresh_token_by_hash h)"
  "stmt_keeps db_ok (delete_orphan_tokens uid)"
  by (rule stmt_keepsI, auto simp: delete_refresh_token_by_id_def delete_refresh_token_by_hash_def
      delete_orphan_tokens_def db_okD intro!: db_ok_tokens distinct_filter_map intro: db_ok_member)+

lemma insert_session_ok [db_keeps]: "stmt_keeps db_ok (insert_session iok uid h dv ip ag)"
  by (rule stmt_keepsI) (auto simp: insert_session_def db_okD intro!: db_ok_sessions
      intro: db_ok_member split: if_splits)

lemma delete_session_statements_ok [db_keeps]:
  "stmt_keeps db_ok (delete_session_by_id sid)"
  "stmt_keeps db_ok (delete_session_by_hash h)"
  "stmt_keeps db_ok (delete_sessions_beyond uid n)"
  by (rule stmt_keepsI, auto simp: delete_session_by_id_def delete_session_by_hash_def
      delete_sessions_beyond_def db_okD
      intro!: db_ok_sessions distinct_filter_map intro: db_ok_member)+

lemma touch_session_ok [db_keeps]: "stmt_keeps db_ok (touch_session at k)"
proof (rule stmt_keepsI)
  fix i now d a d'
  assume d: "db_ok d" and st: "touch_session at k i now d = Inr (a, d')"
  define xs where "xs = map (\<lambda>s. if s_id s = k then s\<lparr>s_accessed := pg_time at\<rparr> else s) (sessions d)"
  have keys: "map s_id xs = map s_id (sessions d)" "map s_hash xs = map s_hash (sessions d)"
    unfolding xs_def by (rule map_key_update; simp)+
  have "map s_user xs = map s_user (sessions d)" unfolding xs_def by (rule map_key_update) simp
  then have refs: "s_user ` set xs = s_user ` set (sessions d)" by (metis set_map)
  have "d' = d\<lparr>sessions := xs\<rparr>" using st by (simp add: touch_session_def xs_def)
  then show "db_ok d'"
    by (simp only:, intro db_ok_sessions) (simp_all add: d keys refs db_okD db_ok_refs)
qed

lemma insert_activity_ok [db_keeps]: "stmt_keeps db_ok (insert_activity iok uid ac re ip ag dv)"
  by (rule stmt_keepsI)
     (auto simp: insert_activity_def db_okD intro!: db_ok_activity intro: db_ok_member
       split: if_splits option.splits)

lemma insert_incident_ok [db_keeps]: "stmt_keeps db_ok (insert_incident st ti de se rp)"
  by (rule stmt_keepsI) (auto simp: insert_incident_def split: option.splits)

end
