(* ===== verification/World.thy ===== *)
theory World
  imports Redis TokenCache Integrity
begin

text \<open>
  The world in which the handlers run: the database, Redis, the clock, the process-wide
  variables of the Go packages, and a schedule that says how each call to an outside
  service ends and how long it takes. What is not in the repository (the cryptographic
  libraries, the JWT library, the driver's view of \<open>inet\<close>, random identifiers) is a record
  of functions, \<open>ext\<close>, that the model's definitions take as an argument.
\<close>

section \<open>Claims and signed payloads\<close>

text \<open>
  \<open>AccessClaims\<close> and \<open>RefreshClaims\<close> of \<open>internal/shared/utils/jwt.go\<close>, and the JSON
  payload that is signed for either. Both carry the key \<open>uid\<close>; only the access claims
  carry \<open>email\<close> and \<open>iat\<close>.
\<close>

record access_claims =
  ac_uid :: uuid
  ac_email :: string
  ac_exp :: time
  ac_iat :: "time option"
  ac_nbf :: time
  ac_jti :: string

record refresh_claims =
  rc_uid :: uuid
  rc_jti :: string
  rc_exp :: time
  rc_nbf :: time

record payload =
  p_uid :: uuid
  p_email :: "string option"
  p_exp :: time
  p_iat :: "time option"
  p_nbf :: time
  p_jti :: string

section \<open>Outside code\<close>

record 'r ext =
  redis_ops :: "'r redis_ops"
  sha256_sum :: "string \<Rightarrow> byte list"
  bcrypt_generate :: "string \<Rightarrow> nat \<Rightarrow> nat \<Rightarrow> go_error + string"
  bcrypt_compare :: "string \<Rightarrow> string \<Rightarrow> bool"
  jwt_sign :: "string option \<Rightarrow> payload \<Rightarrow> go_error + string"
  jwt_parse :: "(string \<Rightarrow> go_error + string option) \<Rightarrow> duration \<Rightarrow> time \<Rightarrow> string \<Rightarrow> go_error + payload"
  rand_uuid :: "nat \<Rightarrow> uuid"
  uuid_string :: "uuid \<Rightarrow> string"
  uuid_parse :: "string \<Rightarrow> uuid option"
  inet_ok :: "string \<Rightarrow> bool"
  go_range :: "string list \<Rightarrow> string list"

text \<open>
  \<open>hex.EncodeToString\<close> of a digest; \<open>hashToken\<close> and the two functions \<open>hashKey\<close> of the
  service and the middleware are the same function.
\<close>

definition hex_digit :: "nat \<Rightarrow> char" where
  "hex_digit n = (if n < 10 then char_of (48 + n) else char_of (87 + n))"

fun hex_encode :: "byte list \<Rightarrow> string" where
  "hex_encode [] = []"
| "hex_encode (b # bs) = hex_digit (unat b div 16) # hex_digit (unat b mod 16) # hex_encode bs"

definition hash_token :: "'r ext \<Rightarrow> string \<Rightarrow> string" where
  "hash_token X token = hex_encode (sha256_sum X token)"

section \<open>The state\<close>

text \<open>
  A call to a service ends normally, is lost before it had an effect, or is cut off: then
  its effect took place but the caller sees an error; a query with several rows delivers
  only a prefix of them, which the caller cannot tell from the whole result because it
  does not ask \<open>rows.Err()\<close>.
\<close>

datatype outcome = Done | Lost | Cut nat

record 'r world =
  db :: db
  redis :: 'r
  clock :: time
  draws :: nat
  sched :: "(outcome \<times> nat) list"
  tok_cache :: "access_claims token_cache"
  private_key :: "string option"
  public_key :: "string option"

definition next_call :: "'r world \<Rightarrow> outcome \<times> 'r world" where
  "next_call w = (case sched w of
     [] \<Rightarrow> (Done, w)
   | (oc, dt) # rest \<Rightarrow> (oc, w\<lparr>sched := rest, clock := clock w + int dt\<rparr>))"

definition fresh :: "('r world, nat) state" where
  "fresh = State (\<lambda>w. (draws w, w\<lparr>draws := Suc (draws w)\<rparr>))"

lemma run_fresh [simp]: "run_state fresh w = (draws w, w\<lparr>draws := Suc (draws w)\<rparr>)"
  by (simp add: fresh_def)

subsection \<open>Statements\<close>

definition sql_exec :: "'r ext \<Rightarrow> 'a stmt \<Rightarrow> ('r world, db_error + 'a) state" where
  "sql_exec X st = State (\<lambda>w.
     let (oc, w1) = next_call w; w2 = w1\<lparr>draws := Suc (draws w1)\<rparr> in
     case oc of
       Lost \<Rightarrow> (Inl ConnLost, w2)
     | _ \<Rightarrow> (case st (rand_uuid X (draws w1)) (pg_time (clock w1)) (db w1) of
              Inl e \<Rightarrow> (Inl e, w2)
            | Inr (a, d) \<Rightarrow> (if oc = Done then Inr a else Inl ConnLost, w2\<lparr>db := d\<rparr>)))"

definition sql_row :: "(db \<Rightarrow> 'a option) \<Rightarrow> ('r world, db_error + 'a) state" where
  "sql_row q = State (\<lambda>w.
     let (oc, w1) = next_call w in
     (if oc \<noteq> Done then Inl ConnLost
      else case q (db w1) of None \<Rightarrow> Inl NoRows | Some a \<Rightarrow> Inr a, w1))"

definition sql_rows :: "(db \<Rightarrow> 'a list) \<Rightarrow> ('r world, db_error + 'a list) state" where
  "sql_rows q = State (\<lambda>w.
     let (oc, w1) = next_call w in
     (case oc of Done \<Rightarrow> Inr (q (db w1)) | Lost \<Rightarrow> Inl ConnLost | Cut n \<Rightarrow> Inr (take n (q (db w1))), w1))"

text \<open>
  A transaction works on the tables in place and \<open>Rollback\<close> restores the ones it began
  with; a lost \<open>COMMIT\<close> is a rollback.
\<close>

definition tx_begin :: "('r world, db_error + db) state" where
  "tx_begin = sql_row (\<lambda>d. Some d)"

definition tx_rollback :: "db \<Rightarrow> ('r world, unit) state" where
  "tx_rollback d = State (\<lambda>w. ((), w\<lparr>db := d\<rparr>))"

definition tx_commit :: "db \<Rightarrow> ('r world, db_error + unit) state" where
  "tx_commit d = State (\<lambda>w.
     let (oc, w1) = next_call w in
     case oc of Done \<Rightarrow> (Inr (), w1) | Lost \<Rightarrow> (Inl ConnLost, w1\<lparr>db := d\<rparr>) | Cut n \<Rightarrow> (Inl ConnLost, w1))"

subsection \<open>Redis commands\<close>

definition redis_call :: "(time \<Rightarrow> 'r \<Rightarrow> 'a \<times> 'r) \<Rightarrow> ('r world, go_error + 'a) state" where
  "redis_call f = State (\<lambda>w.
     let (oc, w1) = next_call w; (a, r) = f (clock w1) (redis w1) in
     case oc of
       Done \<Rightarrow> (Inr a, w1\<lparr>redis := r\<rparr>)
     | Lost \<Rightarrow> (Inl (Ext ''redis''), w1)
     | Cut n \<Rightarrow> (Inl (Ext ''redis''), w1\<lparr>redis := r\<rparr>))"

definition redis_get :: "'r ext \<Rightarrow> string \<Rightarrow> ('r world, go_error + redis_value option) state" where
  "redis_get X k = redis_call (\<lambda>t r. (rd_get (redis_ops X) t k r, r))"

definition redis_exists :: "'r ext \<Rightarrow> string \<Rightarrow> ('r world, go_error + bool) state" where
  "redis_exists X k = redis_call (\<lambda>t r. (rd_get (redis_ops X) t k r \<noteq> None, r))"

definition redis_ttl :: "'r ext \<Rightarrow> string \<Rightarrow> ('r world, go_error + duration) state" where
  "redis_ttl X k = redis_call (\<lambda>t r. (rd_ttl (redis_ops X) t k r, r))"

definition redis_set ::
  "'r ext \<Rightarrow> string \<Rightarrow> string \<Rightarrow> duration \<Rightarrow> ('r world, go_error + unit) state" where
  "redis_set X k v d = redis_call (\<lambda>t r. ((), rd_set (redis_ops X) t k (RStr v) d r))"

definition redis_incr :: "'r ext \<Rightarrow> string \<Rightarrow> ('r world, go_error + int option) state" where
  "redis_incr X k = redis_call (\<lambda>t r. rd_incr (redis_ops X) t k r)"

definition redis_expire :: "'r ext \<Rightarrow> string \<Rightarrow> duration \<Rightarrow> ('r world, go_error + unit) state" where
  "redis_expire X k d = redis_call (\<lambda>t r. ((), rd_expire (redis_ops X) t k d r))"

definition redis_del :: "'r ext \<Rightarrow> string \<Rightarrow> ('r world, go_error + unit) state" where
  "redis_del X k = redis_call (\<lambda>t r. ((), rd_del (redis_ops X) t k r))"

text \<open>\<open>TxPipeline\<close> with \<open>INCR\<close> and \<open>EXPIRE\<close>: both run, and the error of \<open>INCR\<close> is reported.\<close>

definition redis_incr_expire :: "'r ext \<Rightarrow> string \<Rightarrow> duration \<Rightarrow> ('r world, go_error + unit) state" where
  "redis_incr_expire X k d =
     on_error (redis_call (\<lambda>t r. let (n, r1) = rd_incr (redis_ops X) t k r in (n, rd_expire (redis_ops X) t k d r1)))
       (\<lambda>e. ret (Inl e))
       (\<lambda>n. ret (case n of None \<Rightarrow> Inl (Ext ''redis'') | Some _ \<Rightarrow> Inr ()))"

lemmas redis_command_defs = redis_get_def redis_exists_def redis_ttl_def redis_set_def
  redis_incr_def redis_expire_def redis_del_def redis_incr_expire_def

section \<open>Runs with a given schedule\<close>

lemma next_call_empty [simp]: "sched w = [] \<Longrightarrow> next_call w = (Done, w)"
  by (simp add: next_call_def)

lemma run_sql_exec_empty [simp]:
  "sched w = [] \<Longrightarrow> run_state (sql_exec X st) w =
     (case st (rand_uuid X (draws w)) (pg_time (clock w)) (db w) of
        Inl e \<Rightarrow> (Inl e, w\<lparr>draws := Suc (draws w)\<rparr>)
      | Inr (a, d) \<Rightarrow> (Inr a, w\<lparr>draws := Suc (draws w), db := d\<rparr>))"
  by (simp add: sql_exec_def split: sum.splits prod.splits)

lemma run_sql_row_empty [simp]:
  "sched w = [] \<Longrightarrow> run_state (sql_row q) w =
     (case q (db w) of None \<Rightarrow> Inl NoRows | Some a \<Rightarrow> Inr a, w)"
  by (simp add: sql_row_def)

lemma run_sql_rows_empty [simp]:
  "sched w = [] \<Longrightarrow> run_state (sql_rows q) w = (Inr (q (db w)), w)"
  by (simp add: sql_rows_def)

lemma run_redis_call_empty [simp]:
  "sched w = [] \<Longrightarrow> run_state (redis_call f) w =
     (Inr (fst (f (clock w) (redis w))), w\<lparr>redis := snd (f (clock w) (redis w))\<rparr>)"
  by (simp add: redis_call_def split: prod.splits)

lemma run_tx_empty [simp]:
  "sched w = [] \<Longrightarrow> run_state tx_begin w = (Inr (db w), w)"
  "sched w = [] \<Longrightarrow> run_state (tx_commit d) w = (Inr (), w)"
  by (simp_all add: tx_begin_def tx_commit_def)

lemma run_tx_rollback [simp]: "run_state (tx_rollback d) w = ((), w\<lparr>db := d\<rparr>)"
  by (simp add: tx_rollback_def)

section \<open>What calls leave alone, whatever the schedule\<close>

definition stmt_rel :: "(db \<Rightarrow> db \<Rightarrow> bool) \<Rightarrow> 'a stmt \<Rightarrow> bool" where
  "stmt_rel P st \<longleftrightarrow> (\<forall>i now d a d'. st i now d = Inr (a, d') \<longrightarrow> P d d')"

definition on_db :: "(db \<Rightarrow> db \<Rightarrow> bool) \<Rightarrow> 'r world \<Rightarrow> 'r world \<Rightarrow> bool" where
  "on_db P w w' \<longleftrightarrow> P (db w) (db w')"

lemma io_preorder_on_db [simp, intro]: "io_preorder P \<Longrightarrow> io_preorder (on_db P)"
  by (auto simp: io_preorder_def on_db_def reflp_def transp_def)

lemma stmt_keeps_rel: "stmt_keeps I st \<Longrightarrow> stmt_rel (keeps I) st"
  by (auto simp: stmt_rel_def stmt_keeps_def keeps_def)

lemma next_call_frame:
  "next_call w = (oc, w1) \<Longrightarrow> db w1 = db w \<and> redis w1 = redis w \<and> tok_cache w1 = tok_cache w
     \<and> private_key w1 = private_key w \<and> public_key w1 = public_key w \<and> draws w1 = draws w
     \<and> clock w \<le> clock w1"
  by (auto simp: next_call_def split: list.splits prod.splits)

lemma io_sql_exec_db:
  "io_preorder P \<Longrightarrow> stmt_rel P st \<Longrightarrow> state_io_rel (on_db P) (sql_exec X st)"
  unfolding state_io_rel_def on_db_def sql_exec_def stmt_rel_def
  by (auto simp: Let_def io_preorder_refl split: prod.splits outcome.splits sum.splits
      dest!: next_call_frame)

lemma io_read_only_db [io_intros]:
  "io_preorder P \<Longrightarrow> state_io_rel (on_db P) (sql_row q)"
  "io_preorder P \<Longrightarrow> state_io_rel (on_db P) (sql_rows q')"
  "io_preorder P \<Longrightarrow> state_io_rel (on_db P) (redis_call f)"
  "io_preorder P \<Longrightarrow> state_io_rel (on_db P) fresh"
  "io_preorder P \<Longrightarrow> state_io_rel (on_db P) tx_begin"
  unfolding state_io_rel_def on_db_def
  by (auto simp: sql_row_def sql_rows_def redis_call_def fresh_def tx_begin_def Let_def
      io_preorder_refl split: prod.splits outcome.splits dest!: next_call_frame)

lemma io_redis_commands_db [io_intros]:
  "io_preorder P \<Longrightarrow> state_io_rel (on_db P) (redis_get X k)"
  "io_preorder P \<Longrightarrow> state_io_rel (on_db P) (redis_exists X k)"
  "io_preorder P \<Longrightarrow> state_io_rel (on_db P) (redis_ttl X k)"
  "io_preorder P \<Longrightarrow> state_io_rel (on_db P) (redis_set X k v du)"
  "io_preorder P \<Longrightarrow> state_io_rel (on_db P) (redis_incr X k)"
  "io_preorder P \<Longrightarrow> state_io_rel (on_db P) (redis_expire X k du)"
  "io_preorder P \<Longrightarrow> state_io_rel (on_db P) (redis_del X k)"
  "io_preorder P \<Longrightarrow> state_io_rel (on_db P) (redis_incr_expire X k du)"
  unfolding redis_command_defs by (auto intro!: io_intros)

end
