(* ===== verification/Jwt.thy ===== *)
theory Jwt
  imports World
begin

text \<open>
  Tokens, \<open>internal/shared/utils/jwt.go\<close>: the claims that are signed, their JSON payload,
  key loading, and the validation of an access token.
\<close>

section \<open>Claims to payloads and back\<close>

text \<open>
  \<open>jwt.NewNumericDate\<close> truncates to seconds. \<open>encoding/json\<close> writes the fields under
  their tags; reading a payload into \<open>AccessClaims\<close> leaves \<open>Email\<close> empty where the key
  \<open>email\<close> is missing.
\<close>

definition numeric_date :: "time \<Rightarrow> time" where
  "numeric_date t = t - t mod nsSecond"

definition access_payload :: "access_claims \<Rightarrow> payload" where
  "access_payload c = \<lparr>p_uid = ac_uid c, p_email = Some (ac_email c), p_exp = ac_exp c,
     p_iat = ac_iat c, p_nbf = ac_nbf c, p_jti = ac_jti c\<rparr>"

definition refresh_payload :: "refresh_claims \<Rightarrow> payload" where
  "refresh_payload c = \<lparr>p_uid = rc_uid c, p_email = None, p_exp = rc_exp c,
     p_iat = None, p_nbf = rc_nbf c, p_jti = rc_jti c\<rparr>"

definition decode_access :: "payload \<Rightarrow> access_claims" where
  "decode_access p = \<lparr>ac_uid = p_uid p, ac_email = (case p_email p of None \<Rightarrow> [] | Some e \<Rightarrow> e),
     ac_exp = p_exp p, ac_iat = p_iat p, ac_nbf = p_nbf p, ac_jti = p_jti p\<rparr>"

lemma decode_access_payload: "decode_access (access_payload c) = c"
  by (simp add: decode_access_def access_payload_def)

section \<open>Operations\<close>

definition generate_access_token ::
  "'r ext \<Rightarrow> uuid \<Rightarrow> string \<Rightarrow> duration \<Rightarrow> ('r world, go_error + string \<times> time) state" where
  "generate_access_token X userID email ttl = do {
     now \<leftarrow> read_state clock;
     let exp = now + ttl;
     n \<leftarrow> fresh;
     let claims = \<lparr>ac_uid = userID, ac_email = email, ac_exp = numeric_date exp,
       ac_iat = Some (numeric_date now), ac_nbf = numeric_date (now - 30 * nsSecond),
       ac_jti = uuid_string X (rand_uuid X n)\<rparr>;
     key \<leftarrow> read_state private_key;
     ret (case jwt_sign X key (access_payload claims) of
            Inl e \<Rightarrow> Inl e
          | Inr token \<Rightarrow> Inr (token, exp))
   }"

definition generate_refresh_token ::
  "'r ext \<Rightarrow> uuid \<Rightarrow> duration \<Rightarrow> ('r world, go_error + string \<times> time) state" where
  "generate_refresh_token X userID ttl = do {
     now \<leftarrow> read_state clock;
     let exp = now + ttl;
     n \<leftarrow> fresh;
     let tokenID = uuid_string X (rand_uuid X n);
     let claims = \<lparr>rc_uid = userID, rc_jti = tokenID, rc_exp = numeric_date exp,
       rc_nbf = numeric_date (now - 30 * nsSecond)\<rparr>;
     key \<leftarrow> read_state private_key;
     ret (case jwt_sign X key (refresh_payload claims) of
            Inl e \<Rightarrow> Inl e
          | Inr token \<Rightarrow> Inr (token, exp))
   }"

text \<open>
  The key function of \<open>ValidateAccessToken\<close> gives the public key to the methods of type
  \<open>SigningMethodRSA\<close> only. The type assertion on the claims cannot fail: the parser fills
  the value it was given.
\<close>

definition access_leeway :: duration where
  "access_leeway = 30 * nsSecond"

definition access_keyfunc :: "string option \<Rightarrow> string \<Rightarrow> go_error + string option" where
  "access_keyfunc pub alg =
     (if alg \<in> {''RS256'', ''RS384'', ''RS512''} then Inr pub
      else Inl (Wrap ''unexpected signing method: '' (Msg alg)))"

definition validate_at :: "'r ext \<Rightarrow> string option \<Rightarrow> time \<Rightarrow> string \<Rightarrow> go_error + access_claims" where
  "validate_at X pub now tokenStr =
     (case jwt_parse X (access_keyfunc pub) access_leeway now tokenStr of
        Inl e \<Rightarrow> Inl e
      | Inr p \<Rightarrow> Inr (decode_access p))"

definition validate_access_token ::
  "'r ext \<Rightarrow> string \<Rightarrow> ('r world, go_error + access_claims) state" where
  "validate_access_token X tokenStr = read_state (\<lambda>w. validate_at X (public_key w) (clock w) tokenStr)"

subsection \<open>Loading the keys\<close>

text \<open>
  The file system, PEM and X.509 parsers are parameters; a parsed key is an RSA key of
  which only its encoding matters, or another kind of key. \<open>LoadKeys\<close> assigns the package
  variables as it goes: a failed type assertion leaves nil in the variable.
\<close>

datatype parsed_key = RSAKey string | OtherKey

record key_io =
  read_file :: "string \<Rightarrow> go_error + string"
  pem_decode :: "string \<Rightarrow> string option"
  parse_pkcs8 :: "string \<Rightarrow> go_error + parsed_key"
  parse_pkcs1 :: "string \<Rightarrow> go_error + parsed_key"
  parse_pkix :: "string \<Rightarrow> go_error + parsed_key"

definition load_private :: "key_io \<Rightarrow> string \<Rightarrow> go_error + parsed_key" where
  "load_private K path =
     (case read_file K path of
        Inl e \<Rightarrow> Inl (Wrap ''reading private key: '' e)
      | Inr bytes \<Rightarrow>
          (case pem_decode K bytes of
             None \<Rightarrow> Inl (Msg ''failed to parse PEM block containing private key'')
           | Some block \<Rightarrow>
               (case parse_pkcs8 K block of
                  Inr k \<Rightarrow> Inr k
                | Inl _ \<Rightarrow>
                    (case parse_pkcs1 K block of
                       Inr k \<Rightarrow> Inr k
                     | Inl e \<Rightarrow> Inl (Wrap ''parsing private key: '' e)))))"

definition load_public :: "key_io \<Rightarrow> string \<Rightarrow> go_error + parsed_key" where
  "load_public K path =
     (case read_file K path of
        Inl e \<Rightarrow> Inl (Wrap ''reading public key: '' e)
      | Inr bytes \<Rightarrow>
          (case pem_decode K bytes of
             None \<Rightarrow> Inl (Msg ''failed to parse PEM block containing public key'')
           | Some block \<Rightarrow>
               (case parse_pkix K block of
                  Inl e \<Rightarrow> Inl (Wrap ''parsing public key: '' e)
                | Inr k \<Rightarrow> Inr k)))"

fun rsa_of :: "parsed_key \<Rightarrow> string option" where
  "rsa_of (RSAKey k) = Some k"
| "rsa_of OtherKey = None"

definition load_keys :: "key_io \<Rightarrow> string \<Rightarrow> string \<Rightarrow> 'r world \<Rightarrow> (go_error + unit) \<times> 'r world" where
  "load_keys K privatePath publicPath w =
     (case load_private K privatePath of
        Inl e \<Rightarrow> (Inl e, w)
      | Inr priv \<Rightarrow>
          let w1 = w\<lparr>private_key := rsa_of priv\<rparr> in
          (case rsa_of priv of
             None \<Rightarrow> (Inl (Msg ''private key is not RSA''), w1)
           | Some _ \<Rightarrow>
               (case load_public K publicPath of
                  Inl e \<Rightarrow> (Inl e, w1)
                | Inr pub \<Rightarrow>
                    let w2 = w1\<lparr>public_key := rsa_of pub\<rparr> in
                    (case rsa_of pub of
                       None \<Rightarrow> (Inl (Msg ''public key is not RSA''), w2)
                     | Some _ \<Rightarrow> (Inr (), w2)))))"

lemma load_keys_sets_both:
  "load_keys K priv pub w = (Inr (), w') \<Longrightarrow> private_key w' \<noteq> None \<and> public_key w' \<noteq> None"
  by (auto simp: load_keys_def Let_def split: sum.splits option.splits)

section \<open>What the signing library promises\<close>

text \<open>
  The public key belongs to the private key: a token that was signed verifies from
  \<open>nbf - leeway\<close> on and before \<open>exp + leeway\<close>, whatever its claims are.
\<close>

definition key_pair :: "'r ext \<Rightarrow> string option \<Rightarrow> string option \<Rightarrow> bool" where
  "key_pair X priv pub \<longleftrightarrow>
     (\<forall>p tok kf lw t. jwt_sign X priv p = Inr tok \<longrightarrow> kf ''RS256'' = Inr pub \<longrightarrow>
        p_nbf p - lw \<le> t \<longrightarrow> t < p_exp p + lw \<longrightarrow> jwt_parse X kf lw t tok = Inr p) \<and>
     (\<forall>p tok kf lw t. jwt_sign X priv p = Inr tok \<longrightarrow>
        \<not> (p_nbf p - lw \<le> t \<and> t < p_exp p + lw) \<longrightarrow> (\<exists>e. jwt_parse X kf lw t tok = Inl e))"

lemma validate_signed:
  assumes "key_pair X priv pub" and "jwt_sign X priv p = Inr tok"
    and "p_nbf p - access_leeway \<le> t" and "t < p_exp p + access_leeway"
  shows "validate_at X pub t tok = Inr (decode_access p)"
proof -
  have "access_keyfunc pub ''RS256'' = Inr pub" by (simp add: access_keyfunc_def)
  with assms have "jwt_parse X (access_keyfunc pub) access_leeway t tok = Inr p"
    unfolding key_pair_def by blast
  then show ?thesis by (simp add: validate_at_def)
qed

lemma validate_expired:
  assumes "key_pair X priv pub" and "jwt_sign X priv p = Inr tok"
    and "\<not> (p_nbf p - access_leeway \<le> t \<and> t < p_exp p + access_leeway)"
  shows "\<exists>e. validate_at X pub t tok = Inl e"
proof -
  from assms obtain e where "jwt_parse X (access_keyfunc pub) access_leeway t tok = Inl e"
    unfolding key_pair_def by blast
  then show ?thesis by (simp add: validate_at_def)
qed

lemma numeric_date_bounds: "t - nsSecond < numeric_date t \<and> numeric_date t \<le> t"
proof -
  have "0 \<le> t mod nsSecond" and "t mod nsSecond < nsSecond"
    by (simp_all add: nsSecond_def)
  then show ?thesis by (simp add: numeric_date_def)
qed

lemma numeric_date_mono: "s \<le> t \<Longrightarrow> numeric_date s \<le> numeric_date t"
proof -
  assume "s \<le> t"
  then have "s div nsSecond \<le> t div nsSecond" by (simp add: zdiv_mono1 nsSecond_def)
  then show ?thesis by (simp add: numeric_date_def minus_mod_eq_mult_div nsSecond_def)
qed

lemma io_tokens_db [io_intros]:
  "io_preorder P \<Longrightarrow> state_io_rel (on_db P) (generate_access_token X uid em ttl)"
  "io_preorder P \<Longrightarrow> state_io_rel (on_db P) (generate_refresh_token X uid ttl)"
  "io_preorder P \<Longrightarrow> state_io_rel (on_db P) (validate_access_token X tok)"
  unfolding generate_access_token_def generate_refresh_token_def validate_access_token_def
  by (auto intro!: io_intros)

end
