(* ===== verification/AuthRepo.thy ===== *)
theory AuthRepo
  imports Jwt
begin

text \<open>
  The repositories of the authentication module,
  \<open>internal/modules/auth/repository/\<close>: one program per method. \<open>FindBy...\<close> methods return
  a Go pair \<open>(pointer, error)\<close>: nil and no error for a missing row, but a pointer to a zero
  value together with any other error.
\<close>

definition zero_user :: user where
  "zero_user = \<lparr>u_id = 0, u_email = [], u_hash = [], u_name = [], u_active = False,
     u_created = 0, u_updated = 0\<rparr>"

definition zero_session :: session where
  "zero_session = \<lparr>s_id = 0, s_user = 0, s_hash = [], s_device = [], s_ip = [], s_agent = [],
     s_accessed = 0, s_created = 0\<rparr>"

definition nil_if_no_rows ::
  "'a \<Rightarrow> ('w, db_error + 'a) state \<Rightarrow> ('w, 'a option \<times> db_error option) state" where
  "nil_if_no_rows zero m =
     on_error m (\<lambda>e. ret (if e = NoRows then (None, None) else (Some zero, Some e)))
       (\<lambda>a. ret (Some a, None))"

section \<open>\<open>UserRepository\<close>\<close>

text \<open>
  \<open>Create\<close> scans what \<open>RETURNING\<close> yields into the struct it was given; the struct's other
  fields, \<open>IsActive\<close> among them, stay as the caller set them.
\<close>

definition user_create :: "'r ext \<Rightarrow> user \<Rightarrow> ('r world, db_error + user) state" where
  "user_create X u =
     on_error (sql_exec X (insert_user (u_email u) (u_hash u) (u_name u)))
       (\<lambda>e. ret (Inl e))
       (\<lambda>row. ret (Inr (u\<lparr>u_id := u_id row, u_created := u_created row, u_updated := u_updated row\<rparr>)))"

definition user_find_by_email :: "string \<Rightarrow> ('r world, user option \<times> db_error option) state" where
  "user_find_by_email email = nil_if_no_rows zero_user (sql_row (find_user_by_email email))"

definition user_find_by_id :: "uuid \<Rightarrow> ('r world, user option \<times> db_error option) state" where
  "user_find_by_id uid = nil_if_no_rows zero_user (sql_row (find_user_by_id uid))"

section \<open>\<open>SessionRepository\<close>\<close>

definition session_create :: "'r ext \<Rightarrow> session \<Rightarrow> ('r world, db_error + session) state" where
  "session_create X s =
     on_error (sql_exec X (insert_session (inet_ok X) (s_user s) (s_hash s) (s_device s) (s_ip s) (s_agent s)))
       (\<lambda>e. ret (Inl e))
       (\<lambda>(i, t). ret (Inr (s\<lparr>s_id := i, s_created := t\<rparr>)))"

definition session_delete_by_id :: "'r ext \<Rightarrow> uuid \<Rightarrow> ('r world, db_error + unit) state" where
  "session_delete_by_id X sid = sql_exec X (delete_session_by_id sid)"

definition session_delete_by_hash :: "'r ext \<Rightarrow> string \<Rightarrow> ('r world, db_error + unit) state" where
  "session_delete_by_hash X h = sql_exec X (delete_session_by_hash h)"

definition session_count_by_user :: "uuid \<Rightarrow> ('r world, db_error + int) state" where
  "session_count_by_user uid = sql_row (\<lambda>d. Some (int (length (sessions_of uid d))))"

definition session_find_oldest :: "uuid \<Rightarrow> ('r world, session option \<times> db_error option) state" where
  "session_find_oldest uid = nil_if_no_rows zero_session (sql_row (oldest_session uid))"

definition session_update_accessed :: "'r ext \<Rightarrow> uuid \<Rightarrow> ('r world, db_error + unit) state" where
  "session_update_accessed X sid = do {
     now \<leftarrow> read_state clock;
     sql_exec X (touch_session now sid)
   }"

lemmas auth_repo_defs = user_create_def user_find_by_email_def user_find_by_id_def
  session_create_def session_delete_by_id_def session_delete_by_hash_def session_count_by_user_def
  session_find_oldest_def session_update_accessed_def

lemma run_nil_if_no_rows [simp]:
  "run_state (nil_if_no_rows z m) w =
     (case run_state m w of
        (Inl e, w') \<Rightarrow> (if e = NoRows then (None, None) else (Some z, Some e), w')
      | (Inr a, w') \<Rightarrow> ((Some a, None), w'))"
  by (simp add: nil_if_no_rows_def split: prod.splits sum.splits)

lemma io_nil_if_no_rows [io_intros]:
  "io_preorder R \<Longrightarrow> state_io_rel R m \<Longrightarrow> state_io_rel R (nil_if_no_rows z m)"
  unfolding nil_if_no_rows_def by (auto intro!: io_intros)

section \<open>Every method keeps the tables' integrity\<close>

lemma io_sql_exec_ok [io_intros]:
  "stmt_keeps I st \<Longrightarrow> state_io_rel (on_db (keeps I)) (sql_exec X st)"
  by (intro io_sql_exec_db stmt_keeps_rel) auto

lemma io_case_prod [io_intros]:
  "(\<And>a b. p = (a, b) \<Longrightarrow> state_io_rel R (f a b)) \<Longrightarrow> state_io_rel R (case p of (a, b) \<Rightarrow> f a b)"
  by (cases p) simp

lemma auth_repo_ok [io_intros]:
  "state_io_rel (on_db (keeps db_ok)) (user_create X u)"
  "state_io_rel (on_db (keeps db_ok)) (user_find_by_email e)"
  "state_io_rel (on_db (keeps db_ok)) (user_find_by_id uid)"
  "state_io_rel (on_db (keeps db_ok)) (session_create X s)"
  "state_io_rel (on_db (keeps db_ok)) (session_delete_by_id X sid)"
  "state_io_rel (on_db (keeps db_ok)) (session_delete_by_hash X h)"
  "state_io_rel (on_db (keeps db_ok)) (session_count_by_user uid)"
  "state_io_rel (on_db (keeps db_ok)) (session_find_oldest uid)"
  "state_io_rel (on_db (keeps db_ok)) (session_update_accessed X sid)"
  unfolding auth_repo_defs by (intro io_intros db_keeps io_preorder_on_db io_preorder_keeps)+

end
