(* ===== verification/Config.thy ===== *)
theory Config
  imports Prelude
begin

text \<open>
  The configuration, \<open>internal/config/config.go\<close>. The values come from \<open>viper\<close>, whose
  typed getters are a parameter.
\<close>

record config =
  AppName :: string
  AppEnv :: string
  AppPort :: string
  AppDebug :: bool
  DBHost :: string
  DBPort :: string
  DBUser :: string
  DBPassword :: string
  DBName :: string
  DBSSLMode :: string
  DBMaxOpenConns :: int
  DBMaxIdleConns :: int
  UsePgBouncer :: bool
  PgBouncerPort :: string
  RedisHost :: string
  RedisPort :: string
  RedisPassword :: string
  RedisDB :: int
  JWTPrivateKeyPath :: string
  JWTPublicKeyPath :: string
  JWTAccessExpiryMin :: int
  JWTRefreshExpiryDays :: int
  RateLimitRequests :: int
  RateLimitDurationSec :: int
  ThrottleBurst :: int
  ThrottleRate :: int
  LogLevel :: string
  LogFilePath :: string
  StorageDriver :: string
  StorageLocalPath :: string
  StorageS3Endpoint :: string
  StorageS3Region :: string
  StorageS3Bucket :: string
  StorageS3AccessKey :: string
  StorageS3SecretKey :: string
  StorageS3UseSSL :: bool
  MaxActiveSessions :: int
  AdminEmail :: string
  AdminPassword :: string
  AdminName :: string
  MaxRequestBodySize :: int

record viper =
  GetString :: "string \<Rightarrow> string"
  GetBool :: "string \<Rightarrow> bool"
  GetInt :: "string \<Rightarrow> int"
  GetInt64 :: "string \<Rightarrow> int"

text \<open>The struct literal of \<open>Load\<close>.\<close>

definition read_config :: "viper \<Rightarrow> config" where
  "read_config v = \<lparr>
     AppName = GetString v ''APP_NAME'',
     AppEnv = GetString v ''APP_ENV'',
     AppPort = GetString v ''APP_PORT'',
     AppDebug = GetBool v ''APP_DEBUG'',
     DBHost = GetString v ''DB_HOST'',
     DBPort = GetString v ''DB_PORT'',
     DBUser = GetString v ''DB_USER'',
     DBPassword = GetString v ''DB_PASSWORD'',
     DBName = GetString v ''DB_NAME'',
     DBSSLMode = GetString v ''DB_SSLMODE'',
     DBMaxOpenConns = GetInt v ''DB_MAX_OPEN_CONNS'',
     DBMaxIdleConns = GetInt v ''DB_MAX_IDLE_CONNS'',
     UsePgBouncer = GetBool v ''USE_PGBOUNCER'',
     PgBouncerPort = GetString v ''PGBOUNCER_PORT'',
     RedisHost = GetString v ''REDIS_HOST'',
     RedisPort = GetString v ''REDIS_PORT'',
     RedisPassword = GetString v ''REDIS_PASSWORD'',
     RedisDB = GetInt v ''REDIS_DB'',
     JWTPrivateKeyPath = GetString v ''JWT_PRIVATE_KEY_PATH'',
     JWTPublicKeyPath = GetString v ''JWT_PUBLIC_KEY_PATH'',
     JWTAccessExpiryMin = GetInt v ''JWT_ACCESS_EXPIRY_MINUTES'',
     JWTRefreshExpiryDays = GetInt v ''JWT_REFRESH_EXPIRY_DAYS'',
     RateLimitRequests = GetInt v ''RATE_LIMIT_REQUESTS'',
     RateLimitDurationSec = GetInt v ''RATE_LIMIT_DURATION_SECONDS'',
     ThrottleBurst = GetInt v ''THROTTLE_BURST'',
     ThrottleRate = GetInt v ''THROTTLE_RATE'',
     LogLevel = GetString v ''LOG_LEVEL'',
     LogFilePath = GetString v ''LOG_FILE_PATH'',
     StorageDriver = GetString v ''STORAGE_DRIVER'',
     StorageLocalPath = GetString v ''STORAGE_LOCAL_PATH'',
     StorageS3Endpoint = GetString v ''STORAGE_S3_ENDPOINT'',
     StorageS3Region = GetString v ''STORING_S3_REGION'',
     StorageS3Bucket = GetString v ''STORAGE_S3_BUCKET'',
     StorageS3AccessKey = GetString v ''STORAGE_S3_ACCESS_KEY'',
     StorageS3SecretKey = GetString v ''STORAGE_S3_SECRET_KEY'',
     StorageS3UseSSL = GetBool v ''STORAGE_S3_USE_SSL'',
     MaxActiveSessions = GetInt v ''MAX_ACTIVE_SESSIONS'',
     AdminEmail = GetString v ''ADMIN_EMAIL'',
     AdminPassword = GetString v ''ADMIN_PASSWORD'',
     AdminName = GetString v ''ADMIN_NAME'',
     MaxRequestBodySize = GetInt64 v ''MAX_REQUEST_BODY_SIZE'' \<rparr>"

definition default_sessions :: "config \<Rightarrow> config" where
  "default_sessions cfg = (if MaxActiveSessions cfg \<le> 0 then cfg\<lparr>MaxActiveSessions := 2\<rparr> else cfg)"

definition default_bouncer_port :: "config \<Rightarrow> config" where
  "default_bouncer_port cfg = (if PgBouncerPort cfg = [] then cfg\<lparr>PgBouncerPort := ''6432''\<rparr> else cfg)"

definition default_body_size :: "config \<Rightarrow> config" where
  "default_body_size cfg =
     (if MaxRequestBodySize cfg \<le> 0 then cfg\<lparr>MaxRequestBodySize := 10 * 2 ^ 20\<rparr> else cfg)"

definition load_config :: "viper \<Rightarrow> go_error + config" where
  "load_config v =
     (let cfg = default_sessions (read_config v)
      in if JWTPrivateKeyPath cfg = [] \<or> JWTPublicKeyPath cfg = []
         then Inl (Msg ''JWT key paths must be set'')
         else Inr (default_body_size (default_bouncer_port cfg)))"

lemma read_config_fields [simp]:
  "JWTPrivateKeyPath (read_config v) = GetString v ''JWT_PRIVATE_KEY_PATH''"
  "JWTPublicKeyPath (read_config v) = GetString v ''JWT_PUBLIC_KEY_PATH''"
  "PgBouncerPort (read_config v) = GetString v ''PGBOUNCER_PORT''"
  "MaxActiveSessions (read_config v) = GetInt v ''MAX_ACTIVE_SESSIONS''"
  "MaxRequestBodySize (read_config v) = GetInt64 v ''MAX_REQUEST_BODY_SIZE''"
  by (simp_all only: read_config_def config.simps)

lemma default_fields:
  "JWTPrivateKeyPath (default_sessions c) = JWTPrivateKeyPath c"
  "JWTPublicKeyPath (default_sessions c) = JWTPublicKeyPath c"
  "PgBouncerPort (default_sessions c) = PgBouncerPort c"
  "MaxRequestBodySize (default_sessions c) = MaxRequestBodySize c"
  "MaxActiveSessions (default_sessions c) = (if MaxActiveSessions c \<le> 0 then 2 else MaxActiveSessions c)"
  "JWTPrivateKeyPath (default_bouncer_port c) = JWTPrivateKeyPath c"
  "JWTPublicKeyPath (default_bouncer_port c) = JWTPublicKeyPath c"
  "MaxActiveSessions (default_bouncer_port c) = MaxActiveSessions c"
  "MaxRequestBodySize (default_bouncer_port c) = MaxRequestBodySize c"
  "PgBouncerPort (default_bouncer_port c) = (if PgBouncerPort c = [] then ''6432'' else PgBouncerPort c)"
  "JWTPrivateKeyPath (default_body_size c) = JWTPrivateKeyPath c"
  "JWTPublicKeyPath (default_body_size c) = JWTPublicKeyPath c"
  "MaxActiveSessions (default_body_size c) = MaxActiveSessions c"
  "PgBouncerPort (default_body_size c) = PgBouncerPort c"
  "MaxRequestBodySize (default_body_size c) =
     (if MaxRequestBodySize c \<le> 0 then 10485760 else MaxRequestBodySize c)"
  by (simp_all add: default_sessions_def default_bouncer_port_def default_body_size_def)

definition config_ok :: "config \<Rightarrow> bool" where
  "config_ok cfg \<longleftrightarrow> 0 < MaxActiveSessions cfg \<and> JWTPrivateKeyPath cfg \<noteq> [] \<and>
     JWTPublicKeyPath cfg \<noteq> [] \<and> PgBouncerPort cfg \<noteq> [] \<and> 0 < MaxRequestBodySize cfg"

text \<open>The configuration with every variable unset but the two key paths.\<close>

definition bare_viper :: viper where
  "bare_viper = \<lparr>GetString = (\<lambda>k. if k = ''JWT_PRIVATE_KEY_PATH'' \<or> k = ''JWT_PUBLIC_KEY_PATH''
       then ''key.pem'' else []),
     GetBool = (\<lambda>_. False), GetInt = (\<lambda>_. 0), GetInt64 = (\<lambda>_. 0)\<rparr>"

text \<open>
  \<open>Load\<close> fails exactly when a key path is not set. Otherwise every value that it
  defaults is usable, and one that was usable is kept: a positive session limit, else 2; a
  positive body size, else 10 MiB; a PgBouncer port, else 6432.
\<close>
lemma load_config_ok:
  "case load_config v of
     Inl e \<Rightarrow> e = Msg ''JWT key paths must be set'' \<and>
       (GetString v ''JWT_PRIVATE_KEY_PATH'' = [] \<or> GetString v ''JWT_PUBLIC_KEY_PATH'' = [])
   | Inr cfg \<Rightarrow> config_ok cfg \<and>
       MaxActiveSessions cfg = (if 0 < GetInt v ''MAX_ACTIVE_SESSIONS'' then GetInt v ''MAX_ACTIVE_SESSIONS'' else 2) \<and>
       MaxRequestBodySize cfg = (if 0 < GetInt64 v ''MAX_REQUEST_BODY_SIZE''
         then GetInt64 v ''MAX_REQUEST_BODY_SIZE'' else 10 * 1024 * 1024) \<and>
       PgBouncerPort cfg = (if GetString v ''PGBOUNCER_PORT'' \<noteq> [] then GetString v ''PGBOUNCER_PORT'' else ''6432'')"
  by (simp add: load_config_def Let_def default_fields config_ok_def)

end
