(* ===== verification/AuthService.thy ===== *)
theory AuthService
  imports AuthRepo Config
begin

text \<open>
  The authentication service, \<open>internal/modules/auth/service/auth_service.go\<close>:
  registration, login with its lock-out counter, rotation of refresh tokens, logout, and
  the session limit.
\<close>

section \<open>Requests and responses\<close>

record register_request =
  rr_email :: string
  rr_password :: string
  rr_full_name :: string

record login_request =
  lr_email :: string
  lr_password :: string

record user_info =
  ui_id :: string
  ui_email :: string
  ui_full_name :: string

record auth_response =
  AccessToken :: string
  RefreshToken :: string
  ExpiresAt :: time
  User :: user_info

definition bcryptCost :: nat where "bcryptCost = 12"

definition attempts_key :: "string \<Rightarrow> string" where
  "attempts_key email = ''login_attempts:'' @ email"

definition lockout_key :: "string \<Rightarrow> string" where
  "lockout_key email = ''login_lockout:'' @ email"

definition blacklist_key :: "string \<Rightarrow> string" where
  "blacklist_key h = ''blacklist:'' @ h"

section \<open>Sessions and tokens\<close>

definition enforce_session_limit :: "'r ext \<Rightarrow> config \<Rightarrow> uuid \<Rightarrow> ('r world, unit) state" where
  "enforce_session_limit X cfg userID =
     (if MaxActiveSessions cfg \<le> 0 then ret ()
      else do {
        _ \<leftarrow> sql_exec X (delete_sessions_beyond userID (MaxActiveSessions cfg));
        _ \<leftarrow> sql_exec X (delete_orphan_tokens userID);
        ret ()
      })"

definition access_ttl :: "config \<Rightarrow> duration" where
  "access_ttl cfg = dur_mul (JWTAccessExpiryMin cfg) nsMinute"

definition refresh_ttl :: "config \<Rightarrow> duration" where
  "refresh_ttl cfg = dur_mul (dur_mul (JWTRefreshExpiryDays cfg) 24) nsHour"

definition generate_tokens ::
  "'r ext \<Rightarrow> config \<Rightarrow> user \<Rightarrow> string \<Rightarrow> string \<Rightarrow> string \<Rightarrow> ('r world, go_error + auth_response) state" where
  "generate_tokens X cfg user deviceID ipAddress userAgent =
     on_error (generate_access_token X (u_id user) (u_email user) (access_ttl cfg))
       (\<lambda>e. ret (Inl e)) (\<lambda>(accessToken, accessExp).
     on_error (generate_refresh_token X (u_id user) (refresh_ttl cfg))
       (\<lambda>e. ret (Inl e)) (\<lambda>(refreshTokenStr, refreshExp).
     let hashed = hash_token X refreshTokenStr in
     on_error (sql_exec X (insert_refresh_token (inet_ok X) (u_id user) hashed deviceID ipAddress refreshExp))
       (\<lambda>e. ret (Inl (Wrap ''failed to store refresh token: '' (Db e)))) (\<lambda>_. do {
         _ \<leftarrow> session_create X (zero_session\<lparr>s_user := u_id user, s_hash := hashed,
            s_device := deviceID, s_ip := ipAddress, s_agent := userAgent\<rparr>);
         enforce_session_limit X cfg (u_id user);
         ret (Inr \<lparr>AccessToken = accessToken, RefreshToken = refreshTokenStr, ExpiresAt = accessExp,
           User = \<lparr>ui_id = uuid_string X (u_id user), ui_email = u_email user,
                   ui_full_name = u_name user\<rparr>\<rparr>)
       })))"

section \<open>The operations\<close>

definition register ::
  "'r ext \<Rightarrow> config \<Rightarrow> register_request \<Rightarrow> ('r world, go_error + auth_response) state" where
  "register X cfg req = do {
     salt \<leftarrow> fresh;
     case bcrypt_generate X (rr_password req) bcryptCost salt of
       Inl e \<Rightarrow> ret (Inl e)
     | Inr hash \<Rightarrow>
         on_error (user_create X (zero_user\<lparr>u_email := rr_email req, u_hash := hash,
                     u_name := rr_full_name req\<rparr>))
           (\<lambda>e. ret (Inl (Wrap ''email already exists or db error: '' (Db e))))
           (\<lambda>user. generate_tokens X cfg user ''register_device'' [] [])
   }"

definition check_login_attempts :: "'r ext \<Rightarrow> string \<Rightarrow> ('r world, go_error + unit) state" where
  "check_login_attempts X email = do {
     r \<leftarrow> redis_exists X (lockout_key email);
     let locked = (case r of Inl _ \<Rightarrow> False | Inr b \<Rightarrow> b);
     if locked then do {
       r' \<leftarrow> redis_ttl X (lockout_key email);
       let ttl = (case r' of Inl _ \<Rightarrow> 0 | Inr d \<Rightarrow> d);
       ret (Inl (LockedOut (whole_minutes ttl + 1)))
     } else ret (Inr ())
   }"

definition record_failed_attempt :: "'r ext \<Rightarrow> string \<Rightarrow> ('r world, unit) state" where
  "record_failed_attempt X email = do {
     r \<leftarrow> redis_incr X (attempts_key email);
     let attempts = (case r of Inr (Some n) \<Rightarrow> n | _ \<Rightarrow> 0);
     _ \<leftarrow> redis_expire X (attempts_key email) (15 * nsMinute);
     if 5 \<le> attempts then do {
       _ \<leftarrow> redis_set X (lockout_key email) ''locked'' (15 * nsMinute);
       ret ()
     } else ret ()
   }"

definition login ::
  "'r ext \<Rightarrow> config \<Rightarrow> login_request \<Rightarrow> string \<Rightarrow> string \<Rightarrow> string \<Rightarrow> ('r world, go_error + auth_response) state" where
  "login X cfg req deviceID ipAddress userAgent =
     on_error (check_login_attempts X (lr_email req)) (\<lambda>e. ret (Inl e)) (\<lambda>_. do {
       (user, err) \<leftarrow> user_find_by_email (lr_email req);
       case (user, err) of
         (Some u, None) \<Rightarrow>
           if \<not> u_active u then ret (Inl (Msg ''account is disabled''))
           else if \<not> bcrypt_compare X (u_hash u) (lr_password req) then do {
             record_failed_attempt X (lr_email req);
             ret (Inl (Msg ''invalid email or password''))
           } else do {
             _ \<leftarrow> redis_del X (attempts_key (lr_email req));
             _ \<leftarrow> redis_del X (lockout_key (lr_email req));
             generate_tokens X cfg u deviceID ipAddress userAgent
           }
       | _ \<Rightarrow> do {
           record_failed_attempt X (lr_email req);
           ret (Inl (Msg ''invalid email or password''))
         }
     })"

definition refresh_tokens_op ::
  "'r ext \<Rightarrow> config \<Rightarrow> string \<Rightarrow> string \<Rightarrow> string \<Rightarrow> string \<Rightarrow> ('r world, go_error + auth_response) state" where
  "refresh_tokens_op X cfg refreshToken deviceID ipAddress userAgent =
     (let hashed = hash_token X refreshToken in
      on_error (sql_row (find_refresh_token hashed))
        (\<lambda>_. ret (Inl (Msg ''invalid refresh token''))) (\<lambda>token. do {
          now \<leftarrow> read_state clock;
          if t_expires token < now then do {
            _ \<leftarrow> sql_exec X (delete_refresh_token_by_id (t_id token));
            ret (Inl (Msg ''refresh token expired''))
          } else do {
            _ \<leftarrow> session_delete_by_hash X hashed;
            _ \<leftarrow> sql_exec X (delete_refresh_token_by_id (t_id token));
            (user, err) \<leftarrow> user_find_by_id (t_user token);
            case (user, err) of
              (Some u, None) \<Rightarrow> generate_tokens X cfg u deviceID ipAddress userAgent
            | _ \<Rightarrow> ret (Inl (Msg ''user not found''))
          }
        }))"

definition logout :: "'r ext \<Rightarrow> string \<Rightarrow> string \<Rightarrow> ('r world, go_error + unit) state" where
  "logout X accessToken refreshToken = do {
     r \<leftarrow> validate_access_token X accessToken;
     now \<leftarrow> read_state clock;
     _ \<leftarrow> (case r of
            Inl _ \<Rightarrow> ret (Inr ())
          | Inr claims \<Rightarrow>
              if 0 < ac_exp claims - now
              then redis_set X (blacklist_key (hash_token X accessToken)) ''revoked'' (ac_exp claims - now)
              else ret (Inr ()));
     (if refreshToken \<noteq> [] then do {
        _ \<leftarrow> session_delete_by_hash X (hash_token X refreshToken);
        _ \<leftarrow> sql_exec X (delete_refresh_token_by_hash (hash_token X refreshToken));
        ret (Inr ())
      } else ret (Inr ()))
   }"

end
