(* ===== verification/Demo.thy ===== *)
theory Demo
  imports AuthService
begin

text \<open>
  The interface of the outside code as a locale, and concrete outside code that satisfies
  it: an in-memory Redis, a digest that is the token itself, a signing service that knows
  a table of tokens. The witnesses of the properties run the model on it.
\<close>

section \<open>The services the program relies on\<close>

locale services = redis_service "redis_ops X" view + key_range "go_range X"
  for X :: "'r ext" and view :: "'r \<Rightarrow> key_space" +
  assumes bcrypt_roundtrip: "bcrypt_generate X pw cost salt = Inr h \<Longrightarrow> bcrypt_compare X h pw"
begin

lemma evict_order_ok: "set (go_range X (cache_keys c)) = set (cache_keys c)"
  by (rule range_keys)

end

section \<open>A concrete instance\<close>

definition demo_ext :: "(payload \<times> string) list \<Rightarrow> mem_store ext" where
  "demo_ext tbl = \<lparr>
     redis_ops = mem_redis,
     sha256_sum = map (\<lambda>c. word_of_nat (of_char c)),
     bcrypt_generate = (\<lambda>pw cost salt.
       if length pw \<le> 72 then Inr (''$'' @ pw) else Inl (Ext ''bcrypt: password too long'')),
     bcrypt_compare = (\<lambda>h pw. h = ''$'' @ pw),
     jwt_sign = (\<lambda>key p. case map_of tbl p of None \<Rightarrow> Inl (Ext ''jwt'') | Some tok \<Rightarrow> Inr tok),
     jwt_parse = (\<lambda>kf lw t tok. case find (\<lambda>(p, tok'). tok' = tok) tbl of
         None \<Rightarrow> Inl (Ext ''jwt: malformed'')
       | Some (p, _) \<Rightarrow>
           (case kf ''RS256'' of
              Inl e \<Rightarrow> Inl e
            | Inr pub \<Rightarrow> if p_nbf p - lw \<le> t \<and> t < p_exp p + lw then Inr p else Inl (Ext ''jwt: expired''))),
     rand_uuid = of_nat,
     uuid_string = (\<lambda>u. [char_of (unat u)]),
     uuid_parse = (\<lambda>s. case s of [c] \<Rightarrow> Some (word_of_nat (of_char c)) | _ \<Rightarrow> None),
     inet_ok = (\<lambda>s. s \<noteq> []),
     go_range = (\<lambda>ks. ks) \<rparr>"

interpretation demo: services "demo_ext tbl" map_of
proof -
  have R: "redis_ops (demo_ext tbl) = mem_redis" by (simp add: demo_ext_def)
  show "services (demo_ext tbl) map_of"
    unfolding services_def services_axioms_def R
    by (auto simp: demo_ext_def mem.redis_service_axioms insertion_order.key_range_axioms split: if_splits)
qed

text \<open>Distinct tokens make the table a signing service in the sense of \<open>key_pair\<close>.\<close>

lemma find_unique:
  "distinct (map snd tbl) \<Longrightarrow> map_of tbl p = Some tok \<Longrightarrow> find (\<lambda>(p, tok'). tok' = tok) tbl = Some (p, tok)"
proof (induction tbl)
  case (Cons e tbl)
  then show ?case
    by (cases e) (auto split: if_splits dest!: map_of_SomeD simp: image_iff)
qed simp

lemma demo_key_pair: "distinct (map snd tbl) \<Longrightarrow> key_pair (demo_ext tbl) priv pub"
  unfolding key_pair_def
  by (auto simp: demo_ext_def find_unique split: option.splits sum.splits)

definition demo_world :: "db \<Rightarrow> time \<Rightarrow> mem_store world" where
  "demo_world d t = \<lparr>db = d, redis = [], clock = t, draws = 1, sched = [],
     tok_cache = new_token_cache (5 * nsMinute) 100000,
     private_key = Some ''priv'', public_key = Some ''pub''\<rparr>"

definition demo_config :: config where
  "demo_config = (read_config bare_viper)\<lparr>JWTAccessExpiryMin := 15, JWTRefreshExpiryDays := 7,
     MaxActiveSessions := 2\<rparr>"

lemma demo_config_fields [simp]:
  "JWTAccessExpiryMin demo_config = 15" "JWTRefreshExpiryDays demo_config = 7"
  "MaxActiveSessions demo_config = 2"
  by (simp_all add: demo_config_def)

lemma demo_ttls [simp]:
  "access_ttl demo_config = 900000000000" "refresh_ttl demo_config = 604800000000000"
  by (simp_all add: access_ttl_def refresh_ttl_def dur_mul_def wrap64_def duration_defs)

section \<open>A user, a login, the tables with that user\<close>

definition alice :: user where
  "alice = \<lparr>u_id = 1, u_email = ''a'', u_hash = ''$pw'', u_name = ''Alice'', u_active = True,
     u_created = 0, u_updated = 0\<rparr>"

definition demo_login :: login_request where
  "demo_login = \<lparr>lr_email = ''a'', lr_password = ''pw''\<rparr>"

definition demo_db :: db where
  "demo_db = empty_db\<lparr>users := [alice]\<rparr>"

lemma demo_calls [simp]:
  "uuid_string (demo_ext tbl) = (\<lambda>u. [char_of (unat u)])" "redis_ops (demo_ext tbl) = mem_redis"
   "rand_uuid (demo_ext tbl) = of_nat"
  "inet_ok (demo_ext tbl) ip \<longleftrightarrow> ip \<noteq> []"
  "bcrypt_compare (demo_ext tbl) h pw \<longleftrightarrow> h = ''$'' @ pw"
  by (simp_all add: demo_ext_def)

lemma demo_sign: "jwt_sign (demo_ext tbl) k p = (case map_of tbl p of None \<Rightarrow> Inl (Ext ''jwt'') | Some tok \<Rightarrow> Inr tok)"
  by (simp add: demo_ext_def)

lemma demo_hash: "hash_token (demo_ext tbl) t = hex_encode (map (\<lambda>c. word_of_nat (of_char c)) t)"
  by (simp add: hash_token_def demo_ext_def)

lemmas demo_world_eval = demo_world_def demo_login_def alice_def demo_db_def empty_db_def

lemmas demo_eval = demo_world_eval find_user_by_email_def find_user_by_id_def demo_sign demo_hash
  hex_digit_def fits_def pg_length_def mem_redis_def mem_live_def live_def

lemma demo_db_ok: "db_ok demo_db"
  by (simp add: db_ok_def ok_defs demo_db_def empty_db_def alice_def)

lemma demo_world_fields [simp]:
  "db (demo_world d t) = d" "redis (demo_world d t) = []" "clock (demo_world d t) = t"
  "sched (demo_world d t) = []" "draws (demo_world d t) = 1"
  by (simp_all add: demo_world_def)

end
