(* ===== verification/SessionLimit.thy ===== *)
theory SessionLimit
  imports Demo
begin

text \<open>
  The session limit: what the two statements of \<open>enforceSessionLimit\<close> leave of a user's
  sessions and refresh tokens, and what every operation that issues tokens establishes.
\<close>

section \<open>The statement that deletes the sessions beyond the limit\<close>

lemma sort_key_snoc:
  "\<forall>y \<in> set xs. f y \<le> f x \<Longrightarrow> sort_key f (xs @ [x]) = sort_key f xs @ [x]"
proof -
  have ins: "\<forall>y \<in> set ys. f y \<le> f x \<Longrightarrow> f a \<le> f x \<Longrightarrow> insort_key f a (ys @ [x]) = insort_key f a ys @ [x]"
    for ys a by (induction ys) auto
  show "\<forall>y \<in> set xs. f y \<le> f x \<Longrightarrow> ?thesis"
    by (induction xs) (auto simp: ins)
qed

lemma take_rev_sorted:
  assumes "sorted (map f xs)" and "x \<in> set (take n (rev xs))" and "y \<in> set (drop n (rev xs))"
  shows "f y \<le> f x"
proof -
  have "sorted_wrt (\<ge>) (map f (take n (rev xs) @ drop n (rev xs)))"
    using assms(1) by (simp add: sorted_wrt_rev rev_map [symmetric])
  with assms(2,3) show ?thesis unfolding map_append sorted_wrt_append by auto
qed

lemma newest_sessions_subset: "set (newest_sessions uid n d) \<subseteq> set (sessions_of uid d)"
  unfolding newest_sessions_def using set_take_subset [of "nat n"] by fastforce

lemma newest_sessions_length:
  "length (newest_sessions uid n d) = min (nat n) (length (sessions_of uid d))"
  by (simp add: newest_sessions_def)

lemma newest_sessions_newest:
  assumes "s \<in> set (newest_sessions uid n d)"
    and "t \<in> set (sessions_of uid d)" and "t \<notin> set (newest_sessions uid n d)"
  shows "s_accessed t \<le> s_accessed s"
proof -
  let ?r = "rev (sort_key s_accessed (sessions_of uid d))"
  have "t \<in> set ?r" using assms(2) by simp
  then have "t \<in> set (take (nat n) ?r) \<union> set (drop (nat n) ?r)"
    unfolding set_append [symmetric] by simp
  then have "t \<in> set (drop (nat n) ?r)"
    using assms(3) by (simp add: newest_sessions_def)
  then show ?thesis
    using assms(1) by (intro take_rev_sorted [of _ "sort_key s_accessed (sessions_of uid d)"])
      (auto simp: newest_sessions_def)
qed

lemma sessions_of_subset: "set (sessions_of uid d) \<subseteq> set (sessions d)"
  by (auto simp: sessions_of_def)

lemma distinct_sessions_of: "db_ok d \<Longrightarrow> distinct (map s_id (sessions_of uid d))"
  by (simp add: sessions_of_def distinct_filter_map db_okD)

lemma same_session: "db_ok d \<Longrightarrow> s \<in> set (sessions d) \<Longrightarrow> t \<in> set (sessions d) \<Longrightarrow> s_id s = s_id t \<Longrightarrow> s = t"
  using db_okD(11) [of d] by (auto simp: distinct_map inj_on_def)

lemma delete_sessions_beyond_sessions:
  assumes "delete_sessions_beyond uid n i now d = Inr ((), d')"
  shows "sessions d' = filter (\<lambda>s. \<not> (s_user s = uid \<and> s_id s \<notin> s_id ` set (newest_sessions uid n d))) (sessions d)"
    and "users d' = users d" "refresh_tokens d' = refresh_tokens d"
  using assms by (auto simp: delete_sessions_beyond_def)

lemma sessions_of_after_limit:
  assumes ok: "db_ok d" and st: "delete_sessions_beyond uid n i now d = Inr ((), d')"
  shows "set (sessions_of uid d') = set (newest_sessions uid n d)"
    and "v \<noteq> uid \<Longrightarrow> sessions_of v d' = sessions_of v d"
    and "length (sessions_of uid d') = min (nat n) (length (sessions_of uid d))"
proof -
  have id: "s_id s \<in> s_id ` set (newest_sessions uid n d) \<longleftrightarrow> s \<in> set (newest_sessions uid n d)"
    if "s \<in> set (sessions d)" for s
    using that newest_sessions_subset [of uid n d] sessions_of_subset [of uid d] same_session [OF ok]
    by blast
  show set: "set (sessions_of uid d') = set (newest_sessions uid n d)"
    using newest_sessions_subset [of uid n d] id
    by (auto simp: sessions_of_def delete_sessions_beyond_sessions [OF st])
  show "v \<noteq> uid \<Longrightarrow> sessions_of v d' = sessions_of v d"
    by (auto simp: sessions_of_def delete_sessions_beyond_sessions [OF st] intro!: filter_cong)
  have "db_ok d'" using st ok by (rule stmt_keepsD [OF delete_session_statements_ok(3), rotated])
  then have "distinct (sessions_of uid d')" by (auto dest: distinct_sessions_of simp: distinct_map)
  moreover have "distinct (newest_sessions uid n d)"
    using distinct_sessions_of [OF ok, of uid] by (simp add: newest_sessions_def distinct_map)
  ultimately have "length (sessions_of uid d') = length (newest_sessions uid n d)"
    using set by (metis distinct_card)
  then show "length (sessions_of uid d') = min (nat n) (length (sessions_of uid d))"
    by (simp add: newest_sessions_length)
qed

section \<open>Both statements together\<close>

definition limit_db :: "config \<Rightarrow> uuid \<Rightarrow> time \<Rightarrow> db \<Rightarrow> db" where
  "limit_db cfg uid now d =
     (let d1 = snd (projr (delete_sessions_beyond uid (MaxActiveSessions cfg) 0 now d))
      in snd (projr (delete_orphan_tokens uid 0 now d1)))"

lemma run_enforce_session_limit:
  assumes "sched w = []" and "0 < MaxActiveSessions cfg"
  shows "run_state (enforce_session_limit X cfg uid) w =
    ((), w\<lparr>draws := Suc (Suc (draws w)), db := limit_db cfg uid (pg_time (clock w)) (db w)\<rparr>)"
  using assms
  by (simp add: enforce_session_limit_def limit_db_def delete_sessions_beyond_def
      delete_orphan_tokens_def sessions_of_def) 

text \<open>What holds of the user's rows when the limit has been enforced.\<close>

definition within_limit :: "config \<Rightarrow> uuid \<Rightarrow> time \<Rightarrow> db \<Rightarrow> bool" where
  "within_limit cfg uid now d \<longleftrightarrow>
     int (length (sessions_of uid d)) \<le> MaxActiveSessions cfg \<and>
     (\<forall>t \<in> set (refresh_tokens d). t_user t = uid \<longrightarrow> now < t_expires t \<longrightarrow>
        t_hash t \<in> s_hash ` set (sessions_of uid d))"

lemma limit_db_within:
  assumes "db_ok d" and "0 < MaxActiveSessions cfg"
  shows "within_limit cfg uid now (limit_db cfg uid now d)"
proof -
  obtain d1 where d1: "delete_sessions_beyond uid (MaxActiveSessions cfg) 0 now d = Inr ((), d1)"
    by (simp add: delete_sessions_beyond_def)
  have "int (length (sessions_of uid d1)) \<le> MaxActiveSessions cfg"
    using sessions_of_after_limit(3) [OF assms(1) d1] assms(2) by simp
  then show ?thesis
    by (auto simp: within_limit_def limit_db_def d1 delete_orphan_tokens_def sessions_of_def)
qed

lemma limit_db_others:
  assumes "db_ok d" and "v \<noteq> uid"
  shows "sessions_of v (limit_db cfg uid now d) = sessions_of v d"
proof -
  obtain d1 where d1: "delete_sessions_beyond uid (MaxActiveSessions cfg) 0 now d = Inr ((), d1)"
    by (simp add: delete_sessions_beyond_def)
  show ?thesis
    using sessions_of_after_limit(2) [OF assms(1) d1 assms(2)]
    by (simp add: limit_db_def d1 delete_orphan_tokens_def sessions_of_def)
qed

lemma limit_db_survivors:
  assumes "db_ok d"
  shows "set (sessions_of uid (limit_db cfg uid now d)) = set (newest_sessions uid (MaxActiveSessions cfg) d)"
proof -
  obtain d1 where d1: "delete_sessions_beyond uid (MaxActiveSessions cfg) 0 now d = Inr ((), d1)"
    by (simp add: delete_sessions_beyond_def)
  show ?thesis
    using sessions_of_after_limit(1) [OF assms d1]
    by (simp add: limit_db_def d1 delete_orphan_tokens_def sessions_of_def)
qed

section \<open>Issuing tokens\<close>

definition add_session ::
  "'r ext \<Rightarrow> uuid \<Rightarrow> string \<Rightarrow> string \<Rightarrow> string \<Rightarrow> string \<Rightarrow> uuid \<Rightarrow> time \<Rightarrow> db \<Rightarrow> db" where
  "add_session X uid h dev ip ua i now d =
     (case insert_session (inet_ok X) uid h dev ip ua i now d of Inl _ \<Rightarrow> d | Inr (_, d') \<Rightarrow> d')"

definition access_payload_for :: "'r ext \<Rightarrow> config \<Rightarrow> user \<Rightarrow> time \<Rightarrow> nat \<Rightarrow> payload" where
  "access_payload_for X cfg u now n = access_payload
     \<lparr>ac_uid = u_id u, ac_email = u_email u, ac_exp = numeric_date (now + access_ttl cfg),
      ac_iat = Some (numeric_date now), ac_nbf = numeric_date (now - 30 * nsSecond),
      ac_jti = uuid_string X (rand_uuid X n)\<rparr>"

definition refresh_payload_for :: "'r ext \<Rightarrow> config \<Rightarrow> user \<Rightarrow> time \<Rightarrow> nat \<Rightarrow> payload" where
  "refresh_payload_for X cfg u now n = refresh_payload
     \<lparr>rc_uid = u_id u, rc_jti = uuid_string X (rand_uuid X n),
      rc_exp = numeric_date (now + refresh_ttl cfg), rc_nbf = numeric_date (now - 30 * nsSecond)\<rparr>"

text \<open>
  A successful run of \<open>generateTokens\<close> on an undisturbed schedule, step by step: the two
  signatures, the refresh token's row, the session's row if its insertion succeeds, the
  limit. \<open>issued\<close> says so of the world before, the response and the world after.
\<close>

definition issued ::
  "'r ext \<Rightarrow> config \<Rightarrow> user \<Rightarrow> string \<Rightarrow> string \<Rightarrow> string \<Rightarrow> 'r world \<Rightarrow> auth_response \<Rightarrow> 'r world \<Rightarrow> bool" where
  "issued X cfg u dev ip ua w resp w' \<longleftrightarrow>
     jwt_sign X (private_key w) (access_payload_for X cfg u (clock w) (draws w)) = Inr (AccessToken resp) \<and>
     jwt_sign X (private_key w) (refresh_payload_for X cfg u (clock w) (Suc (draws w))) = Inr (RefreshToken resp) \<and>
     ExpiresAt resp = clock w + access_ttl cfg \<and>
     (\<exists>d1. insert_refresh_token (inet_ok X) (u_id u) (hash_token X (RefreshToken resp)) dev ip
            (clock w + refresh_ttl cfg) (rand_uuid X (draws w + 2)) (pg_time (clock w)) (db w) = Inr ((), d1) \<and>
          w' = w\<lparr>draws := draws w + 6,
                 db := limit_db cfg (u_id u) (pg_time (clock w))
                   (add_session X (u_id u) (hash_token X (RefreshToken resp)) dev ip ua
                      (rand_uuid X (draws w + 3)) (pg_time (clock w)) d1)\<rparr>)"

lemma run_session_create:
  assumes "sched w = []"
  shows "\<exists>r. run_state (session_create X (zero_session\<lparr>s_user := uid, s_hash := h, s_device := dev,
      s_ip := ip, s_agent := ua\<rparr>)) w =
    (r, w\<lparr>draws := Suc (draws w),
          db := add_session X uid h dev ip ua (rand_uuid X (draws w)) (pg_time (clock w)) (db w)\<rparr>)"
  using assms
  by (auto simp: session_create_def zero_session_def add_session_def split: sum.splits)

lemma generate_tokens_success:
  assumes sched: "sched w = []" and limit: "0 < MaxActiveSessions cfg"
    and run: "run_state (generate_tokens X cfg u dev ip ua) w = (Inr resp, w')"
  shows "issued X cfg u dev ip ua w resp w'"
proof -
  obtain at where at: "jwt_sign X (private_key w) (access_payload_for X cfg u (clock w) (draws w)) = Inr at"
    using run sched
    by (auto simp: generate_tokens_def generate_access_token_def access_payload_for_def Let_def
        split: sum.splits)
  let ?w1 = "w\<lparr>draws := Suc (draws w)\<rparr>"
  have a: "run_state (generate_access_token X (u_id u) (u_email u) (access_ttl cfg)) w =
      (Inr (at, clock w + access_ttl cfg), ?w1)"
    using at by (simp add: generate_access_token_def access_payload_for_def Let_def)
  obtain rt where rt: "jwt_sign X (private_key w) (refresh_payload_for X cfg u (clock w) (Suc (draws w))) = Inr rt"
    using run sched a
    by (auto simp: generate_tokens_def generate_refresh_token_def refresh_payload_for_def Let_def
        split: sum.splits)
  let ?w2 = "w\<lparr>draws := Suc (Suc (draws w))\<rparr>"
  have r: "run_state (generate_refresh_token X (u_id u) (refresh_ttl cfg)) ?w1 =
      (Inr (rt, clock w + refresh_ttl cfg), ?w2)"
    using rt by (simp add: generate_refresh_token_def refresh_payload_for_def Let_def)
  obtain d1 where d1: "insert_refresh_token (inet_ok X) (u_id u) (hash_token X rt) dev ip
      (clock w + refresh_ttl cfg) (rand_uuid X (Suc (Suc (draws w)))) (pg_time (clock w)) (db w) = Inr ((), d1)"
    using run sched a r by (auto simp: generate_tokens_def Let_def split: sum.splits)
  let ?w3 = "w\<lparr>draws := Suc (Suc (Suc (draws w))), db := d1\<rparr>"
  have "sched ?w3 = []" using sched by simp
  from run_session_create [OF this, where X = X and uid = "u_id u" and h = "hash_token X rt"
      and dev = dev and ip = ip and ua = ua] obtain x where
    s: "run_state (session_create X (zero_session\<lparr>s_user := u_id u, s_hash := hash_token X rt,
          s_device := dev, s_ip := ip, s_agent := ua\<rparr>)) ?w3 =
        (x, w\<lparr>draws := Suc (Suc (Suc (Suc (draws w)))),
              db := add_session X (u_id u) (hash_token X rt) dev ip ua
                (rand_uuid X (Suc (Suc (Suc (draws w))))) (pg_time (clock w)) d1\<rparr>)"
    by auto
  show ?thesis
    using run sched limit a r d1 s at rt
    by (auto simp: generate_tokens_def Let_def run_enforce_session_limit issued_def numeral_eq_Suc)
qed

section \<open>Logins and refreshes that succeed\<close>

lemma login_accepts:
  assumes "sched w = []" and "0 < MaxActiveSessions cfg"
    and "rd_get (redis_ops X) (clock w) (lockout_key (lr_email req)) (redis w) = None"
    and u: "find_user_by_email (lr_email req) (db w) = Some u" "u_active u"
      "bcrypt_compare X (u_hash u) (lr_password req)"
    and at: "jwt_sign X (private_key w) (access_payload_for X cfg u (clock w) (draws w)) = Inr at"
    and rt: "jwt_sign X (private_key w) (refresh_payload_for X cfg u (clock w) (Suc (draws w))) = Inr rt"
    and st: "insert_refresh_token (inet_ok X) (u_id u) (hash_token X rt) dev ip
      (clock w + refresh_ttl cfg) (rand_uuid X (Suc (Suc (draws w)))) (pg_time (clock w)) (db w) = Inr ((), d1)"
  shows "\<exists>resp w'. run_state (login X cfg req dev ip ua) w = (Inr resp, w') \<and>
    AccessToken resp = at \<and> RefreshToken resp = rt"
  using assms
  by (simp add: login_def check_login_attempts_def redis_exists_def user_find_by_email_def redis_del_def
    generate_tokens_def generate_access_token_def generate_refresh_token_def Let_def session_create_def
    access_payload_for_def [symmetric] refresh_payload_for_def [symmetric] run_enforce_session_limit
    split: sum.splits prod.splits)

lemma refresh_accepts:
  assumes "sched w = []" and "0 < MaxActiveSessions cfg"
    and "find_refresh_token (hash_token X tok) (db w) = Some t" and "clock w \<le> t_expires t"
    and "find_user_by_id (t_user t) (db w) = Some u"
    and at: "jwt_sign X (private_key w) (access_payload_for X cfg u (clock w) (draws w + 2)) = Inr at"
    and rt: "jwt_sign X (private_key w) (refresh_payload_for X cfg u (clock w) (draws w + 3)) = Inr rt"
    and st: "insert_refresh_token (inet_ok X) (u_id u) (hash_token X rt) dev ip
      (clock w + refresh_ttl cfg) (rand_uuid X (draws w + 4)) (pg_time (clock w))
      ((db w)\<lparr>sessions := filter (\<lambda>s. s_hash s \<noteq> hash_token X tok) (sessions (db w)),
         refresh_tokens := filter (\<lambda>x. t_id x \<noteq> t_id t) (refresh_tokens (db w))\<rparr>) = Inr ((), d1)"
  shows "\<exists>resp w'. run_state (refresh_tokens_op X cfg tok dev ip ua) w = (Inr resp, w') \<and>
    AccessToken resp = at \<and> RefreshToken resp = rt"
  using assms
  by (simp add: refresh_tokens_op_def session_delete_by_hash_def delete_session_by_hash_def
    delete_refresh_token_by_id_def user_find_by_id_def find_user_by_id_def
    generate_tokens_def generate_access_token_def generate_refresh_token_def Let_def session_create_def
    access_payload_for_def [symmetric] refresh_payload_for_def [symmetric] run_enforce_session_limit
    numeral_eq_Suc split: sum.splits prod.splits)

text \<open>A login and a refresh of the demo user, which the witnesses run.\<close>

definition demo_tokens :: "time \<Rightarrow> nat \<Rightarrow> (payload \<times> string) list" where
  "demo_tokens t n = [(access_payload_for (demo_ext []) demo_config alice t n, ''A''),
     (refresh_payload_for (demo_ext []) demo_config alice t (Suc n), ''R'')]"

lemmas demo_token_eval = demo_eval demo_tokens_def access_payload_for_def refresh_payload_for_def
  access_payload_def refresh_payload_def

lemma demo_login_run:
  "\<exists>resp w'. run_state (login (demo_ext (demo_tokens 0 1)) demo_config demo_login ''d'' ''1'' ''x'')
     (demo_world demo_db 0) = (Inr resp, w') \<and> AccessToken resp = ''A'' \<and> RefreshToken resp = ''R''"
  by (rule login_accepts [where u = alice]) (simp_all add: demo_token_eval insert_refresh_token_def)

definition demo_token :: refresh_token where
  "demo_token = \<lparr>t_id = 9, t_user = 1, t_hash = ''54'', t_device = ''d'', t_ip = ''1'',
     t_expires = 1000, t_created = 0\<rparr>"

definition demo_token_db :: db where
  "demo_token_db = demo_db\<lparr>refresh_tokens := [demo_token]\<rparr>"

lemma demo_token_db_ok: "db_ok demo_token_db"
  by (simp add: db_ok_def ok_defs demo_token_db_def demo_token_def demo_db_def empty_db_def alice_def)

lemma demo_refresh_run:
  "\<exists>resp w'. run_state (refresh_tokens_op (demo_ext (demo_tokens 0 3)) demo_config ''T'' ''d'' ''1'' ''x'')
     (demo_world demo_token_db 0) = (Inr resp, w') \<and> AccessToken resp = ''A'' \<and> RefreshToken resp = ''R''"
  by (rule refresh_accepts [where u = alice and t = demo_token])
    (simp_all add: demo_token_eval demo_token_db_def demo_token_def find_refresh_token_def
      insert_refresh_token_def char_of_def bit_0)

section \<open>Login and refresh\<close>

lemma db_same: "state_io_rel (on_db (same (\<lambda>d. d))) m \<Longrightarrow> run_state m w = (r, w') \<Longrightarrow> db w' = db w"
  by (drule state_io_relD) (auto simp: on_db_def same_def)

lemma check_login_attempts_db: "state_io_rel (on_db (same (\<lambda>d. d))) (check_login_attempts X email)"
  unfolding check_login_attempts_def by (auto intro!: io_intros)

lemma record_failed_attempt_db [io_intros]:
  "io_preorder P \<Longrightarrow> state_io_rel (on_db P) (record_failed_attempt X email)"
  unfolding record_failed_attempt_def by (auto intro!: io_intros)

lemma login_accepted_password:
  assumes "run_state (login X cfg req dev ip ua) w = (Inr resp, w')"
  shows "\<exists>u. find_user_by_email (lr_email req) (db w) = Some u \<and> u_active u \<and>
    bcrypt_compare X (u_hash u) (lr_password req)"
proof -
  obtain r w1 where c: "run_state (check_login_attempts X (lr_email req)) w = (r, w1)" by fastforce
  have d1: "db w1 = db w" using check_login_attempts_db c by (rule db_same)
  obtain f w2 where f: "run_state (user_find_by_email (lr_email req)) w1 = (f, w2)" by fastforce
  from assms c f obtain u where u: "f = (Some u, None)" and
    "u_active u" and "bcrypt_compare X (u_hash u) (lr_password req)"
    unfolding login_def
    by (cases f; cases "fst f"; cases "snd f") (auto split: sum.splits if_splits prod.splits)
  moreover have "find_user_by_email (lr_email req) (db w) = Some u"
    using f u d1 by (auto simp: user_find_by_email_def sql_row_def Let_def
        split: prod.splits if_splits option.splits dest!: next_call_frame)
  ultimately show ?thesis by blast
qed

text \<open>
  C3: whatever fails around it, a login is only answered with tokens when the e-mail belongs
  to a user who is active and whose password hash accepts the given password.
\<close>
theorem login_requires_password:
  assumes "run_state (login X cfg req dev ip ua) w = (Inr resp, w')"
  shows "\<exists>u. find_user_by_email (lr_email req) (db w) = Some u \<and> u_active u \<and>
    bcrypt_compare X (u_hash u) (lr_password req)"
  using assms by (rule login_accepted_password)

theorem login_requires_password_witness:
  "\<exists>u. find_user_by_email ''a'' demo_db = Some u \<and> u_active u \<and>
     bcrypt_compare (demo_ext (demo_tokens 0 1)) (u_hash u) ''pw''"
proof -
  obtain resp w' where "run_state (login (demo_ext (demo_tokens 0 1)) demo_config demo_login ''d'' ''1'' ''x'')
      (demo_world demo_db 0) = (Inr resp, w')"
    using demo_login_run by blast
  from login_requires_password [OF this] show ?thesis by (simp add: demo_login_def)
qed

lemma login_success:
  assumes "sched w = []" and "0 < MaxActiveSessions cfg"
    and run: "run_state (login X cfg req dev ip ua) w = (Inr resp, w')"
  obtains u r where "find_user_by_email (lr_email req) (db w) = Some u"
    and "issued X cfg u dev ip ua (w\<lparr>redis := r\<rparr>) resp w'"
proof -
  obtain u where u: "find_user_by_email (lr_email req) (db w) = Some u" "u_active u"
      "bcrypt_compare X (u_hash u) (lr_password req)"
    using login_accepted_password [OF run] by blast
  obtain c w1 where c: "run_state (check_login_attempts X (lr_email req)) w = (c, w1)" by fastforce
  with assms(1) have w1: "w1 = w" and "c = Inr ()"
    using run by (auto simp: check_login_attempts_def login_def redis_exists_def redis_ttl_def
        Let_def split: if_splits)
  with run c u assms(1) obtain r where
    "run_state (generate_tokens X cfg u dev ip ua) (w\<lparr>redis := r\<rparr>) = (Inr resp, w')"
    by (auto simp: login_def user_find_by_email_def redis_del_def)
  with assms(1,2) have "issued X cfg u dev ip ua (w\<lparr>redis := r\<rparr>) resp w'"
    by (intro generate_tokens_success) auto
  with u(1) that show ?thesis by blast
qed

lemma refresh_success:
  assumes "sched w = []" and "0 < MaxActiveSessions cfg"
    and run: "run_state (refresh_tokens_op X cfg tok dev ip ua) w = (Inr resp, w')"
  obtains t u where "find_refresh_token (hash_token X tok) (db w) = Some t"
    and "clock w \<le> t_expires t" and "find_user_by_id (t_user t) (db w) = Some u"
    and "issued X cfg u dev ip ua (w\<lparr>draws := draws w + 2,
      db := (db w)\<lparr>sessions := filter (\<lambda>s. s_hash s \<noteq> hash_token X tok) (sessions (db w)),
                   refresh_tokens := filter (\<lambda>x. t_id x \<noteq> t_id t) (refresh_tokens (db w))\<rparr>\<rparr>) resp w'"
proof -
  from run assms(1) obtain t where t: "find_refresh_token (hash_token X tok) (db w) = Some t"
    and e: "clock w \<le> t_expires t"
    by (auto simp: refresh_tokens_op_def Let_def delete_refresh_token_by_id_def
        split: option.splits if_splits)
  let ?w1 = "w\<lparr>draws := draws w + 2,
      db := (db w)\<lparr>sessions := filter (\<lambda>s. s_hash s \<noteq> hash_token X tok) (sessions (db w)),
                   refresh_tokens := filter (\<lambda>x. t_id x \<noteq> t_id t) (refresh_tokens (db w))\<rparr>\<rparr>"
  from run assms(1) t e obtain u where u: "find_user_by_id (t_user t) (db w) = Some u"
    and g: "run_state (generate_tokens X cfg u dev ip ua) ?w1 = (Inr resp, w')"
    by (auto simp: refresh_tokens_op_def Let_def session_delete_by_hash_def delete_session_by_hash_def
        delete_refresh_token_by_id_def user_find_by_id_def find_user_by_id_def
        split: option.splits)
  have "sched ?w1 = []" using assms(1) by simp
  from generate_tokens_success [OF this assms(2) g] t e u that show ?thesis by blast
qed

section \<open>The session limit\<close>

lemma add_session_ok:
  assumes "db_ok d"
  shows "db_ok (add_session X uid h dev ip ua i now d)"
  using stmt_keepsD [OF insert_session_ok assms, of "inet_ok X" uid h dev ip ua i now]
  by (auto simp: add_session_def assms split: sum.splits)

lemma add_session_others: "v \<noteq> uid \<Longrightarrow> sessions_of v (add_session X uid h dev ip ua i now d) = sessions_of v d"
  by (auto simp: add_session_def insert_session_def sessions_of_def split: sum.splits if_splits)

lemma insert_refresh_token_sessions:
  "insert_refresh_token iok uid h dv ip e i now d = Inr ((), d') \<Longrightarrow> sessions d' = sessions d \<and> users d' = users d"
  by (auto simp: insert_refresh_token_def split: if_splits)

lemma issued_limit:
  assumes "db_ok (db w)" and "0 < MaxActiveSessions cfg" and "issued X cfg u dev ip ua w resp w'"
  shows "within_limit cfg (u_id u) (pg_time (clock w)) (db w') \<and> db_ok (db w') \<and>
    (\<forall>v. v \<noteq> u_id u \<longrightarrow> sessions_of v (db w') = sessions_of v (db w))"
proof -
  let ?now = "pg_time (clock w)" and ?h = "hash_token X (RefreshToken resp)"
  obtain d1 where d1: "insert_refresh_token (inet_ok X) (u_id u) ?h dev ip (clock w + refresh_ttl cfg)
      (rand_uuid X (draws w + 2)) ?now (db w) = Inr ((), d1)"
    and w': "w' = w\<lparr>draws := draws w + 6, db := limit_db cfg (u_id u) ?now
      (add_session X (u_id u) ?h dev ip ua (rand_uuid X (draws w + 3)) ?now d1)\<rparr>"
    using assms(3) by (auto simp: issued_def)
  let ?d2 = "add_session X (u_id u) ?h dev ip ua (rand_uuid X (draws w + 3)) ?now d1"
  have "db_ok d1" using insert_refresh_token_ok assms(1) d1 by (rule stmt_keepsD)
  then have ok: "db_ok ?d2" by (rule add_session_ok)
  obtain d3 where d3: "delete_sessions_beyond (u_id u) (MaxActiveSessions cfg) 0 ?now ?d2 = Inr ((), d3)"
    by (simp add: delete_sessions_beyond_def)
  have "db_ok d3" using delete_session_statements_ok(3) ok d3 by (rule stmt_keepsD)
  moreover obtain d4 where d4: "delete_orphan_tokens (u_id u) 0 ?now d3 = Inr ((), d4)"
    by (simp add: delete_orphan_tokens_def)
  ultimately have "db_ok d4" using delete_token_statements_ok(3) by (blast dest: stmt_keepsD)
  moreover have "db w' = d4" by (simp add: w' limit_db_def d3 d4)
  moreover have "sessions_of v (db w') = sessions_of v (db w)" if "v \<noteq> u_id u" for v
  proof -
    have "sessions_of v (db w') = sessions_of v ?d2" using limit_db_others [OF ok that] by (simp add: w')
    also have "\<dots> = sessions_of v d1" by (rule add_session_others [OF that])
    also have "\<dots> = sessions_of v (db w)"
      using insert_refresh_token_sessions [OF d1] by (simp add: sessions_of_def)
    finally show ?thesis .
  qed
  ultimately show ?thesis
    using limit_db_within [OF ok assms(2), of "u_id u" ?now] by (simp add: w')
qed

text \<open>
  C1: after a successful login the user has at most \<open>MaxActiveSessions\<close> sessions, every
  refresh token of the user that has not expired belongs to one of them, and no other
  user's sessions changed.
\<close>
theorem login_enforces_session_limit:
  assumes "db_ok (db w)" and "sched w = []" and "0 < MaxActiveSessions cfg"
    and "run_state (login X cfg req dev ip ua) w = (Inr resp, w')"
  shows "\<exists>u. find_user_by_email (lr_email req) (db w) = Some u \<and>
    int (length (sessions_of (u_id u) (db w'))) \<le> MaxActiveSessions cfg \<and>
    (\<forall>t \<in> set (refresh_tokens (db w')). t_user t = u_id u \<longrightarrow> pg_time (clock w) < t_expires t \<longrightarrow>
       t_hash t \<in> s_hash ` set (sessions_of (u_id u) (db w'))) \<and>
    (\<forall>v. v \<noteq> u_id u \<longrightarrow> sessions_of v (db w') = sessions_of v (db w))"
proof -
  obtain u r where u: "find_user_by_email (lr_email req) (db w) = Some u"
    and i: "issued X cfg u dev ip ua (w\<lparr>redis := r\<rparr>) resp w'"
    using assms(2-4) by (rule login_success)
  from issued_limit [OF _ assms(3) i] assms(1) u show ?thesis
    by (auto simp: within_limit_def)
qed

theorem login_enforces_session_limit_witness:
  "\<exists>w'. int (length (sessions_of 1 (db w'))) \<le> 2 \<and>
     (\<exists>resp. run_state (login (demo_ext (demo_tokens 0 1)) demo_config demo_login ''d'' ''1'' ''x'')
        (demo_world demo_db 0) = (Inr resp, w'))"
proof -
  obtain resp w' where run: "run_state (login (demo_ext (demo_tokens 0 1)) demo_config demo_login ''d'' ''1'' ''x'')
      (demo_world demo_db 0) = (Inr resp, w')"
    using demo_login_run by blast
  have u: "find_user_by_email (lr_email demo_login) demo_db = Some alice" by (simp add: demo_eval)
  have "int (length (sessions_of (u_id alice) (db w'))) \<le> 2"
    using login_enforces_session_limit [OF _ _ _ run] demo_db_ok u by auto
  with run show ?thesis by (auto simp: alice_def)
qed

section \<open>Rotation of refresh tokens\<close>

lemma limit_db_tokens: "set (refresh_tokens (limit_db cfg uid now d)) \<subseteq> set (refresh_tokens d)"
  by (auto simp: limit_db_def delete_sessions_beyond_def delete_orphan_tokens_def)

lemma add_session_tokens: "refresh_tokens (add_session X uid h dev ip ua i now d) = refresh_tokens d"
  by (auto simp: add_session_def insert_session_def split: sum.splits if_splits)

lemma issued_tokens:
  assumes "issued X cfg u dev ip ua w resp w'"
  shows "t_hash ` set (refresh_tokens (db w'))
    \<subseteq> insert (hash_token X (RefreshToken resp)) (t_hash ` set (refresh_tokens (db w)))"
proof -
  let ?h = "hash_token X (RefreshToken resp)"
  obtain d1 where d1: "insert_refresh_token (inet_ok X) (u_id u) ?h dev ip (clock w + refresh_ttl cfg)
      (rand_uuid X (draws w + 2)) (pg_time (clock w)) (db w) = Inr ((), d1)"
    and "refresh_tokens (db w') = refresh_tokens (limit_db cfg (u_id u) (pg_time (clock w))
      (add_session X (u_id u) ?h dev ip ua (rand_uuid X (draws w + 3)) (pg_time (clock w)) d1))"
    using assms unfolding issued_def by auto
  moreover have "t_hash ` set (refresh_tokens d1) \<subseteq> insert ?h (t_hash ` set (refresh_tokens (db w)))"
    using d1 by (auto simp: insert_refresh_token_def split: if_splits)
  moreover note limit_db_tokens [of cfg "u_id u" "pg_time (clock w)"
      "add_session X (u_id u) ?h dev ip ua (rand_uuid X (draws w + 3)) (pg_time (clock w)) d1"]
  ultimately show ?thesis unfolding add_session_tokens by (metis (no_types) image_mono subset_trans)
qed

lemma used_token_is_gone:
  assumes "db_ok (db w)" and "sched w = []" and "0 < MaxActiveSessions cfg"
    and "run_state (refresh_tokens_op X cfg tok dev ip ua) w = (Inr resp, w')"
    and "hash_token X (RefreshToken resp) \<noteq> hash_token X tok"
  shows "find_refresh_token (hash_token X tok) (db w') = None"
proof -
  obtain t u where t: "find_refresh_token (hash_token X tok) (db w) = Some t"
    and i: "issued X cfg u dev ip ua (w\<lparr>draws := draws w + 2,
      db := (db w)\<lparr>sessions := filter (\<lambda>s. s_hash s \<noteq> hash_token X tok) (sessions (db w)),
                   refresh_tokens := filter (\<lambda>x. t_id x \<noteq> t_id t) (refresh_tokens (db w))\<rparr>\<rparr>) resp w'"
    using assms(2-4) by (rule refresh_success)
  from t have "t \<in> set (refresh_tokens (db w))" and "t_hash t = hash_token X tok"
    by (auto simp: find_refresh_token_def dest: find_Some_in)
  then have "\<forall>x \<in> set (refresh_tokens (db w)). t_hash x = hash_token X tok \<longrightarrow> t_id x = t_id t"
    using db_okD(10) [OF assms(1)] by (auto simp: distinct_map inj_on_def)
  with issued_tokens [OF i] assms(5)
  have "hash_token X tok \<notin> t_hash ` set (refresh_tokens (db w'))" by auto
  then show ?thesis unfolding find_refresh_token_def find_None_iff by force
qed

end
