(* ===== verification/Lockout.thy ===== *)
theory Lockout
  imports SessionLimit
begin

text \<open>
  The lock-out of an e-mail address after failed logins: the two Redis keys seen as a
  counter of recent failures and a lock, and the three ways in which a login moves them.
\<close>

section \<open>The counter and the lock\<close>

definition failures :: "key_space \<Rightarrow> time \<Rightarrow> string \<Rightarrow> int option" where
  "failures m t email = (case live m t (attempts_key email) of
     None \<Rightarrow> Some 0 | Some (RInt n, _) \<Rightarrow> Some n | Some (RStr _, _) \<Rightarrow> None)"

definition locked :: "key_space \<Rightarrow> time \<Rightarrow> string \<Rightarrow> bool" where
  "locked m t email \<longleftrightarrow> live m t (lockout_key email) \<noteq> None"

lemma keys_differ [simp]:
  "attempts_key e \<noteq> lockout_key e'" "lockout_key e' \<noteq> attempts_key e"
  "attempts_key e = attempts_key e' \<longleftrightarrow> e = e'" "lockout_key e = lockout_key e' \<longleftrightarrow> e = e'"
  by (simp_all add: attempts_key_def lockout_key_def)

lemma fifteen_minutes [simp]: "0 < 15 * nsMinute" "nsSecond dvd 15 * nsMinute"
  by (simp_all add: duration_defs)

text \<open>A login fails on its password: no such user, or an active user's hash rejects it.\<close>

definition wrong_password :: "'r ext \<Rightarrow> db \<Rightarrow> login_request \<Rightarrow> bool" where
  "wrong_password X d req \<longleftrightarrow> (case find_user_by_email (lr_email req) d of
     None \<Rightarrow> True | Some u \<Rightarrow> u_active u \<and> \<not> bcrypt_compare X (u_hash u) (lr_password req))"

context services
begin

definition failed_redis :: "string \<Rightarrow> time \<Rightarrow> 'r \<Rightarrow> 'r" where
  "failed_redis email t r =
     (let r1 = rd_expire (redis_ops X) t (attempts_key email) (15 * nsMinute)
                 (snd (rd_incr (redis_ops X) t (attempts_key email) r))
      in if 5 \<le> (case fst (rd_incr (redis_ops X) t (attempts_key email) r) of None \<Rightarrow> 0 | Some n \<Rightarrow> n)
         then rd_set (redis_ops X) t (lockout_key email) (RStr ''locked'') (15 * nsMinute) r1 else r1)"

lemma run_record_failed_attempt:
  "sched w = [] \<Longrightarrow> run_state (record_failed_attempt X email) w =
     ((), w\<lparr>redis := failed_redis email (clock w) (redis w)\<rparr>)"
  by (simp add: record_failed_attempt_def redis_incr_def redis_expire_def redis_set_def
      failed_redis_def Let_def split: option.splits)

lemma failed_redis_view:
  assumes "failures (view r) t email = Some n" and "0 \<le> n" and "n < 2 ^ 63 - 1"
  shows "view (failed_redis email t r) =
    (let m = (view r)(attempts_key email \<mapsto> (RInt (n + 1), Some (t + 15 * nsMinute)))
     in if 5 \<le> n + 1 then m(lockout_key email \<mapsto> (RStr ''locked'', Some (t + 15 * nsMinute))) else m)"
proof (cases "live (view r) t (attempts_key email)")
  case None
  with assms(1) have "n = 0" by (simp add: failures_def)
  with None show ?thesis
    using incr_new [OF None] count_new [OF None, of "15 * nsMinute"]
    by (simp add: failed_redis_def Let_def)
next
  case (Some p)
  with assms(1) obtain x where l: "live (view r) t (attempts_key email) = Some (RInt n, x)"
    by (cases p) (auto simp: failures_def split: redis_value.splits)
  show ?thesis
    using incr_old [OF l assms(3)] count_old [OF l assms(3), of "15 * nsMinute"]
    by (auto simp: failed_redis_def Let_def set_view_sec)
qed

text \<open>A login that finds the lock changes nothing.\<close>

lemma locked_login:
  assumes "sched w = []" and "locked (view (redis w)) (clock w) (lr_email req)"
  shows "\<exists>m. run_state (login X cfg req dev ip ua) w = (Inl (LockedOut m), w)"
  using assms
  by (auto simp: login_def check_login_attempts_def redis_exists_def redis_ttl_def get_view
      locked_def Let_def)

lemma failed_login:
  assumes "sched w = []" and "\<not> locked (view (redis w)) (clock w) (lr_email req)"
    and "wrong_password X (db w) req"
  shows "run_state (login X cfg req dev ip ua) w =
    (Inl (Msg ''invalid email or password''),
     w\<lparr>redis := failed_redis (lr_email req) (clock w) (redis w)\<rparr>)"
  using assms
  by (auto simp: login_def check_login_attempts_def redis_exists_def get_view locked_def
      user_find_by_email_def wrong_password_def run_record_failed_attempt Let_def
      split: option.splits)

lemma successful_login:
  assumes "sched w = []" and "0 < MaxActiveSessions cfg"
    and "run_state (login X cfg req dev ip ua) w = (Inr resp, w')"
  shows "view (redis w') =
    (view (redis w))(attempts_key (lr_email req) := None, lockout_key (lr_email req) := None)"
proof -
  obtain u where u: "find_user_by_email (lr_email req) (db w) = Some u" "u_active u"
      "bcrypt_compare X (u_hash u) (lr_password req)"
    using login_accepted_password [OF assms(3)] by blast
  let ?r = "rd_del (redis_ops X) (clock w) (lockout_key (lr_email req))
      (rd_del (redis_ops X) (clock w) (attempts_key (lr_email req)) (redis w))"
  have "run_state (generate_tokens X cfg u dev ip ua) (w\<lparr>redis := ?r\<rparr>) = (Inr resp, w')"
    using assms u by (auto simp: login_def check_login_attempts_def redis_exists_def redis_ttl_def
        user_find_by_email_def redis_del_def Let_def split: if_splits)
  with assms have "issued X cfg u dev ip ua (w\<lparr>redis := ?r\<rparr>) resp w'"
    by (intro generate_tokens_success) auto
  then have "redis w' = ?r" by (auto simp: issued_def)
  then show ?thesis by (simp add: del_view)
qed

end

section \<open>A series of failed logins\<close>

text \<open>Logins of one address, each a while after the one before.\<close>

fun login_series ::
  "'r ext \<Rightarrow> config \<Rightarrow> string \<Rightarrow> string \<Rightarrow> string \<Rightarrow> (duration \<times> login_request) list \<Rightarrow> 'r world \<Rightarrow> 'r world" where
  "login_series X cfg dev ip ua [] w = w"
| "login_series X cfg dev ip ua ((dt, req) # rest) w =
     login_series X cfg dev ip ua rest
       (snd (run_state (login X cfg req dev ip ua) (w\<lparr>clock := clock w + dt\<rparr>)))"

definition failing_series :: "'r ext \<Rightarrow> db \<Rightarrow> string \<Rightarrow> (duration \<times> login_request) list \<Rightarrow> bool" where
  "failing_series X d email xs \<longleftrightarrow> (\<forall>(dt, req) \<in> set xs.
     0 \<le> dt \<and> dt < 15 * nsMinute \<and> lr_email req = email \<and> wrong_password X d req)"

context services
begin

lemma series_locks:
  assumes "sched w = []" and "failing_series X (db w) email xs" and "xs \<noteq> []"
    and "live (view (redis w)) (clock w) (lockout_key email) = None"
    and "n = 0 \<and> live (view (redis w)) (clock w) (attempts_key email) = None \<or>
      0 < n \<and> view (redis w) (attempts_key email) = Some (RInt n, Some (clock w + 15 * nsMinute))"
    and "n + int (length xs) = 5"
  shows "\<exists>r t. login_series X cfg dev ip ua xs w = w\<lparr>redis := r, clock := t\<rparr> \<and>
    view r (lockout_key email) = Some (RStr ''locked'', Some (t + 15 * nsMinute))"
  using assms
proof (induction xs arbitrary: w n)
  case (Cons x xs)
  obtain dt req where x: "x = (dt, req)" by fastforce
  let ?w = "w\<lparr>clock := clock w + dt\<rparr>" and ?m = "view (redis w)"
  let ?r = "failed_redis email (clock w + dt) (redis w)"
  from Cons.prems(2) x have dt: "0 \<le> dt" "dt < 15 * nsMinute" and req: "lr_email req = email"
    and wr: "wrong_password X (db w) req" and fs: "failing_series X (db w) email xs"
    by (auto simp: failing_series_def)
  have nl: "\<not> locked ?m (clock w + dt) email"
    using live_later [OF Cons.prems(4), of "clock w + dt"] dt(1) by (simp add: locked_def)
  have fl: "failures ?m (clock w + dt) email = Some n"
    using Cons.prems(5)
  proof
    assume "n = 0 \<and> live ?m (clock w) (attempts_key email) = None"
    then show ?thesis
      using dt(1) live_later [of ?m "clock w" "attempts_key email" "clock w + dt"] by (simp add: failures_def)
  next
    assume "0 < n \<and> ?m (attempts_key email) = Some (RInt n, Some (clock w + 15 * nsMinute))"
    then show ?thesis using dt(2) by (auto simp: failures_def live_def)
  qed
  have n: "0 \<le> n" "n < 2 ^ 63 - 1" using Cons.prems(5,6) by auto
  note v = failed_redis_view [OF fl n]
  have run: "snd (run_state (login X cfg req dev ip ua) ?w) = ?w\<lparr>redis := ?r\<rparr>"
    using failed_login [of ?w req] Cons.prems(1) nl wr req by simp
  show ?case
  proof (cases xs)
    case Nil
    then have "5 \<le> n + 1" using Cons.prems(6) by simp
    then show ?thesis using Nil x run v
      by (intro exI [of _ ?r] exI [of _ "clock w + dt"]) (auto simp: Let_def)
  next
    case (Cons y ys)
    then have "\<not> 5 \<le> n + 1" using Cons.prems(6) by simp
    with v have v': "view ?r = ?m(attempts_key email \<mapsto> (RInt (n + 1), Some (clock w + dt + 15 * nsMinute)))"
      by (simp add: Let_def)
    have lk: "live (view ?r) (clock w + dt) (lockout_key email) = None"
      using nl unfolding locked_def v' by (metis keys_differ(2) live_upd_other)
    have ak: "view ?r (attempts_key email) = Some (RInt (n + 1), Some (clock w + dt + 15 * nsMinute))"
      by (simp add: v')
    have "\<exists>r t. login_series X cfg dev ip ua xs (?w\<lparr>redis := ?r\<rparr>) = ?w\<lparr>redis := ?r, redis := r, clock := t\<rparr> \<and>
      view r (lockout_key email) = Some (RStr ''locked'', Some (t + 15 * nsMinute))"
    proof (rule Cons.IH [of _ "n + 1"])
      show "xs \<noteq> []" using Cons by simp
    qed (use Cons.prems(1,6) fs ak lk n in simp_all)
    then show ?thesis using x run by simp
  qed
qed simp

end

text \<open>
  C5: five failed logins for an address, each less than fifteen minutes after the one
  before, lock it: for fifteen minutes after the fifth every login for it is refused, also
  one with the right password, and changes nothing.
\<close>
theorem five_failures_lock_out:
  assumes "services X view" and "sched w = []"
    and "live (view (redis w)) (clock w) (attempts_key email) = None"
    and "live (view (redis w)) (clock w) (lockout_key email) = None"
    and "length xs = 5" and "failing_series X (db w) email xs"
    and "w' = login_series X cfg dev ip ua xs w"
    and "0 \<le> dt" and "dt < 15 * nsMinute" and "lr_email req = email"
  shows "\<exists>m. run_state (login X cfg' req dev' ip' ua') (w'\<lparr>clock := clock w' + dt\<rparr>) =
    (Inl (LockedOut m), w'\<lparr>clock := clock w' + dt\<rparr>)"
proof -
  have "\<exists>r t. login_series X cfg dev ip ua xs w = w\<lparr>redis := r, clock := t\<rparr> \<and>
    view r (lockout_key email) = Some (RStr ''locked'', Some (t + 15 * nsMinute))"
    using assms(2-6) by (intro services.series_locks [OF assms(1), where n = 0]) auto
  then show ?thesis
    using assms(2,7-10) by (intro services.locked_login [OF assms(1)]) (auto simp: locked_def live_def)
qed

theorem five_failures_lock_out_witness:
  "\<exists>m w'. w' = login_series (demo_ext (demo_tokens 0 1)) demo_config ''d'' ''1'' ''x''
       (replicate 5 (nsMinute, demo_login\<lparr>lr_password := ''guess''\<rparr>)) (demo_world demo_db 0) \<and>
     run_state (login (demo_ext (demo_tokens 0 1)) demo_config demo_login ''d'' ''1'' ''x'')
       (w'\<lparr>clock := clock w' + 14 * nsMinute\<rparr>) = (Inl (LockedOut m), w'\<lparr>clock := clock w' + 14 * nsMinute\<rparr>)"
proof -
  have "failing_series (demo_ext (demo_tokens 0 1)) demo_db ''a''
      (replicate 5 (nsMinute, demo_login\<lparr>lr_password := ''guess''\<rparr>))"
    by (simp add: failing_series_def wrong_password_def demo_eval duration_defs)
  then show ?thesis
    using five_failures_lock_out [OF demo.services_axioms, where w = "demo_world demo_db 0"
        and email = "''a''" and dt = "14 * nsMinute" and req = demo_login]
    by (simp add: live_def demo_login_def duration_defs)
qed

text \<open>
  A successful login forgets the failures: the counter of its address starts at nothing
  again and no lock is left, while the keys of other addresses stay as they are.
\<close>
lemma success_clears_failures:
  assumes "services X view" and "sched w = []" and "0 < MaxActiveSessions cfg"
    and "run_state (login X cfg req dev ip ua) w = (Inr resp, w')"
  shows "failures (view (redis w')) t (lr_email req) = Some 0 \<and>
    \<not> locked (view (redis w')) t (lr_email req) \<and>
    (email \<noteq> lr_email req \<longrightarrow> failures (view (redis w')) t email = failures (view (redis w)) t email \<and>
       locked (view (redis w')) t email = locked (view (redis w)) t email)"
  using services.successful_login [OF assms] by (auto simp: failures_def locked_def live_def)

end
