(* ===== verification/AuthProps.thy ===== *)
theory AuthProps
  imports Lockout
begin

text \<open>
  What the authentication service guarantees and what it does not: integrity of the tables
  under every schedule, registration, the life of the issued tokens, refreshing, logout.
\<close>

section \<open>Integrity of the tables\<close>

lemma auth_service_ok [io_intros]:
  "state_io_rel (on_db (keeps db_ok)) (enforce_session_limit X cfg uid)"
  "state_io_rel (on_db (keeps db_ok)) (record_failed_attempt X email)"
  "state_io_rel (on_db (keeps db_ok)) (check_login_attempts X email)"
  unfolding enforce_session_limit_def record_failed_attempt_def check_login_attempts_def Let_def
  by (intro io_intros db_keeps io_preorder_on_db io_preorder_keeps)+

lemma generate_tokens_ok [io_intros]:
  "state_io_rel (on_db (keeps db_ok)) (generate_tokens X cfg u dev ip ua)"
  unfolding generate_tokens_def Let_def case_prod_beta
  by (intro io_intros db_keeps io_preorder_on_db io_preorder_keeps)+

lemma auth_operations_ok [io_intros]:
  "state_io_rel (on_db (keeps db_ok)) (register X cfg rr)"
  "state_io_rel (on_db (keeps db_ok)) (login X cfg req dev ip ua)"
  "state_io_rel (on_db (keeps db_ok)) (refresh_tokens_op X cfg tok dev ip ua)"
  "state_io_rel (on_db (keeps db_ok)) (logout X at rt)"
  unfolding register_def login_def refresh_tokens_op_def logout_def Let_def
  by (intro io_intros db_keeps io_preorder_on_db io_preorder_keeps)+

lemma on_db_keepsD: "state_io_rel (on_db (keeps I)) m \<Longrightarrow> I (db w) \<Longrightarrow> I (db (snd (run_state m w)))"
  by (simp add: state_io_rel_def on_db_def keeps_def)

text \<open>
  Whatever calls to the database or Redis fail or are cut off on the way, each operation
  of the service leaves the tables consistent: keys and unique columns stay distinct and
  every reference has its row.
\<close>
lemma auth_operations_keep_integrity:
  assumes "db_ok (db w)"
  shows "db_ok (db (snd (run_state (register X cfg rr) w))) \<and>
    db_ok (db (snd (run_state (login X cfg req dev ip ua) w))) \<and>
    db_ok (db (snd (run_state (refresh_tokens_op X cfg tok dev ip ua) w))) \<and>
    db_ok (db (snd (run_state (logout X at rt) w)))"
  using assms by (auto intro: on_db_keepsD [OF auth_operations_ok(1)] on_db_keepsD [OF auth_operations_ok(2)]
      on_db_keepsD [OF auth_operations_ok(3)] on_db_keepsD [OF auth_operations_ok(4)])

section \<open>Registration\<close>

lemma generate_tokens_bad_ip:
  assumes "\<not> inet_ok X ip"
  shows "\<exists>e. fst (run_state (generate_tokens X cfg u dev ip ua) w) = Inl e"
  using assms
  by (auto simp: generate_tokens_def sql_exec_def insert_refresh_token_def Let_def
      split: prod.splits sum.splits outcome.splits if_splits)

text \<open>
  C15: registration never answers with tokens, however the calls end: it stores the tokens
  with the empty text as the client's address, which the cast to \<open>inet\<close> rejects.
\<close>
theorem register_never_answers_tokens:
  assumes "\<not> inet_ok X ''''"
  shows "\<exists>e. fst (run_state (register X cfg rr) w) = Inl e"
  using generate_tokens_bad_ip [OF assms]
  by (auto simp: register_def split: prod.splits sum.splits)

theorem register_never_answers_tokens_witness:
  "\<exists>e. fst (run_state (register (demo_ext []) demo_config
     \<lparr>rr_email = ''b'', rr_password = ''pw'', rr_full_name = ''Bob''\<rparr>) (demo_world demo_db 0)) = Inl e"
  by (rule register_never_answers_tokens) simp

lemma find_snoc: "find P (xs @ [x]) = (case find P xs of None \<Rightarrow> if P x then Some x else None | Some y \<Rightarrow> Some y)"
  by (induction xs) auto

lemma token_statements_users:
  "stmt_rel (same users) (insert_refresh_token iok uid h dev ip e)"
  "stmt_rel (same users) (insert_session iok uid h dev ip ua)"
  "stmt_rel (same users) (delete_sessions_beyond uid n)"
  "stmt_rel (same users) (delete_orphan_tokens uid)"
  by (auto simp: stmt_rel_def same_def insert_refresh_token_def insert_session_def
      delete_sessions_beyond_def delete_orphan_tokens_def split: if_splits)

lemma generate_tokens_users: "state_io_rel (on_db (same users)) (generate_tokens X cfg u dev ip ua)"
  unfolding generate_tokens_def session_create_def enforce_session_limit_def Let_def case_prod_beta
  by (intro io_intros io_sql_exec_db token_statements_users io_preorder_on_db io_preorder_same)+

text \<open>
  With services that work, registering an unused address creates the account with the
  password's hash, active; whoever knows the password can then log in to it. The answer is
  an error nevertheless when the empty address is no \<open>inet\<close>.
\<close>
lemma register_creates_the_account:
  assumes "sched w = []" and "bcrypt_generate X (rr_password rr) bcryptCost (draws w) = Inr h"
    and "fits 255 (rr_email rr)" "fits 255 h" "fits 255 (rr_full_name rr)"
    and "rr_email rr \<notin> u_email ` set (users (db w))"
    and "rand_uuid X (Suc (draws w)) \<notin> u_id ` set (users (db w))"
    and "\<forall>pw cost salt h. bcrypt_generate X pw cost salt = Inr h \<longrightarrow> bcrypt_compare X h pw"
  shows "\<exists>u. find_user_by_email (rr_email rr) (db (snd (run_state (register X cfg rr) w))) = Some u \<and>
    u_active u \<and> u_name u = rr_full_name rr \<and> bcrypt_compare X (u_hash u) (rr_password rr) \<and>
    set (users (db w)) \<subseteq> set (users (db (snd (run_state (register X cfg rr) w))))"
proof -
  define u where "u = \<lparr>u_id = rand_uuid X (Suc (draws w)), u_email = rr_email rr, u_hash = h, u_name = rr_full_name rr,
    u_active = True, u_created = pg_time (clock w), u_updated = pg_time (clock w)\<rparr>"
  let ?d = "(db w)\<lparr>users := users (db w) @ [u]\<rparr>"
  obtain v where r: "run_state (register X cfg rr) w =
      run_state (generate_tokens X cfg v ''register_device'' [] [])
        (w\<lparr>draws := Suc (Suc (draws w)), db := ?d\<rparr>)"
    using assms(1-7) by (simp add: register_def user_create_def zero_user_def insert_user_def u_def Let_def)
  have users: "users (db (snd (run_state (register X cfg rr) w))) = users (db w) @ [u]"
    using generate_tokens_users [of X cfg v "''register_device''" "[]" "[]"]
    by (simp add: r state_io_rel_def on_db_def same_def)
  have "find (\<lambda>u. u_email u = rr_email rr) (users (db w) @ [u]) = Some u"
    using assms(6) by (force simp: find_snoc u_def split: option.splits dest!: find_Some_in)
  then show ?thesis
    using assms(2,8) by (auto simp: find_user_by_email_def users u_def)
qed

section \<open>The life of the issued tokens\<close>

lemma seconds_eq: "30 * nsSecond = 30000000000" "60 * nsSecond = 60000000000" "29 * nsSecond = 29000000000"
  "nsSecond = 1000000000"
  by (simp_all add: nsSecond_def)

text \<open>
  The access token of a login names its user from the login on (clocks up to a minute
  behind included) until 29 seconds after the announced expiry, and no longer than 30
  seconds after it.
\<close>
lemma access_token_lifetime:
  assumes "key_pair X (private_key w) pub" and "sched w = []" and "0 < MaxActiveSessions cfg"
    and "run_state (login X cfg req dev ip ua) w = (Inr resp, w')"
  shows "\<exists>u. find_user_by_email (lr_email req) (db w) = Some u \<and>
    (clock w - 60 * nsSecond \<le> t \<longrightarrow> t \<le> ExpiresAt resp + 29 * nsSecond \<longrightarrow>
       (\<exists>c. validate_at X pub t (AccessToken resp) = Inr c \<and> ac_uid c = u_id u \<and> ac_email c = u_email u)) \<and>
    (ExpiresAt resp + 30 * nsSecond \<le> t \<longrightarrow> (\<exists>e. validate_at X pub t (AccessToken resp) = Inl e))"
proof -
  obtain u r where u: "find_user_by_email (lr_email req) (db w) = Some u"
    and i: "issued X cfg u dev ip ua (w\<lparr>redis := r\<rparr>) resp w'"
    using assms(2-4) by (rule login_success)
  define p where "p = access_payload_for X cfg u (clock w) (draws w)"
  have sig: "jwt_sign X (private_key w) p = Inr (AccessToken resp)"
    and exp: "ExpiresAt resp = clock w + access_ttl cfg"
    using i by (auto simp: issued_def p_def)
  have dates: "p_nbf p = numeric_date (clock w - 30 * nsSecond)" "p_exp p = numeric_date (clock w + access_ttl cfg)"
    by (simp_all add: p_def access_payload_for_def access_payload_def)
  note b = numeric_date_bounds [of "clock w - 30 * nsSecond"] numeric_date_bounds [of "clock w + access_ttl cfg"]
  have "validate_at X pub t (AccessToken resp) = Inr (decode_access p)"
    if "clock w - 60 * nsSecond \<le> t" "t \<le> ExpiresAt resp + 29 * nsSecond" for t
    using validate_signed [OF assms(1) sig, of t] that b
    by (simp add: dates exp access_leeway_def seconds_eq)
  moreover have "\<exists>e. validate_at X pub t (AccessToken resp) = Inl e" if "ExpiresAt resp + 30 * nsSecond \<le> t" for t
    using validate_expired [OF assms(1) sig, of t] that b
    by (simp add: dates exp access_leeway_def seconds_eq)
  ultimately show ?thesis
    using u by (auto simp: p_def access_payload_for_def decode_access_payload)
qed

text \<open>
  The refresh token is signed by the same key with the same claim for the user, and
  nothing in its payload says that it is no access token: presented as one it is accepted,
  with the user's id and no e-mail address, for as long as the refresh token lives.
\<close>
lemma refresh_token_passes_as_access_token:
  assumes "key_pair X (private_key w) pub" and "sched w = []" and "0 < MaxActiveSessions cfg"
    and "run_state (login X cfg req dev ip ua) w = (Inr resp, w')"
    and "clock w \<le> t" and "t \<le> clock w + refresh_ttl cfg"
  shows "\<exists>u c. find_user_by_email (lr_email req) (db w) = Some u \<and>
    validate_at X pub t (RefreshToken resp) = Inr c \<and> ac_uid c = u_id u \<and> ac_email c = []"
proof -
  obtain u r where u: "find_user_by_email (lr_email req) (db w) = Some u"
    and i: "issued X cfg u dev ip ua (w\<lparr>redis := r\<rparr>) resp w'"
    using assms(2-4) by (rule login_success)
  define p where "p = refresh_payload_for X cfg u (clock w) (Suc (draws w))"
  have sig: "jwt_sign X (private_key w) p = Inr (RefreshToken resp)"
    using i by (auto simp: issued_def p_def)
  have dates: "p_nbf p = numeric_date (clock w - 30 * nsSecond)" "p_exp p = numeric_date (clock w + refresh_ttl cfg)"
    by (simp_all add: p_def refresh_payload_for_def refresh_payload_def)
  note b = numeric_date_bounds [of "clock w - 30 * nsSecond"] numeric_date_bounds [of "clock w + refresh_ttl cfg"]
  have "validate_at X pub t (RefreshToken resp) = Inr (decode_access p)"
    using validate_signed [OF assms(1) sig, of t] assms(5,6) b
    by (simp add: dates access_leeway_def seconds_eq)
  then show ?thesis
    using u by (auto simp: p_def refresh_payload_for_def refresh_payload_def decode_access_def)
qed

section \<open>Refreshing\<close>

text \<open>
  A stored refresh token that has not expired buys a new pair of tokens whenever its
  user exists, the signatures succeed and the new token can be stored. Nothing else is
  asked: an account that was disabled goes on getting new tokens.
\<close>
lemma refresh_needs_no_active_account:
  assumes "sched w = []" and "0 < MaxActiveSessions cfg"
    and "find_refresh_token (hash_token X tok) (db w) = Some t" and "clock w \<le> t_expires t"
    and "find_user_by_id (t_user t) (db w) = Some u"
    and "jwt_sign X (private_key w) (access_payload_for X cfg u (clock w) (draws w + 2)) = Inr at"
    and "jwt_sign X (private_key w) (refresh_payload_for X cfg u (clock w) (draws w + 3)) = Inr rt"
    and "insert_refresh_token (inet_ok X) (u_id u) (hash_token X rt) dev ip
      (clock w + refresh_ttl cfg) (rand_uuid X (draws w + 4)) (pg_time (clock w))
      ((db w)\<lparr>sessions := filter (\<lambda>s. s_hash s \<noteq> hash_token X tok) (sessions (db w)),
         refresh_tokens := filter (\<lambda>x. t_id x \<noteq> t_id t) (refresh_tokens (db w))\<rparr>) = Inr ((), d1)"
  shows "\<exists>resp. fst (run_state (refresh_tokens_op X cfg tok dev ip ua) w) = Inr resp \<and>
    AccessToken resp = at \<and> RefreshToken resp = rt"
  using refresh_accepts [OF assms, of ua] by auto

definition disabled :: user where "disabled = alice\<lparr>u_active := False\<rparr>"

section \<open>Logout\<close>

lemma logout_tokens:
  assumes "sched w = []" and "rt \<noteq> []" and "run_state (logout X at rt) w = (r, w')"
  shows "r = Inr () \<and> find_refresh_token (hash_token X rt) (db w') = None \<and>
    hash_token X rt \<notin> s_hash ` set (sessions (db w'))"
  using assms
  by (auto simp: logout_def validate_access_token_def Let_def redis_set_def session_delete_by_hash_def
      delete_session_by_hash_def delete_refresh_token_by_hash_def find_refresh_token_def find_None_iff
      split: sum.splits if_splits)

lemma logout_redis:
  assumes "sched w = []" and "run_state (logout X at rt) w = (r, w')"
    and "validate_at X (public_key w) (clock w) at = Inr c" and "clock w < ac_exp c"
  shows "redis w' = rd_set (redis_ops X) (clock w) (blacklist_key (hash_token X at)) (RStr ''revoked'')
    (ac_exp c - clock w) (redis w)"
  using assms
  by (auto simp: logout_def validate_access_token_def Let_def redis_set_def session_delete_by_hash_def
      delete_session_by_hash_def delete_refresh_token_by_hash_def split: if_splits)

context services
begin

lemma revoked_until:
  assumes "1000000 \<le> e - t0"
  shows "t \<le> e - 1000000 \<Longrightarrow> rd_get (redis_ops X) t k (rd_set (redis_ops X) t0 k v (e - t0) r) = Some v"
    and "e \<le> t \<Longrightarrow> rd_get (redis_ops X) t k (rd_set (redis_ops X) t0 k v (e - t0) r) = None"
  using get_set_before [of "e - t0" t t0 k v r] get_set_after [of "e - t0" t0 t k v r] assms by auto

end

text \<open>
  C12: a logout deletes the session and the refresh token it was given, and a valid access
  token is black-listed from then on to the millisecond before its \<open>exp\<close>, but not from
  \<open>exp\<close> on.
\<close>
theorem logout_revokes:
  assumes "services X view" and "sched w = []" and "rt \<noteq> []"
    and "run_state (logout X at rt) w = (r, w')"
    and "validate_at X (public_key w) (clock w) at = Inr c" and "clock w + 1000000 \<le> ac_exp c"
  shows "r = Inr () \<and> find_refresh_token (hash_token X rt) (db w') = None \<and>
    hash_token X rt \<notin> s_hash ` set (sessions (db w')) \<and>
    (t \<le> ac_exp c - 1000000 \<longrightarrow>
       rd_get (redis_ops X) t (blacklist_key (hash_token X at)) (redis w') \<noteq> None) \<and>
    (ac_exp c \<le> t \<longrightarrow>
       rd_get (redis_ops X) t (blacklist_key (hash_token X at)) (redis w') = None)"
proof -
  have "redis w' = rd_set (redis_ops X) (clock w) (blacklist_key (hash_token X at)) (RStr ''revoked'')
      (ac_exp c - clock w) (redis w)"
    using logout_redis [OF assms(2,4,5)] assms(6) by simp
  then show ?thesis
    using logout_tokens [OF assms(2-4)] services.revoked_until [OF assms(1), of "ac_exp c" "clock w"] assms(6)
    by auto
qed

text \<open>The claims of the demo user's access token.\<close>

definition demo_claims :: access_claims where
  "demo_claims = \<lparr>ac_uid = 1, ac_email = ''a'', ac_exp = 900 * nsSecond, ac_iat = Some 0,
     ac_nbf = - (30 * nsSecond), ac_jti = [char_of (1 :: nat)]\<rparr>"

lemma demo_validate:
  "- (60 * nsSecond) \<le> t \<Longrightarrow> t < 930 * nsSecond \<Longrightarrow>
   validate_at (demo_ext (demo_tokens 0 1)) (Some ''pub'') t ''A'' = Inr demo_claims"
  by (simp add: validate_at_def demo_ext_def demo_tokens_def access_keyfunc_def access_payload_for_def
      access_payload_def numeric_date_def access_leeway_def nsSecond_def demo_claims_def decode_access_def alice_def)

theorem logout_revokes_witness:
  "\<exists>w'. run_state (logout (demo_ext (demo_tokens 0 1)) ''A'' ''T'') (demo_world demo_token_db 0) = (Inr (), w') \<and>
     find_refresh_token (hash_token (demo_ext (demo_tokens 0 1)) ''T'') (db w') = None \<and>
     rd_get mem_redis (899 * nsSecond) (blacklist_key (hash_token (demo_ext (demo_tokens 0 1)) ''A'')) (redis w') \<noteq> None"
proof -
  obtain r w' where run: "run_state (logout (demo_ext (demo_tokens 0 1)) ''A'' ''T'') (demo_world demo_token_db 0) = (r, w')"
    by fastforce
  have "validate_at (demo_ext (demo_tokens 0 1)) (public_key (demo_world demo_token_db 0)) (clock (demo_world demo_token_db 0)) ''A''
      = Inr demo_claims"
    using demo_validate [of 0] by (simp add: demo_world_def nsSecond_def)
  from logout_revokes [OF demo.services_axioms _ _ run this, of "899 * nsSecond"] run show ?thesis
    by (auto simp: demo_claims_def nsSecond_def)
qed

end
