(* ===== verification/Http.thy ===== *)
theory Http
  imports AuthProps
begin

text \<open>
  What the handlers see of the \<open>gin\<close> framework: a request, the keys of its context, the
  response under construction, and the process-wide state beside the world: the rate
  limiters of the throttle, the queue of the audit workers and the log of requests. A middleware takes the rest
  of the chain, which \<open>c.Next()\<close> runs, and runs it or not; every middleware of the program
  ends by running it or by aborting.
\<close>

section \<open>Requests and responses\<close>

record request =
  rq_method :: string
  rq_path :: string
  rq_headers :: "string \<Rightarrow> string"
  rq_ip :: string
  rq_body :: string
  rq_param :: string
  rq_query :: "string \<Rightarrow> string option"

definition GetHeader :: "request \<Rightarrow> string \<Rightarrow> string" where
  "GetHeader rq h = rq_headers rq h"

definition UserAgent :: "request \<Rightarrow> string" where
  "UserAgent rq = rq_headers rq ''User-Agent''"

definition DefaultQuery :: "request \<Rightarrow> string \<Rightarrow> string \<Rightarrow> string" where
  "DefaultQuery rq k dflt = (case rq_query rq k of None \<Rightarrow> dflt | Some v \<Rightarrow> v)"

text \<open>
  The value that \<open>c.JSON\<close> encodes. \<open>JErr\<close> is the text of an error, whose wording may come
  from third-party code; instants are encoded by the standard library.
\<close>

datatype json =
  JNull
| JBool bool
| JInt int
| JStr string
| JTime time
| JErr go_error
| JList "json list"
| JObj "(string \<times> json) list"

section \<open>The state of the process\<close>

record audit_task =
  at_user :: "uuid option"
  at_action :: string
  at_path :: string
  at_ip :: string
  at_agent :: string
  at_device :: string

text \<open>What the log says of a request.\<close>

record request_line =
  ln_method :: string
  ln_path :: string
  ln_status :: nat
  ln_latency :: duration
  ln_ip :: string
  ln_agent :: string

record 'l ip_limiter =
  il_limiter :: 'l
  il_seen :: time

record ('r, 'l) srv =
  world :: "'r world"
  clients :: "(string \<times> 'l ip_limiter) list"
  audit_queue :: "audit_task list"
  request_log :: "request_line list"
  ctx_user :: "uuid option"
  ctx_email :: "string option"
  out_headers :: "(string \<times> string) list"
  out_status :: nat
  out_body :: "json option"
  out_gzip :: bool

type_synonym ('r, 'l) prog = "(('r, 'l) srv, unit) state"

definition in_world :: "('r world, 'a) state \<Rightarrow> (('r, 'l) srv, 'a) state" where
  "in_world m = State (\<lambda>s. let (a, w) = run_state m (world s) in (a, s\<lparr>world := w\<rparr>))"

definition set_identity :: "access_claims \<Rightarrow> ('r, 'l) prog" where
  "set_identity c = State (\<lambda>s. ((), s\<lparr>ctx_user := Some (ac_uid c), ctx_email := Some (ac_email c)\<rparr>))"

definition header :: "string \<Rightarrow> string \<Rightarrow> ('r, 'l) prog" where
  "header k v = State (\<lambda>s. ((), s\<lparr>out_headers := AList.update k v (out_headers s)\<rparr>))"

definition respond :: "nat \<Rightarrow> json \<Rightarrow> ('r, 'l) prog" where
  "respond code b = State (\<lambda>s. ((), s\<lparr>out_status := code, out_body := Some b\<rparr>))"

definition respond_status :: "nat \<Rightarrow> ('r, 'l) prog" where
  "respond_status code = State (\<lambda>s. ((), s\<lparr>out_status := code\<rparr>))"

definition err_body :: "string \<Rightarrow> json" where
  "err_body msg = JObj [(''error'', JStr msg)]"

definition err_of :: "go_error \<Rightarrow> json" where
  "err_of e = JObj [(''error'', JErr e)]"

text \<open>
  The envelope \<open>APIResponse\<close> of \<open>internal/shared/utils/response.go\<close>: a field marked \<open>omitempty\<close> is
  left out when it is nil or the empty string. No handler uses it.
\<close>

definition api_response :: "bool \<Rightarrow> json option \<Rightarrow> string \<Rightarrow> json" where
  "api_response ok payload msg =
     JObj ([(''success'', JBool ok)] @ (case payload of None \<Rightarrow> [] | Some v \<Rightarrow> [(''data'', v)]) @
       (if msg = [] then [] else [(''error'', JStr msg)]))"

definition respond_success :: "nat \<Rightarrow> json option \<Rightarrow> ('r, 'l) prog" where
  "respond_success status payload = respond status (api_response True payload [])"

definition respond_error :: "nat \<Rightarrow> string \<Rightarrow> ('r, 'l) prog" where
  "respond_error status msg = respond status (api_response False None msg)"

lemma run_in_world [simp]:
  "run_state (in_world m) s = (let (a, w) = run_state m (world s) in (a, s\<lparr>world := w\<rparr>))"
  by (simp add: in_world_def)

lemma run_responses [simp]:
  "run_state (respond code b) s = ((), s\<lparr>out_status := code, out_body := Some b\<rparr>)"
  "run_state (respond_status code) s = ((), s\<lparr>out_status := code\<rparr>)"
  "run_state (set_identity c) s = ((), s\<lparr>ctx_user := Some (ac_uid c), ctx_email := Some (ac_email c)\<rparr>)"
  "run_state (header k v) s = ((), s\<lparr>out_headers := AList.update k v (out_headers s)\<rparr>)"
  by (simp_all add: respond_def respond_status_def set_identity_def header_def)

text \<open>
  A relation on worlds, seen on the state of the process: what the programs keep that touch
  the world, the context, the status and the body of the response only.
\<close>

definition on_world :: "('r world \<Rightarrow> 'r world \<Rightarrow> bool) \<Rightarrow> ('r, 'l) srv \<Rightarrow> ('r, 'l) srv \<Rightarrow> bool" where
  "on_world P s s' \<longleftrightarrow> P (world s) (world s') \<and> audit_queue s' = audit_queue s \<and> request_log s' = request_log s \<and>
     out_headers s' = out_headers s \<and> out_gzip s' = out_gzip s"

lemma io_preorder_on_world [simp, intro]: "io_preorder P \<Longrightarrow> io_preorder (on_world P)"
  by (auto simp: io_preorder_def on_world_def reflp_def transp_def)

lemma io_in_world [io_intros]: "state_io_rel P m \<Longrightarrow> state_io_rel (on_world P) (in_world m)"
  by (auto simp: state_io_rel_def on_world_def in_world_def split: prod.splits)
     (metis snd_conv)

lemma io_responses [io_intros]:
  "io_preorder P \<Longrightarrow> state_io_rel (on_world P) (respond code b)"
  "io_preorder P \<Longrightarrow> state_io_rel (on_world P) (respond_status code)"
  "io_preorder P \<Longrightarrow> state_io_rel (on_world P) (set_identity c)"
  by (auto simp: state_io_rel_def on_world_def io_preorder_refl)

end
