(* ===== verification/Middleware.thy ===== *)
theory Middleware
  imports Http
begin

text \<open>
  The middleware of \<open>internal/middleware/\<close>: security headers, CORS, compression, the
  throttle in memory, the rate limiter in Redis, the audit logger, authentication and the
  permission check.
\<close>

section \<open>Headers\<close>

definition security_headers :: "('r, 'l) prog \<Rightarrow> ('r, 'l) prog" where
  "security_headers next = do {
     header ''X-Content-Type-Options'' ''nosniff'';
     header ''X-Frame-Options'' ''DENY'';
     header ''X-XSS-Protection'' ''1; mode=block'';
     header ''Strict-Transport-Security'' ''max-age=31536000; includeSubDomains'';
     header ''Referrer-Policy'' ''strict-origin-when-cross-origin'';
     header ''Permissions-Policy'' ''geolocation=(), microphone=(), camera=()'';
     next
   }"

definition cors :: "request \<Rightarrow> ('r, 'l) prog \<Rightarrow> ('r, 'l) prog" where
  "cors rq next = do {
     header ''Access-Control-Allow-Origin'' ''*'';
     header ''Access-Control-Allow-Methods'' ''GET, POST, PUT, DELETE, OPTIONS'';
     header ''Access-Control-Allow-Headers'' ''Content-Type, Authorization, X-Device-ID'';
     if rq_method rq = ''OPTIONS'' then respond_status 204 else next
   }"

text \<open>\<open>strings.Contains\<close> and \<open>strings.HasPrefix\<close>.\<close>

definition has_prefix :: "string \<Rightarrow> string \<Rightarrow> bool" where
  "has_prefix s p \<longleftrightarrow> take (length p) s = p"

definition contains :: "string \<Rightarrow> string \<Rightarrow> bool" where
  "contains s p \<longleftrightarrow> list_ex (\<lambda>n. has_prefix (drop n s) p) [0..<Suc (length s)]"

text \<open>
  \<open>out_gzip\<close> says that the writer of the response is a \<open>gzipWriter\<close>; what it and \<open>Close\<close> send for
  a body is the work of \<open>compress/gzip\<close>, a parameter. \<open>Reset\<close> makes a pooled writer a new one.
\<close>

definition wrap_writer :: "('r, 'l) prog" where
  "wrap_writer = State (\<lambda>s. ((), s\<lparr>out_gzip := True\<rparr>))"

definition wire :: "(byte list \<Rightarrow> byte list) \<Rightarrow> (json \<Rightarrow> byte list) \<Rightarrow> ('r, 'l) srv \<Rightarrow> byte list" where
  "wire compress encode s =
     (let written = (case out_body s of None \<Rightarrow> [] | Some b \<Rightarrow> encode b)
      in if out_gzip s then compress written else written)"

definition gzip :: "request \<Rightarrow> ('r, 'l) prog \<Rightarrow> ('r, 'l) prog" where
  "gzip rq next =
     (if \<not> contains (rq_headers rq ''Accept-Encoding'') ''gzip'' then next
      else do {
        header ''Content-Encoding'' ''gzip'';
        header ''Vary'' ''Accept-Encoding'';
        wrap_writer;
        next
      })"

section \<open>The throttle\<close>

text \<open>
  The token bucket of \<open>golang.org/x/time/rate\<close> is a parameter: a fresh bucket for a burst
  and a rate, and \<open>Allow\<close> at an instant.
\<close>

record ('l, 'q) rate_ops =
  rl_new :: "'q \<Rightarrow> int \<Rightarrow> 'l"
  rl_allow :: "time \<Rightarrow> 'l \<Rightarrow> bool \<times> 'l"

definition unix_seconds :: "time \<Rightarrow> int" where
  "unix_seconds t = t div nsSecond"

definition key_for_request :: "request \<Rightarrow> string" where
  "key_for_request rq =
     (let deviceID = GetHeader rq ''X-Device-ID'' in
      rq_ip rq @ '':'' @ (if deviceID = [] then ''unknown'' else deviceID))"

definition get_limiter ::
  "('l, 'q) rate_ops \<Rightarrow> string \<Rightarrow> int \<Rightarrow> 'q \<Rightarrow> (('r, 'l) srv, 'l) state" where
  "get_limiter L key burst r = State (\<lambda>s.
     let now = unix_seconds (clock (world s));
         entry = (case map_of (clients s) key of
                    None \<Rightarrow> \<lparr>il_limiter = rl_new L r burst, il_seen = now\<rparr> | Some e \<Rightarrow> e)
     in (il_limiter entry, s\<lparr>clients := AList.update key (entry\<lparr>il_seen := now\<rparr>) (clients s)\<rparr>))"

definition put_limiter :: "string \<Rightarrow> 'l \<Rightarrow> ('r, 'l) prog" where
  "put_limiter key l = State (\<lambda>s. ((), s\<lparr>clients :=
     AList.map_entry key (\<lambda>e. e\<lparr>il_limiter := l\<rparr>) (clients s)\<rparr>))"

definition throttle ::
  "('l, 'q) rate_ops \<Rightarrow> int \<Rightarrow> 'q \<Rightarrow> request \<Rightarrow> ('r, 'l) prog \<Rightarrow> ('r, 'l) prog" where
  "throttle L burst r rq next = do {
     limiter \<leftarrow> get_limiter L (key_for_request rq) burst r;
     now \<leftarrow> read_state (\<lambda>s. clock (world s));
     let (ok, limiter') = rl_allow L now limiter;
     put_limiter (key_for_request rq) limiter';
     if \<not> ok then respond 429 (err_body ''server busy, please retry'') else next
   }"

text \<open>
  One pass of the clean-up loop that \<open>init\<close> starts, with no request in between. The loop reads
  \<open>lastSeen\<close> and deletes in two steps; \<open>Throttle\<close> has the deletion that comes after a request.
\<close>

definition cleanup_idle :: "time \<Rightarrow> (string \<times> 'l ip_limiter) list \<Rightarrow> (string \<times> 'l ip_limiter) list" where
  "cleanup_idle now cs = filter (\<lambda>(k, e). \<not> 600 < unix_seconds now - il_seen e) cs"

section \<open>The rate limiter\<close>

definition rate_key :: "request \<Rightarrow> string" where
  "rate_key rq = ''rate_limit:'' @ rq_ip rq @ '':'' @ GetHeader rq ''X-Device-ID''"

definition rate_limiter ::
  "'r ext \<Rightarrow> int \<Rightarrow> int \<Rightarrow> request \<Rightarrow> ('r, 'l) prog \<Rightarrow> ('r, 'l) prog" where
  "rate_limiter X maxReqs windowSec rq next =
     on_error (in_world (redis_get X (rate_key rq)))
       (\<lambda>_. respond 500 (err_body ''rate limiter error'')) (\<lambda>v.
     case v of
       Some (RStr _) \<Rightarrow> respond 500 (err_body ''rate limiter error'')
     | _ \<Rightarrow>
       let val = (case v of Some (RInt n) \<Rightarrow> n | _ \<Rightarrow> 0) in
       if maxReqs \<le> val then respond 429 (err_body ''too many requests'')
       else on_error (in_world (redis_incr_expire X (rate_key rq) (dur_mul windowSec nsSecond)))
         (\<lambda>_. respond 500 (err_body ''rate limiter error'')) (\<lambda>_. next))"

section \<open>The audit log\<close>

text \<open>
  \<open>auditWorkerPool\<close> has room for 1000 tasks; a task that finds it full is dropped.
\<close>

definition audit_buffer :: nat where "audit_buffer = 1000"

definition submit_audit :: "audit_task \<Rightarrow> ('r, 'l) prog" where
  "submit_audit task = State (\<lambda>s.
     ((), if length (audit_queue s) < audit_buffer then s\<lparr>audit_queue := audit_queue s @ [task]\<rparr> else s))"

definition run_audit_task :: "'r ext \<Rightarrow> audit_task \<Rightarrow> ('r world, unit) state" where
  "run_audit_task X t = do {
     _ \<leftarrow> sql_exec X (insert_activity (inet_ok X) (at_user t) (at_action t) (at_path t) (at_ip t)
       (at_agent t) (at_device t));
     ret ()
   }"

definition log_request :: "request_line \<Rightarrow> ('r, 'l) prog" where
  "log_request line = State (\<lambda>s. ((), s\<lparr>request_log := request_log s @ [line]\<rparr>))"

definition activity_logger :: "request \<Rightarrow> ('r, 'l) prog \<Rightarrow> ('r, 'l) prog" where
  "activity_logger rq next = do {
     began \<leftarrow> read_state (\<lambda>s. clock (world s));
     next;
     ended \<leftarrow> read_state (\<lambda>s. clock (world s));
     status \<leftarrow> read_state out_status;
     log_request \<lparr>ln_method = rq_method rq, ln_path = rq_path rq, ln_status = status, ln_latency = ended - began,
       ln_ip = rq_ip rq, ln_agent = UserAgent rq\<rparr>;
     uid \<leftarrow> read_state ctx_user;
     submit_audit \<lparr>at_user = uid, at_action = rq_method rq @ '' '' @ rq_path rq,
       at_path = rq_path rq, at_ip = rq_ip rq, at_agent = UserAgent rq,
       at_device = GetHeader rq ''X-Device-ID''\<rparr>
   }"

section \<open>Authentication\<close>

definition cache_lookup :: "string \<Rightarrow> ('r world, access_claims option) state" where
  "cache_lookup key = State (\<lambda>w.
     let (a, c) = cache_get (clock w) key (tok_cache w) in (a, w\<lparr>tok_cache := c\<rparr>))"

definition cache_store :: "'r ext \<Rightarrow> string \<Rightarrow> access_claims \<Rightarrow> ('r world, unit) state" where
  "cache_store X key c = State (\<lambda>w.
     ((), w\<lparr>tok_cache := cache_set (go_range X (cache_keys (tok_cache w))) (clock w) key c (tok_cache w)\<rparr>))"

definition auth_required :: "'r ext \<Rightarrow> request \<Rightarrow> ('r, 'l) prog \<Rightarrow> ('r, 'l) prog" where
  "auth_required X rq next =
     (let authHeader = GetHeader rq ''Authorization'' in
      if authHeader = [] \<or> \<not> has_prefix authHeader ''Bearer ''
      then respond 401 (err_body ''missing or invalid authorization header'')
      else
        let tokenStr = drop 7 authHeader; tokenHash = hash_token X tokenStr in do {
          cached \<leftarrow> in_world (cache_lookup tokenHash);
          case cached of
            Some claims \<Rightarrow> do { set_identity claims; next }
          | None \<Rightarrow>
              on_error (in_world (validate_access_token X tokenStr))
                (\<lambda>_. respond 401 (err_body ''invalid or expired token'')) (\<lambda>claims. do {
                  blacklisted \<leftarrow> in_world (redis_exists X (blacklist_key tokenHash));
                  if blacklisted = Inr True then respond 401 (err_body ''token has been revoked'')
                  else do {
                    in_world (cache_store X tokenHash claims);
                    set_identity claims;
                    next
                  }
                })
        })"

section \<open>The permission check\<close>

definition require_permission ::
  "string \<Rightarrow> string \<Rightarrow> ('r, 'l) prog \<Rightarrow> ('r, 'l) prog" where
  "require_permission action resource next = do {
     userID \<leftarrow> read_state ctx_user;
     case userID of
       None \<Rightarrow> respond 401 (err_body ''user not authenticated'')
     | Some uid \<Rightarrow> do {
         r \<leftarrow> in_world (sql_row (\<lambda>d. Some (has_permission uid action resource d)));
         if r \<noteq> Inr True then respond 403 (err_body ''insufficient permissions'') else next
       }
   }"

end
