(* ===== verification/AuthGuard.thy ===== *)
theory AuthGuard
  imports Middleware
begin

text \<open>
  The authentication middleware with its cache: the invariant that ties every cached
  identity to a validation, who passes and who does not, and what a logout is worth while
  the token is cached; the permission check.
\<close>

section \<open>What leaves the cache and the keys alone, and the clock and the draws in order\<close>

definition quiet :: "'r world \<Rightarrow> 'r world \<Rightarrow> bool" where
  "quiet w w' \<longleftrightarrow> tok_cache w' = tok_cache w \<and> private_key w' = private_key w \<and> public_key w' = public_key w \<and>
     clock w \<le> clock w' \<and> draws w \<le> draws w' \<and> set (sched w') \<subseteq> set (sched w)"

lemma io_preorder_quiet [simp, intro]: "io_preorder quiet"
  by (auto simp: io_preorder_def quiet_def reflp_def transp_def)

lemma next_call_quiet: "next_call w = (oc, w1) \<Longrightarrow> quiet w w1"
  by (auto simp: quiet_def next_call_def split: list.splits prod.splits)

lemma quiet_update [simp]:
  "quiet w (w1\<lparr>db := d\<rparr>) \<longleftrightarrow> quiet w w1" "quiet w (w1\<lparr>redis := r\<rparr>) \<longleftrightarrow> quiet w w1"
  "quiet w w1 \<Longrightarrow> quiet w (w1\<lparr>draws := Suc (draws w1)\<rparr>)"
  by (simp_all add: quiet_def)

lemma quiet_refl [simp]: "quiet w w"
  by (simp add: quiet_def)

lemma io_calls_quiet [io_intros]:
  "state_io_rel quiet (sql_exec X st)" "state_io_rel quiet (sql_row q)"
  "state_io_rel quiet (sql_rows q')" "state_io_rel quiet (redis_call f)"
  "state_io_rel quiet fresh" "state_io_rel quiet tx_begin"
  "state_io_rel quiet (tx_rollback d)" "state_io_rel quiet (tx_commit d)"
  unfolding state_io_rel_def
  by (auto simp: sql_exec_def sql_row_def sql_rows_def redis_call_def tx_begin_def tx_commit_def Let_def
      split: prod.splits outcome.splits sum.splits dest!: next_call_quiet)

lemma io_redis_quiet [io_intros]:
  "state_io_rel quiet (redis_get X k)" "state_io_rel quiet (redis_exists X k)"
  "state_io_rel quiet (redis_ttl X k)" "state_io_rel quiet (redis_set X k v du)"
  "state_io_rel quiet (redis_incr X k)" "state_io_rel quiet (redis_expire X k du)"
  "state_io_rel quiet (redis_del X k)" "state_io_rel quiet (redis_incr_expire X k du)"
  unfolding redis_command_defs by (intro io_intros io_preorder_quiet)+

lemma io_jwt_quiet [io_intros]:
  "state_io_rel quiet (generate_access_token X uid em ttl)"
  "state_io_rel quiet (generate_refresh_token X uid ttl)"
  "state_io_rel quiet (validate_access_token X tok)"
  unfolding generate_access_token_def generate_refresh_token_def validate_access_token_def Let_def
  by (intro io_intros io_preorder_quiet)+

lemma io_auth_service_quiet [io_intros]:
  "state_io_rel quiet (register X cfg rr)"
  "state_io_rel quiet (login X cfg req dev ip ua)"
  "state_io_rel quiet (refresh_tokens_op X cfg tok dev ip ua)"
  "state_io_rel quiet (logout X at rt)"
  unfolding register_def login_def refresh_tokens_op_def logout_def generate_tokens_def
    enforce_session_limit_def record_failed_attempt_def check_login_attempts_def auth_repo_defs
    nil_if_no_rows_def Let_def case_prod_beta
  by (intro io_intros io_preorder_quiet)+

section \<open>The invariant of the cache\<close>

text \<open>
  Every cached identity is what validating a token with the entry's digest yielded, at most
  \<open>lat\<close> before the entry was stored: \<open>lat\<close> bounds how long a single call takes, and the
  black list is asked in between.
\<close>

definition cached_validation ::
  "'r ext \<Rightarrow> duration \<Rightarrow> 'r world \<Rightarrow> string \<Rightarrow> access_claims cache_entry \<Rightarrow> bool" where
  "cached_validation X lat w h e \<longleftrightarrow> (\<exists>tok t0 t1. hash_token X tok = h \<and>
     validate_at X (public_key w) t0 tok = Inr (ce_data e) \<and> t0 \<le> t1 \<and> t1 \<le> t0 + lat \<and> t1 \<le> clock w \<and>
     ce_expires e = t1 + tc_ttl (tok_cache w))"

definition cache_sound :: "'r ext \<Rightarrow> duration \<Rightarrow> 'r world \<Rightarrow> bool" where
  "cache_sound X lat w \<longleftrightarrow> 0 \<le> lat \<and> (\<forall>(oc, dt) \<in> set (sched w). int dt \<le> lat) \<and>
     (\<forall>h e. cache_read h (tok_cache w) = Some e \<longrightarrow> cached_validation X lat w h e)"

lemma cached_validation_mono:
  "cached_validation X lat w h e \<Longrightarrow> public_key w' = public_key w \<Longrightarrow> clock w \<le> clock w' \<Longrightarrow>
   tc_ttl (tok_cache w') = tc_ttl (tok_cache w) \<Longrightarrow> cached_validation X lat w' h e"
  unfolding cached_validation_def by (elim exE, intro exI) auto

lemma cache_sound_quiet: "cache_sound X lat w \<Longrightarrow> quiet w w' \<Longrightarrow> cache_sound X lat w'"
  unfolding cache_sound_def quiet_def by (fastforce intro: cached_validation_mono)

lemma cache_sound_start: "tok_cache w = new_token_cache ttl n \<Longrightarrow> sched w = [] \<Longrightarrow> cache_sound X 0 w"
  by (simp add: cache_sound_def new_token_cache_def cache_read_def)

lemma cache_sound_lookup:
  assumes "cache_sound X lat w" and "run_state (cache_lookup h) w = (r, w')"
  shows "cache_sound X lat w'"
  using assms
  by (fastforce simp: cache_lookup_def cache_sound_def cached_validation_def cache_get_def
      split: prod.splits dest!: cache_read_finish arg_cong [of _ _ snd])

lemma cache_sound_store:
  assumes "cache_sound X lat w" and "validate_at X (public_key w) t0 tok = Inr c"
    and "t0 \<le> clock w" and "clock w \<le> t0 + lat"
    and "run_state (cache_store X (hash_token X tok) c) w = (r, w')"
  shows "cache_sound X lat w'"
  using assms
  by (fastforce simp: cache_store_def cache_sound_def cached_validation_def cache_read_set
      split: if_splits dest!: cache_read_evict)

lemma cache_sound_sweep:
  "cache_sound X lat w \<Longrightarrow> distinct (cache_keys (tok_cache w)) \<Longrightarrow>
   cache_sound X lat (w\<lparr>tok_cache := cache_sweep (clock w) (tok_cache w)\<rparr>)"
  by (fastforce simp: cache_sound_def cached_validation_def dest!: cache_read_sweep)

section \<open>Who passes\<close>

definition stops :: "(('r, 'l) prog \<Rightarrow> ('r, 'l) prog) \<Rightarrow> ('r, 'l) srv \<Rightarrow> ('r, 'l) srv \<Rightarrow> bool" where
  "stops m s s' \<longleftrightarrow> (\<forall>next. run_state (m next) s = ((), s'))"

definition passes :: "(('r, 'l) prog \<Rightarrow> ('r, 'l) prog) \<Rightarrow> ('r, 'l) srv \<Rightarrow> ('r, 'l) srv \<Rightarrow> bool" where
  "passes m s s' \<longleftrightarrow> (\<forall>next. run_state (m next) s = run_state next s')"

text \<open>
  A refusal: the tables are as before, the status is one of the errors of the middleware (or
  204, the answer to \<open>OPTIONS\<close>) and the body, if there is one, holds an error message.
\<close>

definition refused :: "('r, 'l) srv \<Rightarrow> ('r, 'l) srv \<Rightarrow> bool" where
  "refused s s' \<longleftrightarrow> db (world s') = db (world s) \<and> out_status s' \<in> {204, 401, 403, 429, 500} \<and>
     (out_body s' = out_body s \<or> (\<exists>m. out_body s' = Some (err_body m)))"

lemma refused_respond [simp]:
  "refused s (s\<lparr>out_status := n, out_body := Some (err_body m)\<rparr>) \<longleftrightarrow> n \<in> {204, 401, 403, 429, 500}"
  "refused s (s\<lparr>world := w, out_status := n, out_body := Some (err_body m)\<rparr>) \<longleftrightarrow>
     db w = db (world s) \<and> n \<in> {204, 401, 403, 429, 500}"
  by (auto simp: refused_def)

definition bearer :: "request \<Rightarrow> string \<Rightarrow> bool" where
  "bearer rq tok \<longleftrightarrow> GetHeader rq ''Authorization'' = ''Bearer '' @ tok"

lemma bearer_prefix:
  "bearer rq tok \<Longrightarrow> has_prefix (GetHeader rq ''Authorization'') ''Bearer '' \<and>
     GetHeader rq ''Authorization'' \<noteq> [] \<and> drop 7 (GetHeader rq ''Authorization'') = tok"
  by (simp add: bearer_def has_prefix_def)

lemma prefix_bearer:
  "has_prefix (GetHeader rq ''Authorization'') ''Bearer '' \<Longrightarrow> bearer rq (drop 7 (GetHeader rq ''Authorization''))"
proof -
  let ?a = "GetHeader rq ''Authorization''"
  assume "has_prefix ?a ''Bearer ''"
  then have "take 7 ?a = ''Bearer ''" by (simp add: has_prefix_def numeral_eq_Suc)
  then have "?a = ''Bearer '' @ drop 7 ?a" by (metis append_take_drop_id)
  then show ?thesis unfolding bearer_def .
qed

lemma auth_required_bearer:
  assumes "bearer rq tok" and "run_state (cache_lookup (hash_token X tok)) (world s) = (r, w1)"
  shows "run_state (auth_required X rq next) s =
    (case r of
       Some c \<Rightarrow> run_state next (s\<lparr>world := w1, ctx_user := Some (ac_uid c), ctx_email := Some (ac_email c)\<rparr>)
     | None \<Rightarrow>
        (case validate_at X (public_key w1) (clock w1) tok of
           Inl e \<Rightarrow> ((), s\<lparr>world := w1, out_status := 401, out_body := Some (err_body ''invalid or expired token'')\<rparr>)
         | Inr c \<Rightarrow>
            (case run_state (redis_exists X (blacklist_key (hash_token X tok))) w1 of (b, w2) \<Rightarrow>
              if b = Inr True
              then ((), s\<lparr>world := w2, out_status := 401, out_body := Some (err_body ''token has been revoked'')\<rparr>)
              else run_state next (s\<lparr>world := snd (run_state (cache_store X (hash_token X tok) c) w2),
                 ctx_user := Some (ac_uid c), ctx_email := Some (ac_email c)\<rparr>))))"
  using assms bearer_prefix [OF assms(1)]
  by (simp add: auth_required_def Let_def validate_access_token_def split: option.splits sum.splits prod.splits)

lemma auth_required_no_bearer:
  "(\<And>tok. \<not> bearer rq tok) \<Longrightarrow> run_state (auth_required X rq next) s =
    ((), s\<lparr>out_status := 401, out_body := Some (err_body ''missing or invalid authorization header'')\<rparr>)"
  using prefix_bearer [of rq] by (auto simp: auth_required_def Let_def)

lemma auth_required_miss:
  assumes "bearer rq tok" and "sched (world s) = []"
    and "cache_read (hash_token X tok) (tok_cache (world s)) = None"
  shows "run_state (auth_required X rq next) s =
    (case validate_at X (public_key (world s)) (clock (world s)) tok of
       Inl e \<Rightarrow> ((), s\<lparr>out_status := 401, out_body := Some (err_body ''invalid or expired token'')\<rparr>)
     | Inr c \<Rightarrow>
        if rd_get (redis_ops X) (clock (world s)) (blacklist_key (hash_token X tok)) (redis (world s)) \<noteq> None
        then ((), s\<lparr>out_status := 401, out_body := Some (err_body ''token has been revoked'')\<rparr>)
        else run_state next (s\<lparr>world := snd (run_state (cache_store X (hash_token X tok) c) (world s)),
           ctx_user := Some (ac_uid c), ctx_email := Some (ac_email c)\<rparr>))"
proof -
  have l: "run_state (cache_lookup (hash_token X tok)) (world s) = (None, world s)"
    using assms(3) by (simp add: cache_lookup_def cache_get_def cache_finish_def)
  show ?thesis
    using assms(2) by (auto simp: auth_required_bearer [OF assms(1) l] redis_exists_def split: sum.splits)
qed

lemma cache_lookup_fact:
  assumes "run_state (cache_lookup h) w = (r, w1)"
  shows "db w1 = db w" "redis w1 = redis w" "public_key w1 = public_key w" "clock w1 = clock w" "sched w1 = sched w"
    and "r = Some c \<Longrightarrow> \<exists>e. cache_read h (tok_cache w) = Some e \<and> clock w \<le> ce_expires e \<and> ce_data e = c"
    and "tc_ttl (tok_cache w1) = tc_ttl (tok_cache w)"
proof -
  let ?g = "cache_get (clock w) h (tok_cache w)"
  have w1: "w1 = w\<lparr>tok_cache := snd ?g\<rparr>" and r: "r = fst ?g"
    using assms by (auto simp: cache_lookup_def split: prod.splits)
  show "db w1 = db w" "redis w1 = redis w" "public_key w1 = public_key w" "clock w1 = clock w"
    "sched w1 = sched w" "tc_ttl (tok_cache w1) = tc_ttl (tok_cache w)"
    by (simp_all add: w1 cache_get_def)
  show "r = Some c \<Longrightarrow> \<exists>e. cache_read h (tok_cache w) = Some e \<and> clock w \<le> ce_expires e \<and> ce_data e = c"
    using cache_get_hit [of "clock w" h "tok_cache w" c] by (simp add: r)
qed

lemma redis_exists_latency:
  assumes "run_state (redis_exists X k) w = (r, w1)" and "\<forall>(oc, dt) \<in> set (sched w). int dt \<le> lat" and "0 \<le> lat"
  shows "clock w1 \<le> clock w + lat" and "quiet w w1" and "db w1 = db w"
proof -
  show "clock w1 \<le> clock w + lat"
    using assms by (auto simp: redis_exists_def redis_call_def next_call_def Let_def
        split: prod.splits list.splits outcome.splits)
  show "quiet w w1" using io_redis_quiet(2) assms(1) by (rule state_io_relD)
  have "on_db (same (\<lambda>d. d)) w w1"
    using io_redis_commands_db(2) assms(1) by (blast intro: state_io_relD)
  then show "db w1 = db w" by (simp add: on_db_def same_def)
qed

lemma auth_required_outcome:
  assumes sound: "cache_sound X lat (world s)" and ttl: "0 \<le> tc_ttl (tok_cache (world s))"
  shows "(\<exists>s'. stops (auth_required X rq) s s' \<and> out_status s' = 401 \<and>
      cache_sound X lat (world s') \<and> refused s s') \<or>
    (\<exists>s' c tok tok' t0. passes (auth_required X rq) s s' \<and> bearer rq tok \<and>
      ctx_user s' = Some (ac_uid c) \<and> out_body s' = out_body s \<and> hash_token X tok' = hash_token X tok \<and>
      validate_at X (public_key (world s)) t0 tok' = Inr c \<and> t0 \<le> clock (world s') \<and>
      clock (world s') \<le> t0 + lat + tc_ttl (tok_cache (world s)) \<and>
      cache_sound X lat (world s') \<and> db (world s') = db (world s))"
proof (cases "\<exists>tok. bearer rq tok")
  case False
  then have "stops (auth_required X rq) s (s\<lparr>out_status := 401,
      out_body := Some (err_body ''missing or invalid authorization header'')\<rparr>)"
    by (simp add: stops_def auth_required_no_bearer)
  with sound show ?thesis by - (intro disjI1 exI conjI, assumption, simp_all)
next
  case True
  then obtain tok where b: "bearer rq tok" by blast
  obtain r w1 where l: "run_state (cache_lookup (hash_token X tok)) (world s) = (r, w1)" by fastforce
  note run = auth_required_bearer [OF b l] and lk = cache_lookup_fact [OF l]
  have s1: "cache_sound X lat w1" using sound l by (rule cache_sound_lookup)
  show ?thesis
  proof (cases r)
    case (Some c)
    then obtain e where e: "cache_read (hash_token X tok) (tok_cache (world s)) = Some e"
      "clock (world s) \<le> ce_expires e" "ce_data e = c" using lk(6) by blast
    with sound obtain tok' t0 t1 where v: "hash_token X tok' = hash_token X tok"
      "validate_at X (public_key (world s)) t0 tok' = Inr c" "t0 \<le> t1" "t1 \<le> t0 + lat"
      "t1 \<le> clock (world s)" "ce_expires e = t1 + tc_ttl (tok_cache (world s))"
      unfolding cache_sound_def cached_validation_def by blast
    let ?s = "s\<lparr>world := w1, ctx_user := Some (ac_uid c), ctx_email := Some (ac_email c)\<rparr>"
    have "passes (auth_required X rq) s ?s" using run Some by (simp add: passes_def)
    moreover have "clock (world ?s) \<le> t0 + lat + tc_ttl (tok_cache (world s))" using v e lk(4) by simp
    ultimately show ?thesis using b v s1 lk
      by (intro disjI2 exI [of _ ?s] exI [of _ c] exI [of _ tok] exI [of _ tok'] exI [of _ t0] conjI) simp_all
  next
    case None
    show ?thesis
    proof (cases "validate_at X (public_key w1) (clock w1) tok")
      case (Inl e)
      then have "stops (auth_required X rq) s (s\<lparr>world := w1, out_status := 401,
          out_body := Some (err_body ''invalid or expired token'')\<rparr>)"
        using run None by (simp add: stops_def)
      with s1 lk(1) show ?thesis by - (intro disjI1 exI conjI, assumption, simp_all)
    next
      case (Inr c)
      obtain bl w2 where x: "run_state (redis_exists X (blacklist_key (hash_token X tok))) w1 = (bl, w2)" by fastforce
      have "\<forall>(oc, dt) \<in> set (sched w1). int dt \<le> lat" "0 \<le> lat" using s1 by (simp_all add: cache_sound_def)
      note f = redis_exists_latency [OF x this]
      have s2: "cache_sound X lat w2" using s1 f(2) by (rule cache_sound_quiet)
      show ?thesis
      proof (cases "bl = Inr True")
        case True
        then have "stops (auth_required X rq) s (s\<lparr>world := w2, out_status := 401,
            out_body := Some (err_body ''token has been revoked'')\<rparr>)"
          using run None Inr x by (simp add: stops_def)
        with s2 f(3) lk(1) show ?thesis by - (intro disjI1 exI conjI, assumption, simp_all)
      next
        case False
        define w3 where "w3 = snd (run_state (cache_store X (hash_token X tok) c) w2)"
        have st: "run_state (cache_store X (hash_token X tok) c) w2 = ((), w3)" by (simp add: w3_def cache_store_def)
        let ?s = "s\<lparr>world := w3, ctx_user := Some (ac_uid c), ctx_email := Some (ac_email c)\<rparr>"
        have t: "clock w1 \<le> clock w2" "public_key w2 = public_key w1" "tok_cache w2 = tok_cache w1"
          using f(2) by (simp_all add: quiet_def)
        have s3: "cache_sound X lat w3"
          by (rule cache_sound_store [OF s2 _ t(1) f(1) st]) (simp add: t(2) Inr)
        have w3: "clock w3 = clock w2" "db w3 = db w2" using st by (auto simp: cache_store_def)
        have "passes (auth_required X rq) s ?s"
          using run None Inr x False st by (simp add: passes_def)
        moreover have "validate_at X (public_key (world s)) (clock w1) tok = Inr c" using Inr lk(3) by simp
        moreover have "clock w1 \<le> clock (world ?s)" "db (world ?s) = db (world s)"
          using t(1) w3 f(3) lk(1) by simp_all
        moreover have "clock (world ?s) \<le> clock w1 + lat + tc_ttl (tok_cache (world s))"
          using f(1) w3(1) ttl by simp
        ultimately show ?thesis using b s3
          by (intro disjI2 exI [of _ ?s] exI [of _ c] exI [of _ tok] exI [of _ tok] exI [of _ "clock w1"] conjI)
            simp_all
      qed
    qed
  qed
qed

text \<open>
  C4: the middleware lets a request pass only with the identity that validating a token
  with the digest of the presented one yielded, at most the cache's time to live and the
  time of one Redis call ago. It answers every other request with 401, and the rest of the
  chain does not run. It never changes the tables, and the invariant it relies on holds
  again, however the Redis call ends.
\<close>
theorem accepted_identity_was_validated:
  assumes "cache_sound X lat (world s)" and "0 \<le> tc_ttl (tok_cache (world s))"
  shows "(\<exists>s'. stops (auth_required X rq) s s' \<and> out_status s' = 401 \<and>
      cache_sound X lat (world s') \<and> db (world s') = db (world s)) \<or>
    (\<exists>s' c tok tok' t0. passes (auth_required X rq) s s' \<and> bearer rq tok \<and>
      ctx_user s' = Some (ac_uid c) \<and> hash_token X tok' = hash_token X tok \<and>
      validate_at X (public_key (world s)) t0 tok' = Inr c \<and> t0 \<le> clock (world s') \<and>
      clock (world s') \<le> t0 + lat + tc_ttl (tok_cache (world s)) \<and>
      cache_sound X lat (world s') \<and> db (world s') = db (world s))"
  using auth_required_outcome [OF assms, of rq] unfolding refused_def by blast

text \<open>The demo process and a request with the demo user's access token.\<close>

definition demo_srv :: "mem_store world \<Rightarrow> (mem_store, unit) srv" where
  "demo_srv w = \<lparr>world = w, clients = [], audit_queue = [], request_log = [], ctx_user = None, ctx_email = None,
     out_headers = [], out_status = 200, out_body = None, out_gzip = False\<rparr>"

definition demo_request :: request where
  "demo_request = \<lparr>rq_method = ''GET'', rq_path = ''/x'',
     rq_headers = (\<lambda>h. if h = ''Authorization'' then ''Bearer A'' else []),
     rq_ip = ''1'', rq_body = [], rq_param = [], rq_query = (\<lambda>_. None)\<rparr>"

lemma demo_bearer: "bearer demo_request ''A''"
  by (simp add: bearer_def GetHeader_def demo_request_def)

lemma demo_srv_world [simp]: "world (demo_srv w) = w"
  by (simp add: demo_srv_def)

lemma demo_no_cache [simp]: "cache_read h (tok_cache (demo_world d t)) = None"
    "tc_ttl (tok_cache (demo_world d t)) = 5 * nsMinute"
    "public_key (demo_world d t) = Some ''pub''" "private_key (demo_world d t) = Some ''priv''"
  by (simp_all add: demo_world_def new_token_cache_def cache_read_def)

lemma demo_cache_sound: "cache_sound X 0 (demo_world d t)"
  by (simp add: cache_sound_def)

lemma stops_not_passes: "stops m s s' \<Longrightarrow> passes m s s1 \<Longrightarrow> False"
proof -
  assume "stops m s s'" and "passes m s s1"
  then have "run_state k s1 = ((), s')" for k by (simp add: stops_def passes_def)
  from arg_cong [OF this [of "respond_status (Suc (out_status s'))"], of "\<lambda>p. out_status (snd p)"]
  show False by simp
qed

theorem accepted_identity_was_validated_witness:
  "\<exists>s' c. passes (auth_required (demo_ext (demo_tokens 0 1)) demo_request) (demo_srv (demo_world demo_db 0)) s' \<and>
     ctx_user s' = Some (ac_uid c) \<and>
     (\<exists>t0 tok. validate_at (demo_ext (demo_tokens 0 1)) (Some ''pub'') t0 tok = Inr c)"
proof -
  let ?X = "demo_ext (demo_tokens 0 1)" and ?s = "demo_srv (demo_world demo_db 0)"
  have "validate_at ?X (Some ''pub'') 0 ''A'' = Inr demo_claims"
    using demo_validate [of 0] by (simp add: nsSecond_def)
  then have "run_state (auth_required ?X demo_request k) ?s =
      run_state k (?s\<lparr>world := snd (run_state (cache_store ?X (hash_token ?X ''A'') demo_claims) (world ?s)),
        ctx_user := Some (ac_uid demo_claims), ctx_email := Some (ac_email demo_claims)\<rparr>)" for k
    using auth_required_miss [OF demo_bearer, of ?s ?X k] by (simp add: mem_redis_def mem_live_def live_def)
  then have "\<exists>s1. passes (auth_required ?X demo_request) ?s s1" unfolding passes_def by blast
  then have "\<not> stops (auth_required ?X demo_request) ?s s'" for s'
    using stops_not_passes by blast
  then show ?thesis
    using accepted_identity_was_validated [of ?X 0 ?s demo_request] demo_cache_sound
    by (auto simp: duration_defs)
qed

section \<open>Revoked tokens\<close>

text \<open>
  C13: with Redis at work, a token that is black-listed and not in the process's cache is
  answered with 401, and the rest of the chain does not run.
\<close>
theorem revoked_token_rejected:
  assumes "sched (world s) = []" and "bearer rq tok"
    and "rd_get (redis_ops X) (clock (world s)) (blacklist_key (hash_token X tok)) (redis (world s)) \<noteq> None"
    and "cache_read (hash_token X tok) (tok_cache (world s)) = None"
  shows "\<exists>s'. stops (auth_required X rq) s s' \<and> out_status s' = 401"
proof (cases "validate_at X (public_key (world s)) (clock (world s)) tok")
  case (Inl e)
  then have "stops (auth_required X rq) s
      (s\<lparr>out_status := 401, out_body := Some (err_body ''invalid or expired token'')\<rparr>)"
    using auth_required_miss [OF assms(2,1,4)] by (simp add: stops_def)
  then show ?thesis by - (intro exI conjI, assumption, simp)
next
  case (Inr c)
  then have "stops (auth_required X rq) s
      (s\<lparr>out_status := 401, out_body := Some (err_body ''token has been revoked'')\<rparr>)"
    using auth_required_miss [OF assms(2,1,4)] assms(3) by (simp add: stops_def)
  then show ?thesis by - (intro exI conjI, assumption, simp)
qed

definition demo_logged_out :: "mem_store world" where
  "demo_logged_out = snd (run_state (logout (demo_ext (demo_tokens 0 1)) ''A'' ''T'') (demo_world demo_token_db 0))"

lemma demo_validate_now:
  "validate_at (demo_ext (demo_tokens 0 1)) (Some ''pub'') 0 ''A'' = Inr demo_claims"
  using demo_validate [of 0] by (simp add: nsSecond_def)

lemma demo_logged_out_redis:
  "redis demo_logged_out = [(blacklist_key (hash_token (demo_ext (demo_tokens 0 1)) ''A''), RStr ''revoked'', Some (900 * nsSecond))]"
proof -
  have "validate_at (demo_ext (demo_tokens 0 1)) (public_key (demo_world demo_token_db 0)) (clock (demo_world demo_token_db 0)) ''A''
      = Inr demo_claims"
    using demo_validate_now by simp
  moreover have "run_state (logout (demo_ext (demo_tokens 0 1)) ''A'' ''T'') (demo_world demo_token_db 0) =
      (fst (run_state (logout (demo_ext (demo_tokens 0 1)) ''A'' ''T'') (demo_world demo_token_db 0)), demo_logged_out)"
    unfolding demo_logged_out_def by (rule prod.collapse [symmetric])
  ultimately have "redis demo_logged_out = rd_set mem_redis 0
      (blacklist_key (hash_token (demo_ext (demo_tokens 0 1)) ''A'')) (RStr ''revoked'') (900 * nsSecond) []"
    using logout_redis [of "demo_world demo_token_db 0" "demo_ext (demo_tokens 0 1)" "''A''" "''T''" _ demo_logged_out demo_claims]
    by (simp add: demo_claims_def nsSecond_def)
  then show ?thesis by (simp add: mem_redis_def mem_round_def nsSecond_def)
qed

lemma demo_logged_out_quiet: "quiet (demo_world demo_token_db 0) demo_logged_out"
  using io_auth_service_quiet(4) unfolding demo_logged_out_def state_io_rel_def by blast

lemma demo_logged_out_fields:
  "sched demo_logged_out = []" "tok_cache demo_logged_out = tok_cache (demo_world demo_token_db 0)"
  using demo_logged_out_quiet by (auto simp: quiet_def)

theorem revoked_token_rejected_witness:
  "\<exists>s'. stops (auth_required (demo_ext (demo_tokens 0 1)) demo_request)
     (demo_srv (demo_logged_out\<lparr>clock := 5\<rparr>)) s' \<and> out_status s' = 401"
  by (rule revoked_token_rejected [OF _ demo_bearer])
    (simp_all add: demo_logged_out_redis demo_logged_out_fields mem_redis_def mem_live_def live_def nsSecond_def)

text \<open>
  A logout does not reach the process's cache: while a token is cached, every request
  with it passes with the cached identity, after the logout as before, whatever Redis and
  the database hold.
\<close>
lemma logout_ineffective_while_cached:
  assumes "cache_read (hash_token X tok) (tok_cache (world s)) = Some e" and "bearer rq tok"
    and "run_state (logout X tok rt) (world s) = (r, w')" and "t \<le> ce_expires e"
  shows "\<exists>s'. passes (auth_required X rq) (s\<lparr>world := w'\<lparr>clock := t\<rparr>\<rparr>) s' \<and>
    ctx_user s' = Some (ac_uid (ce_data e))"
proof -
  have "quiet (world s) w'" using io_auth_service_quiet(4) assms(3) by (rule state_io_relD)
  then have "run_state (cache_lookup (hash_token X tok)) (w'\<lparr>clock := t\<rparr>) = (Some (ce_data e), w'\<lparr>clock := t\<rparr>)"
    using assms(1,4) by (simp add: cache_lookup_def cache_get_def cache_finish_def quiet_def)
  then have l: "run_state (cache_lookup (hash_token X tok)) (world (s\<lparr>world := w'\<lparr>clock := t\<rparr>\<rparr>)) =
      (Some (ce_data e), w'\<lparr>clock := t\<rparr>)" by simp
  have "passes (auth_required X rq) (s\<lparr>world := w'\<lparr>clock := t\<rparr>\<rparr>)
      (s\<lparr>world := w'\<lparr>clock := t\<rparr>, ctx_user := Some (ac_uid (ce_data e)), ctx_email := Some (ac_email (ce_data e))\<rparr>)"
    by (simp add: passes_def auth_required_bearer [OF assms(2) l])
  then show ?thesis by - (intro exI conjI, assumption, simp)
qed

text \<open>
  The entry in the black list ends at \<open>exp\<close>, but tokens are accepted for the leeway of
  30 seconds longer: in those seconds a token that was logged out, and that the process does
  not have in its cache, passes again.
\<close>
lemma logged_out_token_passes_in_leeway:
  assumes "services X view" and "key_pair X priv (public_key (world s))" and "jwt_sign X priv p = Inr tok"
    and "sched (world s) = []" and "p_nbf p - access_leeway \<le> clock (world s)"
    and "clock (world s) + 1000000 \<le> p_exp p"
    and "cache_read (hash_token X tok) (tok_cache (world s)) = None" and "bearer rq tok"
    and "run_state (logout X tok rt) (world s) = (r, w')"
    and "p_exp p \<le> t" and "t < p_exp p + access_leeway"
  shows "\<exists>s'. passes (auth_required X rq) (s\<lparr>world := w'\<lparr>clock := t\<rparr>\<rparr>) s' \<and> ctx_user s' = Some (p_uid p)"
proof -
  let ?w = "world s" and ?s = "s\<lparr>world := w'\<lparr>clock := t\<rparr>\<rparr>"
  have v: "validate_at X (public_key ?w) (clock ?w) tok = Inr (decode_access p)"
    "validate_at X (public_key ?w) t tok = Inr (decode_access p)"
    using assms(5,6,10,11) validate_signed [OF assms(2,3)] by (simp_all add: access_leeway_def nsSecond_def)
  have e: "ac_exp (decode_access p) = p_exp p" by (simp add: decode_access_def)
  have q: "quiet ?w w'" using io_auth_service_quiet(4) assms(9) by (rule state_io_relD)
  have "redis w' = rd_set (redis_ops X) (clock ?w) (blacklist_key (hash_token X tok)) (RStr ''revoked'')
      (p_exp p - clock ?w) (redis ?w)"
    using logout_redis [OF assms(4,9) v(1)] assms(6) e by simp
  then have "rd_get (redis_ops X) t (blacklist_key (hash_token X tok)) (redis w') = None"
    using services.revoked_until(2) [OF assms(1)] assms(6,10) by simp
  then have "run_state (auth_required X rq next) ?s = run_state next
      (?s\<lparr>world := snd (run_state (cache_store X (hash_token X tok) (decode_access p)) (world ?s)),
         ctx_user := Some (ac_uid (decode_access p)), ctx_email := Some (ac_email (decode_access p))\<rparr>)" for "next"
    using auth_required_miss [OF assms(8), of ?s X "next"] q assms(4,7) v(2) by (simp add: quiet_def)
  then show ?thesis unfolding passes_def
    by (intro exI conjI allI, assumption) (simp add: decode_access_def)
qed

section \<open>The permission check\<close>

lemma require_permission_outcome:
  "(\<exists>s'. stops (require_permission action resource) s s' \<and> out_status s' \<in> {401, 403} \<and> refused s s' \<and>
      quiet (world s) (world s')) \<or>
   (\<exists>s' uid. passes (require_permission action resource) s s' \<and> ctx_user s = Some uid \<and>
      has_permission uid action resource (db (world s)) \<and>
      ctx_user s' = ctx_user s \<and> db (world s') = db (world s) \<and> quiet (world s) (world s'))"
proof (cases "ctx_user s")
  case None
  then have "stops (require_permission action resource) s
      (s\<lparr>out_status := 401, out_body := Some (err_body ''user not authenticated'')\<rparr>)"
    by (simp add: stops_def require_permission_def)
  then show ?thesis by - (intro disjI1 exI conjI, assumption, simp_all)
next
  case (Some uid)
  obtain r w1 where r: "run_state (sql_row (\<lambda>d. Some (has_permission uid action resource d))) (world s) = (r, w1)"
    by fastforce
  then have q: "quiet (world s) w1" and d: "db w1 = db (world s)"
    by (auto simp: sql_row_def Let_def split: prod.splits dest: next_call_frame next_call_quiet)
  show ?thesis
  proof (cases "r = Inr True")
    case True
    then have "has_permission uid action resource (db (world s))"
      using r by (auto simp: sql_row_def Let_def split: prod.splits if_splits dest!: next_call_frame)
    moreover have "passes (require_permission action resource) s (s\<lparr>world := w1\<rparr>)"
      using Some r True by (simp add: passes_def require_permission_def)
    ultimately show ?thesis using Some q d by (intro disjI2 exI [of _ "s\<lparr>world := w1\<rparr>"] exI [of _ uid]) simp
  next
    case False
    then have "stops (require_permission action resource) s
        (s\<lparr>world := w1, out_status := 403, out_body := Some (err_body ''insufficient permissions'')\<rparr>)"
      using Some r by (simp add: stops_def require_permission_def)
    with q d show ?thesis by - (intro disjI1 exI conjI, assumption, simp_all)
  qed
qed

text \<open>
  C7: the permission check fails closed. Whatever becomes of its query, a request goes on
  only if it is authenticated and one of the user's roles has a permission with the action
  and the resource; every other request is answered with 401 or 403. A request that goes on
  leaves the tables and the context alone.
\<close>
theorem permission_check_fails_closed:
  "(\<exists>s'. stops (require_permission action resource) s s' \<and> out_status s' \<in> {401, 403}) \<or>
   (\<exists>s' uid. passes (require_permission action resource) s s' \<and> ctx_user s = Some uid \<and>
      has_permission uid action resource (db (world s)) \<and>
      ctx_user s' = ctx_user s \<and> db (world s') = db (world s))"
  using require_permission_outcome [of action resource s] by blast

text \<open>
  With the database at work the check is exact: the request goes on just when the user
  has the permission.
\<close>
lemma permission_check_exact:
  assumes "sched (world s) = []" and "ctx_user s = Some uid"
  shows "(\<exists>s'. passes (require_permission action resource) s s') \<longleftrightarrow>
    has_permission uid action resource (db (world s))"
proof
  assume "has_permission uid action resource (db (world s))"
  with assms have "passes (require_permission action resource) s s"
    by (simp add: passes_def require_permission_def)
  then show "\<exists>s'. passes (require_permission action resource) s s'" by blast
next
  assume p: "\<exists>s'. passes (require_permission action resource) s s'"
  show "has_permission uid action resource (db (world s))"
  proof (rule ccontr)
    assume "\<not> has_permission uid action resource (db (world s))"
    with assms have "stops (require_permission action resource) s
        (s\<lparr>out_status := 403, out_body := Some (err_body ''insufficient permissions'')\<rparr>)"
      by (simp add: stops_def require_permission_def)
    with p show False by (blast dest: stops_not_passes)
  qed
qed

end
