(* ===== verification/RateLimit.thy ===== *)
theory RateLimit
  imports AuthGuard
begin

text \<open>
  The rate limiter in Redis: what one request does to its counter, how many requests of a
  series pass, and how many pass when requests run concurrently between the reading of the
  counter and its increment.
\<close>

section \<open>One request\<close>

text \<open>The counter of a key: nothing counts as zero, a text is no counter.\<close>

definition counted :: "key_space \<Rightarrow> time \<Rightarrow> string \<Rightarrow> int option" where
  "counted m t k = (case live m t k of None \<Rightarrow> Some 0 | Some (RInt n, _) \<Rightarrow> Some n | Some (RStr _, _) \<Rightarrow> None)"

lemma counted_upd [simp]:
  "counted (m(k \<mapsto> (RInt n, x))) t k = (if expired t x then Some 0 else Some n)"
  "k' \<noteq> k \<Longrightarrow> counted (m(k := y)) t k' = counted m t k'"
  by (simp_all add: counted_def)

definition window :: "int \<Rightarrow> duration" where
  "window windowSec = dur_mul windowSec nsSecond"

lemma window_positive: "0 < n \<Longrightarrow> n < 2 ^ 33 \<Longrightarrow> 0 < window n \<and> nsSecond dvd window n \<and> window n = n * nsSecond"
  by (simp add: window_def dur_mul_def wrap64_def nsSecond_def)

definition counted_redis :: "'r ext \<Rightarrow> string \<Rightarrow> duration \<Rightarrow> time \<Rightarrow> 'r \<Rightarrow> 'r" where
  "counted_redis X k d t r = rd_expire (redis_ops X) t k d (snd (rd_incr (redis_ops X) t k r))"

context services
begin

lemma counted_redis_view:
  assumes "counted (view r) t k = Some n" and "n < 2 ^ 63 - 1" and "0 < d" and "nsSecond dvd d"
  shows "view (counted_redis X k d t r) = (view r)(k \<mapsto> (RInt (n + 1), Some (t + d)))"
    and "fst (rd_incr (redis_ops X) t k r) = Some (n + 1)"
proof -
  have "view (counted_redis X k d t r) = (view r)(k \<mapsto> (RInt (n + 1), Some (t + d))) \<and>
    fst (rd_incr (redis_ops X) t k r) = Some (n + 1)"
  proof (cases "live (view r) t k")
    case None
    with assms show ?thesis
      using incr_new [OF None] count_new [OF None] by (simp add: counted_def counted_redis_def)
  next
    case (Some p)
    with assms(1) obtain x where l: "live (view r) t k = Some (RInt n, x)"
      by (cases p) (auto simp: counted_def split: redis_value.splits)
    show ?thesis using incr_old [OF l assms(2)] count_old [OF l assms(2-4)] by (simp add: counted_redis_def)
  qed
  then show "view (counted_redis X k d t r) = (view r)(k \<mapsto> (RInt (n + 1), Some (t + d)))"
    and "fst (rd_incr (redis_ops X) t k r) = Some (n + 1)" by auto
qed

lemma get_counted:
  "counted (view r) t k = Some n \<Longrightarrow>
   rd_get (redis_ops X) t k r = None \<and> n = 0 \<or> rd_get (redis_ops X) t k r = Some (RInt n)"
  by (auto simp: get_view counted_def split: option.splits redis_value.splits prod.splits)

lemma rate_limiter_run:
  assumes "sched (world s) = []" and "counted (view (redis (world s))) (clock (world s)) (rate_key rq) = Some n"
    and "maxReqs < 2 ^ 63 - 1" and "0 < window win" and "nsSecond dvd window win"
  shows "run_state (rate_limiter X maxReqs win rq next) s =
    (if maxReqs \<le> n then ((), s\<lparr>out_status := 429, out_body := Some (err_body ''too many requests'')\<rparr>)
     else run_state next (s\<lparr>world := (world s)\<lparr>redis :=
       counted_redis X (rate_key rq) (window win) (clock (world s)) (redis (world s))\<rparr>\<rparr>))"
proof -
  have inc: "fst (rd_incr (redis_ops X) (clock (world s)) (rate_key rq) (redis (world s))) = Some (n + 1)"
    if "n < maxReqs" using counted_redis_view(2) [OF assms(2)] that assms(3-5) by simp
  show ?thesis
    using get_counted [OF assms(2)] assms(1) inc
    by (auto simp: rate_limiter_def redis_get_def redis_incr_expire_def Let_def counted_redis_def
        window_def [symmetric] split: prod.splits)
qed

end

text \<open>
  With Redis at work, a request is refused with 429, and nothing changes, when its
  counter has reached the maximum; otherwise the request goes on, its counter is one higher
  and lives for a whole window from this request on.
\<close>
lemma rate_limiter_counts:
  assumes "services X view" and "sched (world s) = []"
    and "counted (view (redis (world s))) (clock (world s)) (rate_key rq) = Some n"
    and "maxReqs < 2 ^ 63 - 1" and "0 < win" and "win < 2 ^ 33"
  shows "(maxReqs \<le> n \<longrightarrow> stops (rate_limiter X maxReqs win rq) s
      (s\<lparr>out_status := 429, out_body := Some (err_body ''too many requests'')\<rparr>)) \<and>
    (n < maxReqs \<longrightarrow> (\<exists>r'. passes (rate_limiter X maxReqs win rq) s (s\<lparr>world := (world s)\<lparr>redis := r'\<rparr>\<rparr>) \<and>
       view r' = (view (redis (world s)))(rate_key rq \<mapsto>
         (RInt (n + 1), Some (clock (world s) + win * nsSecond)))))"
proof -
  note w = window_positive [OF assms(5,6)]
  note run = services.rate_limiter_run [OF assms(1-4)]
  have "view (counted_redis X (rate_key rq) (window win) (clock (world s)) (redis (world s))) =
      (view (redis (world s)))(rate_key rq \<mapsto> (RInt (n + 1), Some (clock (world s) + win * nsSecond)))"
    if "n < maxReqs"
    using services.counted_redis_view(1) [OF assms(1,3), of "window win"] that assms(4) w by simp
  with run w show ?thesis unfolding stops_def passes_def by fastforce
qed

section \<open>A series of requests\<close>

text \<open>
  Requests with one key, each a while after the one before; the chain behind the limiter
  answers 200. The result says which of them were let through.
\<close>

definition arrive :: "duration \<Rightarrow> ('r, 'l) srv \<Rightarrow> ('r, 'l) srv" where
  "arrive dt s = s\<lparr>world := (world s)\<lparr>clock := clock (world s) + dt\<rparr>, out_status := 0\<rparr>"

fun admitted :: "'r ext \<Rightarrow> int \<Rightarrow> int \<Rightarrow> request \<Rightarrow> duration list \<Rightarrow> ('r, 'l) srv \<Rightarrow> bool list" where
  "admitted X maxReqs win rq [] s = []"
| "admitted X maxReqs win rq (dt # dts) s =
     (let s1 = snd (run_state (rate_limiter X maxReqs win rq (respond_status 200)) (arrive dt s))
      in (out_status s1 = 200) # admitted X maxReqs win rq dts s1)"

text \<open>The counter stands at \<open>k\<close> for at least the duration \<open>d\<close> from now.\<close>

definition stands :: "key_space \<Rightarrow> time \<Rightarrow> string \<Rightarrow> int \<Rightarrow> duration \<Rightarrow> bool" where
  "stands m t key k d \<longleftrightarrow> k = 0 \<and> live m t key = None \<or>
     0 < k \<and> (\<exists>x. m key = Some (RInt k, Some x) \<and> t + d < x)"

lemma stands_counted: "stands m t key k d \<Longrightarrow> 0 \<le> dt \<Longrightarrow> dt \<le> d \<Longrightarrow> counted m (t + dt) key = Some k"
  using live_later [of m t key "t + dt"] by (auto simp: stands_def counted_def live_def split: option.splits)

lemma stands_later: "stands m t key k d \<Longrightarrow> 0 \<le> dt \<Longrightarrow> stands m (t + dt) key k (d - dt)"
  using live_later [of m t key "t + dt"] by (auto simp: stands_def)

lemma arrive_fields [simp]:
  "world (arrive dt s) = (world s)\<lparr>clock := clock (world s) + dt\<rparr>" "out_status (arrive dt s) = 0"
  by (simp_all add: arrive_def)

context services
begin

lemma admitted_step:
  fixes s :: "('r, 'l) srv"
  assumes "sched (world s) = []" and "stands (view (redis (world s))) (clock (world s)) (rate_key rq) k d"
    and "0 \<le> dt" "dt \<le> d" and "maxReqs < 2 ^ 63 - 1" and "0 < window win" and "nsSecond dvd window win"
  shows "maxReqs \<le> k \<Longrightarrow> \<exists>s1 :: ('r, 'l) srv. admitted X maxReqs win rq (dt # dts) s = False # admitted X maxReqs win rq dts s1 \<and>
      sched (world s1) = [] \<and> clock (world s1) = clock (world s) + dt \<and>
      stands (view (redis (world s1))) (clock (world s1)) (rate_key rq) k (d - dt)"
    and "k < maxReqs \<Longrightarrow> d' < window win \<Longrightarrow> \<exists>s1 :: ('r, 'l) srv. admitted X maxReqs win rq (dt # dts) s = True # admitted X maxReqs win rq dts s1 \<and>
      sched (world s1) = [] \<and> clock (world s1) = clock (world s) + dt \<and>
      stands (view (redis (world s1))) (clock (world s1)) (rate_key rq) (k + 1) d'"
proof -
  let ?s = "arrive dt s"
  have c: "counted (view (redis (world ?s))) (clock (world ?s)) (rate_key rq) = Some k"
    using stands_counted [OF assms(2-4)] by simp
  have sch: "sched (world ?s) = []" using assms(1) by simp
  note run = rate_limiter_run [OF sch c assms(5-7), of "respond_status 200"]
  have k: "0 \<le> k" using assms(2) by (auto simp: stands_def)
  show "maxReqs \<le> k \<Longrightarrow> \<exists>s1 :: ('r, 'l) srv. admitted X maxReqs win rq (dt # dts) s = False # admitted X maxReqs win rq dts s1 \<and>
      sched (world s1) = [] \<and> clock (world s1) = clock (world s) + dt \<and>
      stands (view (redis (world s1))) (clock (world s1)) (rate_key rq) k (d - dt)"
    using run stands_later [OF assms(2,3)] assms(1)
    by (intro exI [of _ "?s\<lparr>out_status := 429, out_body := Some (err_body ''too many requests'')\<rparr>"]) simp
  show "k < maxReqs \<Longrightarrow> d' < window win \<Longrightarrow> \<exists>s1 :: ('r, 'l) srv. admitted X maxReqs win rq (dt # dts) s = True # admitted X maxReqs win rq dts s1 \<and>
      sched (world s1) = [] \<and> clock (world s1) = clock (world s) + dt \<and>
      stands (view (redis (world s1))) (clock (world s1)) (rate_key rq) (k + 1) d'"
  proof -
    assume "k < maxReqs" and "d' < window win"
    let ?r = "counted_redis X (rate_key rq) (window win) (clock (world ?s)) (redis (world ?s))"
    have "view ?r = (view (redis (world ?s)))(rate_key rq \<mapsto> (RInt (k + 1), Some (clock (world ?s) + window win)))"
      using \<open>k < maxReqs\<close> assms(5) by (intro counted_redis_view(1) [OF c _ assms(6,7)]) simp
    then have "stands (view ?r) (clock (world ?s)) (rate_key rq) (k + 1) d'"
      using k \<open>d' < window win\<close> by (simp add: stands_def)
    then show ?thesis using run \<open>k < maxReqs\<close> assms(1)
      by (intro exI [of _ "?s\<lparr>world := (world ?s)\<lparr>redis := ?r\<rparr>, out_status := 200\<rparr>"]) simp
  qed
qed

lemma admitted_in_window:
  fixes s :: "('r, 'l) srv"
  assumes "sched (world s) = []" and "\<forall>dt \<in> set dts. 0 \<le> dt" and "sum_list dts < window win"
    and "stands (view (redis (world s))) (clock (world s)) (rate_key rq) k (sum_list dts)"
    and "maxReqs < 2 ^ 63 - 1" and "nsSecond dvd window win"
  shows "admitted X maxReqs win rq dts s =
    replicate (min (nat (maxReqs - k)) (length dts)) True @ replicate (length dts - nat (maxReqs - k)) False"
  using assms(1-4)
proof (induction dts arbitrary: s k)
  case (Cons dt dts)
  have nn: "0 \<le> sum_list dts" using Cons.prems(2) by (intro sum_list_nonneg) auto
  have le: "0 \<le> dt" "dt \<le> sum_list (dt # dts)" "0 < window win" "sum_list dts < window win"
    "\<forall>dt \<in> set dts. 0 \<le> dt" "0 \<le> sum_list dts"
    using Cons.prems(2,3) nn by auto
  show ?case
  proof (cases "maxReqs \<le> k")
    case True
    from admitted_step(1) [OF Cons.prems(1,4) le(1,2) assms(5) le(3) assms(6) True, of dts]
    obtain s1 :: "('r, 'l) srv" where s1: "admitted X maxReqs win rq (dt # dts) s = False # admitted X maxReqs win rq dts s1"
      "sched (world s1) = []" "stands (view (redis (world s1))) (clock (world s1)) (rate_key rq) k (sum_list dts)"
      by (auto simp del: admitted.simps(2))
    with Cons.IH [OF s1(2) le(5,4) s1(3)] True show ?thesis by (simp del: admitted.simps(2))
  next
    case False
    then have "k < maxReqs" by simp
    from admitted_step(2) [OF Cons.prems(1,4) le(1,2) assms(5) le(3) assms(6) this le(4), of dts]
    obtain s1 :: "('r, 'l) srv" where s1: "admitted X maxReqs win rq (dt # dts) s = True # admitted X maxReqs win rq dts s1"
      "sched (world s1) = []" "stands (view (redis (world s1))) (clock (world s1)) (rate_key rq) (k + 1) (sum_list dts)"
      by (auto simp del: admitted.simps(2))
    have "nat (maxReqs - k) = Suc (nat (maxReqs - (k + 1)))" using False by simp
    with Cons.IH [OF s1(2) le(5,4) s1(3)] s1(1) show ?thesis by (simp del: admitted.simps(2))
  qed
qed simp

lemma admitted_slow:
  fixes s :: "('r, 'l) srv"
  assumes "sched (world s) = []" and "\<forall>dt \<in> set dts. 0 \<le> dt \<and> dt < window win"
    and "stands (view (redis (world s))) (clock (world s)) (rate_key rq) k (window win - 1)"
    and "maxReqs < 2 ^ 63 - 1" and "0 < window win" and "nsSecond dvd window win"
    and "int (length dts) = maxReqs - k + 1" and "k \<le> maxReqs"
  shows "admitted X maxReqs win rq dts s = replicate (nat (maxReqs - k)) True @ [False]"
  using assms(1-3,7,8)
proof (induction dts arbitrary: s k)
  case (Cons dt dts)
  have le: "0 \<le> dt" "dt \<le> window win - 1" "window win - 1 < window win" using Cons.prems(2) by auto
  show ?case
  proof (cases "maxReqs \<le> k")
    case True
    then have "k = maxReqs" using Cons.prems(5) by simp
    with Cons.prems(4) have "dts = []" by simp
    with admitted_step(1) [OF Cons.prems(1,3) le(1,2) assms(4-6) True, of dts] \<open>k = maxReqs\<close> show ?thesis
      by (auto simp del: admitted.simps(2) simp: \<open>dts = []\<close>)
  next
    case False
    then have "k < maxReqs" by simp
    from admitted_step(2) [OF Cons.prems(1,3) le(1,2) assms(4-6) this le(3), of dts]
    obtain s1 :: "('r, 'l) srv" where s1: "admitted X maxReqs win rq (dt # dts) s = True # admitted X maxReqs win rq dts s1"
      "sched (world s1) = []" "stands (view (redis (world s1))) (clock (world s1)) (rate_key rq) (k + 1) (window win - 1)"
      by (auto simp del: admitted.simps(2))
    have "admitted X maxReqs win rq dts s1 = replicate (nat (maxReqs - (k + 1))) True @ [False]"
      using Cons.prems False s1 by (intro Cons.IH) auto
    moreover have "nat (maxReqs - k) = Suc (nat (maxReqs - (k + 1)))" using False by simp
    ultimately show ?thesis using s1(1) by (simp del: admitted.simps(2))
  qed
qed simp

end

text \<open>
  C8: of the requests that one client sends within one window, starting with none counted,
  exactly the first \<open>maxReqs\<close> pass.
\<close>
theorem rate_limit_holds_in_a_window:
  assumes "services X view" and "sched (world s) = []" and "0 < win" and "win < 2 ^ 33"
    and "live (view (redis (world s))) (clock (world s)) (rate_key rq) = None" and "maxReqs < 2 ^ 63 - 1"
    and "\<forall>dt \<in> set dts. 0 \<le> dt" and "sum_list dts < win * nsSecond"
  shows "admitted X maxReqs win rq dts s =
    replicate (min (nat maxReqs) (length dts)) True @ replicate (length dts - nat maxReqs) False"
  using services.admitted_in_window [OF assms(1,2,7) _ _ assms(6), of win rq 0] window_positive [OF assms(3,4)]
    assms(5,8) by (simp add: stands_def)

theorem rate_limit_holds_in_a_window_witness:
  "admitted (demo_ext []) 2 60 demo_request [1, 5, 0, 7] (demo_srv (demo_world demo_db 0)) = [True, True, False, False]"
  using rate_limit_holds_in_a_window [OF demo.services_axioms [of "[]"], of "demo_srv (demo_world demo_db 0)" 60
      demo_request 2 "[1, 5, 0, 7]"]
  by (simp add: live_def nsSecond_def numeral_eq_Suc del: admitted.simps)

text \<open>
  C17: the window does not slide. Each request that passes starts the window anew, so a
  client that never pauses for a whole window is refused at its request number
  \<open>maxReqs + 1\<close>, however long its requests took altogether.
\<close>
theorem rate_limit_window_does_not_slide:
  assumes "services X view" and "sched (world s) = []" and "0 < win" and "win < 2 ^ 33"
    and "live (view (redis (world s))) (clock (world s)) (rate_key rq) = None"
    and "0 \<le> maxReqs" and "maxReqs < 2 ^ 63 - 1"
    and "\<forall>dt \<in> set dts. 0 \<le> dt \<and> dt < win * nsSecond" and "int (length dts) = maxReqs + 1"
  shows "admitted X maxReqs win rq dts s = replicate (nat maxReqs) True @ [False]"
  using services.admitted_slow [OF assms(1,2), of dts win rq 0 maxReqs] window_positive [OF assms(3,4)]
    assms(5-9) by (simp add: stands_def)

theorem rate_limit_window_does_not_slide_witness:
  "admitted (demo_ext []) 2 60 demo_request [59 * nsSecond, 59 * nsSecond, 59 * nsSecond]
     (demo_srv (demo_world demo_db 0)) = [True, True, False]"
  using rate_limit_window_does_not_slide [OF demo.services_axioms [of "[]"], of "demo_srv (demo_world demo_db 0)" 60
      demo_request 2 "[59 * nsSecond, 59 * nsSecond, 59 * nsSecond]"]
  by (simp add: live_def nsSecond_def numeral_eq_Suc del: admitted.simps)

text \<open>
  The key contains the header \<open>X-Device-ID\<close>, which the client chooses: requests with
  different values in it have different counters, so what one of them did is not seen by
  the other.
\<close>
lemma rate_limit_is_per_device:
  assumes "services X view" and "sched (world s) = []"
    and "counted (view (redis (world s))) (clock (world s)) (rate_key rq) = Some n" and "n < maxReqs"
    and "maxReqs < 2 ^ 63 - 1" and "0 < win" and "win < 2 ^ 33"
    and "rq_ip rq' = rq_ip rq" and "GetHeader rq' ''X-Device-ID'' \<noteq> GetHeader rq ''X-Device-ID''"
    and "s1 = snd (run_state (rate_limiter X maxReqs win rq (respond_status 200)) s)"
  shows "counted (view (redis (world s1))) t (rate_key rq') = counted (view (redis (world s))) t (rate_key rq')"
proof -
  note w = window_positive [OF assms(6,7)]
  have "view (redis (world s1)) = (view (redis (world s)))(rate_key rq \<mapsto>
      (RInt (n + 1), Some (clock (world s) + window win)))"
    using services.rate_limiter_run [OF assms(1-3,5), of win "respond_status 200"] assms(4,5,10) w
      services.counted_redis_view(1) [OF assms(1,3), of "window win"] by simp
  moreover have "rate_key rq' \<noteq> rate_key rq" using assms(8,9) by (simp add: rate_key_def)
  ultimately show ?thesis by (simp add: counted_def)
qed

section \<open>Concurrent requests\<close>

text \<open>
  Requests with one key that run concurrently: each reads the counter and, if it is below
  the maximum, is in flight until it increments the counter and passes. The state is the
  world, the number of requests in flight and the number of those that passed; time may
  pass as long as the counter does not expire.
\<close>

record 'r race =
  rc_world :: "'r world"
  rc_flight :: nat
  rc_passed :: nat

inductive race_step ::
  "'r ext \<Rightarrow> ('r \<Rightarrow> key_space) \<Rightarrow> int \<Rightarrow> int \<Rightarrow> request \<Rightarrow> nat \<Rightarrow> 'r race \<Rightarrow> 'r race \<Rightarrow> bool"
  for X view maxReqs win rq par where
  check: "run_state (redis_get X (rate_key rq)) (rc_world a) = (Inr v, w') \<Longrightarrow>
    (case v of Some (RInt n) \<Rightarrow> n | _ \<Rightarrow> 0) < maxReqs \<Longrightarrow> rc_flight a < par \<Longrightarrow>
    race_step X view maxReqs win rq par a (a\<lparr>rc_world := w', rc_flight := Suc (rc_flight a)\<rparr>)"
| count: "run_state (redis_incr_expire X (rate_key rq) (dur_mul win nsSecond)) (rc_world a) = (Inr (), w') \<Longrightarrow>
    0 < rc_flight a \<Longrightarrow>
    race_step X view maxReqs win rq par a
      (a\<lparr>rc_world := w', rc_flight := rc_flight a - 1, rc_passed := Suc (rc_passed a)\<rparr>)"
| tick: "clock (rc_world a) \<le> t \<Longrightarrow>
    live (view (redis (rc_world a))) t (rate_key rq) = live (view (redis (rc_world a))) (clock (rc_world a)) (rate_key rq) \<Longrightarrow>
    race_step X view maxReqs win rq par a (a\<lparr>rc_world := (rc_world a)\<lparr>clock := t\<rparr>\<rparr>)"

inductive race_reachable ::
  "'r ext \<Rightarrow> ('r \<Rightarrow> key_space) \<Rightarrow> int \<Rightarrow> int \<Rightarrow> request \<Rightarrow> nat \<Rightarrow> 'r race \<Rightarrow> 'r race \<Rightarrow> bool"
  for X view maxReqs win rq par a0 where
  start: "race_reachable X view maxReqs win rq par a0 a0"
| step: "race_reachable X view maxReqs win rq par a0 a \<Longrightarrow> race_step X view maxReqs win rq par a b \<Longrightarrow>
    race_reachable X view maxReqs win rq par a0 b"

definition race_inv :: "('r \<Rightarrow> key_space) \<Rightarrow> int \<Rightarrow> request \<Rightarrow> nat \<Rightarrow> 'r race \<Rightarrow> bool" where
  "race_inv view maxReqs rq par a \<longleftrightarrow> sched (rc_world a) = [] \<and>
     counted (view (redis (rc_world a))) (clock (rc_world a)) (rate_key rq) = Some (int (rc_passed a)) \<and>
     int (rc_passed a + rc_flight a) \<le> max 0 (maxReqs - 1 + int par)"

lemma race_step_inv:
  assumes "services X view" and "0 < win" and "win < 2 ^ 33" and "maxReqs + int par < 2 ^ 63 - 1" and "0 \<le> maxReqs"
  shows "race_step X view maxReqs win rq par a b \<Longrightarrow> race_inv view maxReqs rq par a \<Longrightarrow> race_inv view maxReqs rq par b"
proof (induction rule: race_step.induct)
  case (check a v w')
  then show ?case
    using services.get_counted [OF assms(1), of "redis (rc_world a)" "clock (rc_world a)" "rate_key rq"]
    by (auto simp: race_inv_def redis_get_def)
next
  case (count a w')
  note w = window_positive [OF assms(2,3)]
  have c: "counted (view (redis (rc_world a))) (clock (rc_world a)) (rate_key rq) = Some (int (rc_passed a))"
    and s: "sched (rc_world a) = []" and le: "int (rc_passed a + rc_flight a) \<le> max 0 (maxReqs - 1 + int par)"
    using count.prems by (simp_all add: race_inv_def)
  then have lt: "int (rc_passed a) < 2 ^ 63 - 1" using assms(4,5) by (auto simp: max_def split: if_splits)
  note v = services.counted_redis_view [OF assms(1) c lt, of "window win"]
  have "w' = (rc_world a)\<lparr>redis := counted_redis X (rate_key rq) (window win) (clock (rc_world a)) (redis (rc_world a))\<rparr>"
    using count.hyps(1) s by (auto simp: redis_incr_expire_def counted_redis_def window_def Let_def
        split: prod.splits option.splits)
  then show ?case using v w s le count.hyps(2) by (simp add: race_inv_def counted_def)
next
  case (tick a t)
  then show ?case by (simp add: race_inv_def counted_def)
qed

lemma race_reachable_inv:
  assumes "services X view" and "0 < win" and "win < 2 ^ 33" and "maxReqs + int par < 2 ^ 63 - 1" and "0 \<le> maxReqs"
    and "race_reachable X view maxReqs win rq par a0 a" and "race_inv view maxReqs rq par a0"
  shows "race_inv view maxReqs rq par a"
  using assms(6,7) by (induction rule: race_reachable.induct) (auto intro: race_step_inv [OF assms(1-5)])

text \<open>
  C9: reading and incrementing are two commands. If at most \<open>par\<close> requests are between
  them at a time, up to \<open>maxReqs - 1 + par\<close> requests pass while the counter lives, and no
  more.
\<close>
theorem rate_limit_race_bound:
  assumes "services X view" and "0 < win" and "win < 2 ^ 33" and "1 \<le> maxReqs" and "maxReqs + int par < 2 ^ 63 - 1"
    and "race_reachable X view maxReqs win rq par \<lparr>rc_world = w, rc_flight = 0, rc_passed = 0\<rparr> a"
    and "sched w = []" and "live (view (redis w)) (clock w) (rate_key rq) = None"
  shows "int (rc_passed a) \<le> maxReqs - 1 + int par"
proof -
  have "race_inv view maxReqs rq par a"
    using assms(4,7,8) by (intro race_reachable_inv [OF assms(1-3,5) _ assms(6)]) (auto simp: race_inv_def counted_def)
  then show ?thesis using assms(4) by (auto simp: race_inv_def max_def split: if_splits)
qed

text \<open>The counter's world after \<open>n\<close> requests at one instant.\<close>

fun counted_times :: "'r ext \<Rightarrow> string \<Rightarrow> duration \<Rightarrow> nat \<Rightarrow> 'r world \<Rightarrow> 'r world" where
  "counted_times X k d 0 w = w"
| "counted_times X k d (Suc n) w =
     (let w1 = counted_times X k d n w in w1\<lparr>redis := counted_redis X k d (clock w1) (redis w1)\<rparr>)"

lemma counted_times_frame [simp]:
  "sched (counted_times X k d n w) = sched w" "clock (counted_times X k d n w) = clock w"
  by (induction n) (simp_all add: Let_def)

lemma counted_times_count:
  assumes "services X view" and "live (view (redis w)) (clock w) k = None" and "0 < d" and "nsSecond dvd d"
    and "int n < 2 ^ 63 - 1"
  shows "counted (view (redis (counted_times X k d n w))) (clock w) k = Some (int n)"
  using assms(5)
proof (induction n)
  case (Suc n)
  then have "int n < 2 ^ 63 - 1" by simp
  note v = services.counted_redis_view(1) [OF assms(1) Suc.IH [OF this] this assms(3,4)]
  have "counted (view (redis (counted_times X k d (Suc n) w))) (clock w) k =
      counted (view (counted_redis X k d (clock w) (redis (counted_times X k d n w)))) (clock w) k"
    by (simp add: Let_def)
  also have "\<dots> = Some (int n + 1)" unfolding v counted_upd using assms(3) by simp
  finally show ?case by simp
qed (simp add: assms(2) counted_def)

lemma race_checks:
  assumes "services X view" and "sched w = []" and "live (view (redis w)) (clock w) (rate_key rq) = None" and "1 \<le> maxReqs"
  shows "n \<le> par \<Longrightarrow> race_reachable X view maxReqs win rq par \<lparr>rc_world = w, rc_flight = 0, rc_passed = 0\<rparr>
    \<lparr>rc_world = w, rc_flight = n, rc_passed = 0\<rparr>"
proof (induction n)
  case (Suc n)
  let ?a = "\<lparr>rc_world = w, rc_flight = n, rc_passed = 0\<rparr>"
  have "rd_get (redis_ops X) (clock w) (rate_key rq) (redis w) = None"
    using services.get_counted [OF assms(1), of "redis w" "clock w" "rate_key rq" 0] assms(3)
      redis_service.get_view [of "redis_ops X" view] assms(1) by (simp add: counted_def services_def)
  then have "race_step X view maxReqs win rq par ?a (?a\<lparr>rc_world := w, rc_flight := Suc (rc_flight ?a)\<rparr>)"
    using Suc.prems assms(2,4) by (intro race_step.check [where v = None]) (auto simp: redis_get_def)
  with Suc show ?case by (auto intro: race_reachable.step)
qed (rule race_reachable.start)

lemma race_counts:
  assumes "services X view" and "sched w = []" and "live (view (redis w)) (clock w) (rate_key rq) = None" and "1 \<le> maxReqs"
    and "0 < win" and "win < 2 ^ 33" and "int par < 2 ^ 63 - 1"
  shows "n \<le> par \<Longrightarrow> race_reachable X view maxReqs win rq par \<lparr>rc_world = w, rc_flight = 0, rc_passed = 0\<rparr>
    \<lparr>rc_world = counted_times X (rate_key rq) (window win) n w, rc_flight = par - n, rc_passed = n\<rparr>"
proof (induction n)
  case 0
  show ?case using race_checks [OF assms(1-4), of par] by simp
next
  case (Suc n)
  let ?w = "counted_times X (rate_key rq) (window win) n w"
  let ?a = "\<lparr>rc_world = ?w, rc_flight = par - n, rc_passed = n\<rparr>"
  note wi = window_positive [OF assms(5,6)]
  have lt: "int n < 2 ^ 63 - 1" using Suc.prems assms(7) by simp
  then have c: "counted (view (redis ?w)) (clock ?w) (rate_key rq) = Some (int n)"
    using counted_times_count [OF assms(1,3), of "window win" n] wi by simp
  have "fst (rd_incr (redis_ops X) (clock ?w) (rate_key rq) (redis ?w)) = Some (int n + 1)"
    using wi by (intro services.counted_redis_view(2) [OF assms(1) c lt, of "window win"]) auto
  then have "run_state (redis_incr_expire X (rate_key rq) (dur_mul win nsSecond)) (rc_world ?a) =
      (Inr (), counted_times X (rate_key rq) (window win) (Suc n) w)"
    using assms(2) by (auto simp: redis_incr_expire_def counted_redis_def window_def Let_def split: prod.splits)
  from race_step.count [OF this] Suc.prems
  have "race_step X view maxReqs win rq par ?a
      \<lparr>rc_world = counted_times X (rate_key rq) (window win) (Suc n) w, rc_flight = par - Suc n, rc_passed = Suc n\<rparr>"
    by simp
  with Suc show ?case by (auto intro: race_reachable.step)
qed

text \<open>
  So many requests that arrive together all pass a limit of any size: each reads the
  counter before any of them has incremented it.
\<close>
lemma rate_limit_burst_passes:
  assumes "services X view" and "sched w = []" and "live (view (redis w)) (clock w) (rate_key rq) = None"
    and "1 \<le> maxReqs" and "0 < win" and "win < 2 ^ 33" and "int par < 2 ^ 63 - 1"
  shows "\<exists>a. race_reachable X view maxReqs win rq par \<lparr>rc_world = w, rc_flight = 0, rc_passed = 0\<rparr> a \<and> rc_passed a = par"
  using race_counts [OF assms, of par] by - (intro exI conjI, erule meta_mp, simp_all)

theorem rate_limit_race_bound_witness:
  "\<exists>a. race_reachable (demo_ext []) map_of 1 60 demo_request 50
     \<lparr>rc_world = demo_world demo_db 0, rc_flight = 0, rc_passed = 0\<rparr> a \<and> int (rc_passed a) \<le> 1 - 1 + int 50"
proof -
  obtain a where a: "race_reachable (demo_ext []) map_of 1 60 demo_request 50
      \<lparr>rc_world = demo_world demo_db 0, rc_flight = 0, rc_passed = 0\<rparr> a"
    using race_reachable.start by blast
  have "int (rc_passed a) \<le> 1 - 1 + int 50"
    by (rule rate_limit_race_bound [OF demo.services_axioms _ _ _ _ a]) (simp_all add: live_def)
  with a show ?thesis by blast
qed

end
