(* ===== verification/AdminRepo.thy ===== *)
theory AdminRepo
  imports RateLimit "HOL-Library.List_Lexorder"
begin

text \<open>
  The repositories of the administration module,
  \<open>internal/modules/admin/repository/\<close>: users with their roles, roles with their
  permissions, permissions. Lists are paged and ordered by the database; the order of texts
  is the database's collation, a function to sort keys that the definitions take as an
  argument.
\<close>

section \<open>Scanning rows\<close>

text \<open>
  The Go structs hold the description in a \<open>string\<close>: scanning a row whose \<open>description\<close> is
  NULL fails. A loop over rows gives up at the first row that fails.
\<close>

definition scan_role :: "string option role \<Rightarrow> db_error + string role" where
  "scan_role r = (case r_desc r of
     None \<Rightarrow> Inl (ScanNull ''description'')
   | Some s \<Rightarrow> Inr \<lparr>r_id = r_id r, r_name = r_name r, r_category = r_category r, r_desc = s,
                 r_created = r_created r\<rparr>)"

definition scan_permission :: "string option permission \<Rightarrow> db_error + string permission" where
  "scan_permission p = (case p_desc p of
     None \<Rightarrow> Inl (ScanNull ''description'')
   | Some s \<Rightarrow> Inr \<lparr>p_id = p_id p, p_name = p_name p, p_action = p_action p, p_resource = p_resource p,
                 p_desc = s, p_created = p_created p\<rparr>)"

fun scan_rows :: "('a \<Rightarrow> 'e + 'b) \<Rightarrow> 'a list \<Rightarrow> 'e + 'b list" where
  "scan_rows f [] = Inr []"
| "scan_rows f (x # xs) =
     (case f x of
        Inl e \<Rightarrow> Inl e
      | Inr y \<Rightarrow> (case scan_rows f xs of Inl e \<Rightarrow> Inl e | Inr ys \<Rightarrow> Inr (y # ys)))"

definition query_rows ::
  "('a \<Rightarrow> db_error + 'b) \<Rightarrow> (db \<Rightarrow> 'a list) \<Rightarrow> ('r world, db_error + 'b list) state" where
  "query_rows f q = on_error (sql_rows q) (\<lambda>e. ret (Inl e)) (\<lambda>rows. ret (scan_rows f rows))"

definition query_row ::
  "'b \<Rightarrow> ('a \<Rightarrow> db_error + 'b) \<Rightarrow> (db \<Rightarrow> 'a option) \<Rightarrow> ('r world, 'b option \<times> db_error option) state" where
  "query_row zero f q =
     nil_if_no_rows zero (on_error (sql_row q) (\<lambda>e. ret (Inl e)) (\<lambda>row. ret (f row)))"

definition zero_role :: "string role" where
  "zero_role = \<lparr>r_id = 0, r_name = [], r_category = [], r_desc = [], r_created = 0\<rparr>"

definition zero_permission :: "string permission" where
  "zero_permission = \<lparr>p_id = 0, p_name = [], p_action = [], p_resource = [], p_desc = [], p_created = 0\<rparr>"

text \<open>The bounds that every \<open>FindAll\<close> puts on its arguments.\<close>

definition clamp_limit :: "int \<Rightarrow> int" where
  "clamp_limit n = (if n \<le> 0 \<or> 100 < n then 20 else n)"

definition clamp_offset :: "int \<Rightarrow> int" where
  "clamp_offset n = (if n < 0 then 0 else n)"

section \<open>\<open>AdminUserRepository\<close>\<close>

definition admin_user_create :: "'r ext \<Rightarrow> user \<Rightarrow> ('r world, db_error + user) state" where
  "admin_user_create X u =
     on_error (sql_exec X (insert_user (u_email u) (u_hash u) (u_name u)))
       (\<lambda>e. ret (Inl e))
       (\<lambda>row. ret (Inr (u\<lparr>u_id := u_id row, u_created := u_created row, u_updated := u_updated row\<rparr>)))"

definition admin_find_by_email :: "string \<Rightarrow> ('r world, user option \<times> db_error option) state" where
  "admin_find_by_email email = nil_if_no_rows zero_user (sql_row (find_user_by_email email))"

definition admin_find_by_id :: "uuid \<Rightarrow> ('r world, user option \<times> db_error option) state" where
  "admin_find_by_id uid = nil_if_no_rows zero_user (sql_row (find_user_by_id uid))"

definition admin_find_all :: "int \<Rightarrow> int \<Rightarrow> ('r world, db_error + user list) state" where
  "admin_find_all limit offset =
     sql_rows (\<lambda>d. page (clamp_limit limit) (clamp_offset offset) (rev (sort_key u_created (users d))))"

definition admin_user_count :: "('r world, db_error + int) state" where
  "admin_user_count = sql_row (\<lambda>d. Some (int (length (users d))))"

definition assign_role :: "'r ext \<Rightarrow> uuid \<Rightarrow> uuid \<Rightarrow> ('r world, db_error + unit) state" where
  "assign_role X uid rid = sql_exec X (insert_user_role True uid rid)"

definition remove_role :: "'r ext \<Rightarrow> uuid \<Rightarrow> uuid \<Rightarrow> ('r world, db_error + unit) state" where
  "remove_role X uid rid = sql_exec X (delete_user_role uid rid)"

definition get_roles :: "uuid \<Rightarrow> ('r world, db_error + string role list) state" where
  "get_roles uid = query_rows scan_role (roles_of_user uid)"

text \<open>
  A transaction: the first statement that fails ends it, and the deferred \<open>Rollback\<close> undoes
  what it did.
\<close>

definition transaction ::
  "(('r world, db_error + unit) state) \<Rightarrow> ('r world, db_error + unit) state" where
  "transaction body =
     on_error tx_begin (\<lambda>e. ret (Inl e)) (\<lambda>d.
       on_error body (\<lambda>e. do { tx_rollback d; ret (Inl e) }) (\<lambda>_. tx_commit d))"

definition set_roles :: "'r ext \<Rightarrow> uuid \<Rightarrow> uuid list \<Rightarrow> ('r world, db_error + unit) state" where
  "set_roles X uid roleIDs = transaction
     (on_error (sql_exec X (delete_user_roles uid)) (\<lambda>e. ret (Inl e)) (\<lambda>_.
        try_each roleIDs (\<lambda>rid. sql_exec X (insert_user_role False uid rid))))"

definition update_last_login :: "'r ext \<Rightarrow> uuid \<Rightarrow> ('r world, db_error + unit) state" where
  "update_last_login X uid = do {
     now \<leftarrow> read_state clock;
     sql_exec X (update_user_login now uid)
   }"

section \<open>\<open>RoleRepository\<close>\<close>

definition role_create :: "'r ext \<Rightarrow> string role \<Rightarrow> ('r world, db_error + string role) state" where
  "role_create X r =
     on_error (sql_exec X (insert_role (r_name r) (r_category r) (r_desc r)))
       (\<lambda>e. ret (Inl e))
       (\<lambda>(i, t). ret (Inr (r\<lparr>r_id := i, r_created := t\<rparr>)))"

definition role_find_all ::
  "(string \<Rightarrow> nat list) \<Rightarrow> int \<Rightarrow> int \<Rightarrow> ('r world, db_error + string role list) state" where
  "role_find_all collate limit offset = query_rows scan_role
     (\<lambda>d. page (clamp_limit limit) (clamp_offset offset) (sort_key (\<lambda>r. collate (r_name r)) (roles d)))"

definition role_count :: "('r world, db_error + int) state" where
  "role_count = sql_row (\<lambda>d. Some (int (length (roles d))))"

definition role_find_by_id :: "uuid \<Rightarrow> ('r world, string role option \<times> db_error option) state" where
  "role_find_by_id rid = query_row zero_role scan_role (find_role_by_id rid)"

definition role_find_by_name :: "string \<Rightarrow> ('r world, string role option \<times> db_error option) state" where
  "role_find_by_name name = query_row zero_role scan_role (find_role_by_name name)"

definition role_update :: "'r ext \<Rightarrow> uuid \<Rightarrow> string role \<Rightarrow> ('r world, db_error + unit) state" where
  "role_update X rid r = sql_exec X (update_role rid (r_name r) (r_category r) (r_desc r))"

definition role_delete :: "'r ext \<Rightarrow> uuid \<Rightarrow> ('r world, db_error + unit) state" where
  "role_delete X rid = sql_exec X (delete_role rid)"

definition assign_permissions :: "'r ext \<Rightarrow> uuid \<Rightarrow> uuid list \<Rightarrow> ('r world, db_error + unit) state" where
  "assign_permissions X rid permissionIDs = transaction
     (on_error (sql_exec X (delete_role_permissions rid)) (\<lambda>e. ret (Inl e)) (\<lambda>_.
        try_each permissionIDs (\<lambda>pid. sql_exec X (insert_role_permission rid pid))))"

definition get_permissions :: "uuid \<Rightarrow> ('r world, db_error + string permission list) state" where
  "get_permissions rid = query_rows scan_permission (permissions_of_role rid)"

section \<open>\<open>PermissionRepository\<close>\<close>

definition permission_create ::
  "'r ext \<Rightarrow> string permission \<Rightarrow> ('r world, db_error + string permission) state" where
  "permission_create X p =
     on_error (sql_exec X (insert_permission (p_name p) (p_action p) (p_resource p) (p_desc p)))
       (\<lambda>e. ret (Inl e))
       (\<lambda>(i, t). ret (Inr (p\<lparr>p_id := i, p_created := t\<rparr>)))"

definition permission_find_all ::
  "(string \<Rightarrow> nat list) \<Rightarrow> int \<Rightarrow> int \<Rightarrow> ('r world, db_error + string permission list) state" where
  "permission_find_all collate limit offset = query_rows scan_permission
     (\<lambda>d. page (clamp_limit limit) (clamp_offset offset)
        (sort_key (\<lambda>p. collate (p_resource p)) (sort_key (\<lambda>p. collate (p_action p)) (permissions d))))"

definition permission_count :: "('r world, db_error + int) state" where
  "permission_count = sql_row (\<lambda>d. Some (int (length (permissions d))))"

definition permission_find_by_id ::
  "uuid \<Rightarrow> ('r world, string permission option \<times> db_error option) state" where
  "permission_find_by_id pid = query_row zero_permission scan_permission (find_permission_by_id pid)"

definition permission_update ::
  "'r ext \<Rightarrow> uuid \<Rightarrow> string permission \<Rightarrow> ('r world, db_error + unit) state" where
  "permission_update X pid p =
     sql_exec X (update_permission pid (p_name p) (p_action p) (p_resource p) (p_desc p))"

definition permission_delete :: "'r ext \<Rightarrow> uuid \<Rightarrow> ('r world, db_error + unit) state" where
  "permission_delete X pid = sql_exec X (delete_permission pid)"

lemmas admin_repo_defs = admin_user_create_def admin_find_by_email_def admin_find_by_id_def
  admin_find_all_def admin_user_count_def assign_role_def remove_role_def get_roles_def
  update_last_login_def role_create_def role_find_all_def role_count_def role_find_by_id_def
  role_find_by_name_def role_update_def role_delete_def get_permissions_def permission_create_def
  permission_find_all_def permission_count_def permission_find_by_id_def permission_update_def
  permission_delete_def query_rows_def query_row_def nil_if_no_rows_def

end
