(* ===== verification/AdminService.thy ===== *)
theory AdminService
  imports AdminRepo
begin

text \<open>
  The administration service, \<open>internal/modules/admin/service/admin_service.go\<close>: users,
  roles and permissions, and the seeding of the default administrator at start-up. The
  service's log lines are left out. \<open>GetRoles\<close> and \<open>GetPermissions\<close> are called for display
  only: their errors count as empty lists.
\<close>

section \<open>Requests and responses\<close>

record create_user_request =
  cu_email :: string
  cu_password :: string
  cu_full_name :: string
  cu_role_ids :: "string list"

record create_role_request =
  cr_name :: string
  cr_category :: string
  cr_desc :: string

record create_permission_request =
  cp_name :: string
  cp_action :: string
  cp_resource :: string
  cp_desc :: string

record role_info =
  ri_id :: string
  ri_name :: string
  ri_category :: string
  ri_desc :: string

record permission_info =
  pi_id :: string
  pi_name :: string
  pi_action :: string
  pi_resource :: string
  pi_desc :: string

record user_response =
  ur_id :: string
  ur_email :: string
  ur_full_name :: string
  ur_active :: bool
  ur_roles :: "role_info list"
  ur_created :: time

record role_response =
  rs_id :: string
  rs_name :: string
  rs_category :: string
  rs_desc :: string
  rs_permissions :: "permission_info list"
  rs_created :: time

record permission_response =
  ps_id :: string
  ps_name :: string
  ps_action :: string
  ps_resource :: string
  ps_desc :: string
  ps_created :: time

definition role_info_of :: "'r ext \<Rightarrow> string role \<Rightarrow> role_info" where
  "role_info_of X r = \<lparr>ri_id = uuid_string X (r_id r), ri_name = r_name r, ri_category = r_category r,
     ri_desc = r_desc r\<rparr>"

definition permission_info_of :: "'r ext \<Rightarrow> string permission \<Rightarrow> permission_info" where
  "permission_info_of X p = \<lparr>pi_id = uuid_string X (p_id p), pi_name = p_name p, pi_action = p_action p,
     pi_resource = p_resource p, pi_desc = p_desc p\<rparr>"

definition user_response_of :: "'r ext \<Rightarrow> user \<Rightarrow> db_error + string role list \<Rightarrow> user_response" where
  "user_response_of X u rls = \<lparr>ur_id = uuid_string X (u_id u), ur_email = u_email u,
     ur_full_name = u_name u, ur_active = u_active u,
     ur_roles = map (role_info_of X) (case rls of Inl _ \<Rightarrow> [] | Inr rs \<Rightarrow> rs), ur_created = u_created u\<rparr>"

definition role_response_of ::
  "'r ext \<Rightarrow> string role \<Rightarrow> db_error + string permission list \<Rightarrow> role_response" where
  "role_response_of X r perms = \<lparr>rs_id = uuid_string X (r_id r), rs_name = r_name r,
     rs_category = r_category r, rs_desc = r_desc r,
     rs_permissions = map (permission_info_of X) (case perms of Inl _ \<Rightarrow> [] | Inr ps \<Rightarrow> ps),
     rs_created = r_created r\<rparr>"

definition permission_response_of :: "'r ext \<Rightarrow> string permission \<Rightarrow> permission_response" where
  "permission_response_of X p = \<lparr>ps_id = uuid_string X (p_id p), ps_name = p_name p, ps_action = p_action p,
     ps_resource = p_resource p, ps_desc = p_desc p, ps_created = p_created p\<rparr>"

section \<open>Seeding\<close>

definition base_permissions :: "(string \<times> string \<times> string \<times> string) list" where
  "base_permissions = [
     (''Admin Access'', ''manage'', ''admin'', ''Access the admin panel''),
     (''Create Incident'', ''create'', ''incident'', ''Create new incidents''),
     (''Read Incident'', ''read'', ''incident'', ''View incidents''),
     (''Update Incident'', ''update'', ''incident'', ''Update incidents''),
     (''Delete Incident'', ''delete'', ''incident'', ''Delete incidents''),
     (''Manage Users'', ''manage'', ''users'', ''Create and manage users''),
     (''Manage Roles'', ''manage'', ''roles'', ''Create and manage roles''),
     (''Manage Permissions'', ''manage'', ''permissions'', ''Create and manage permissions'')]"

definition new_permission :: "string \<Rightarrow> string \<Rightarrow> string \<Rightarrow> string \<Rightarrow> string permission" where
  "new_permission name action resource desc = zero_permission\<lparr>p_name := name, p_action := action,
     p_resource := resource, p_desc := desc\<rparr>"

text \<open>The loop over the base permissions collects the ids of those it could create.\<close>

fun create_permissions ::
  "'r ext \<Rightarrow> (string \<times> string \<times> string \<times> string) list \<Rightarrow> ('r world, uuid list) state" where
  "create_permissions X [] = ret []"
| "create_permissions X ((name, action, resource, desc) # bps) =
     on_error (permission_create X (new_permission name action resource desc))
       (\<lambda>_. create_permissions X bps)
       (\<lambda>p. do { permIDs \<leftarrow> create_permissions X bps; ret (p_id p # permIDs) })"

definition seed_permissions :: "'r ext \<Rightarrow> uuid \<Rightarrow> ('r world, unit) state" where
  "seed_permissions X adminRoleID = do {
     permIDs \<leftarrow> create_permissions X base_permissions;
     if permIDs \<noteq> [] then do { _ \<leftarrow> assign_permissions X adminRoleID permIDs; ret () } else ret ()
   }"

definition or_default :: "string \<Rightarrow> string \<Rightarrow> string" where
  "or_default s dflt = (if s = [] then dflt else s)"

definition admin_role :: "string role" where
  "admin_role = zero_role\<lparr>r_name := ''admin'', r_category := ''Administration'',
     r_desc := ''Full system access''\<rparr>"

definition ensure_admin_role :: "'r ext \<Rightarrow> ('r world, db_error + string role) state" where
  "ensure_admin_role X = do {
     (adminRole, err) \<leftarrow> role_find_by_name ''admin'';
     case (adminRole, err) of
       (_, Some e) \<Rightarrow> ret (Inl e)
     | (Some r, None) \<Rightarrow> ret (Inr r)
     | (None, None) \<Rightarrow> role_create X admin_role
   }"

definition seed_default_admin :: "'r ext \<Rightarrow> config \<Rightarrow> ('r world, unit) state" where
  "seed_default_admin X cfg =
     (let adminEmail = or_default (AdminEmail cfg) ''admin@enterprise.com'';
          adminPassword = or_default (AdminPassword cfg) ''Admin123!'';
          adminName = or_default (AdminName cfg) ''System Admin'' in do {
        (existing, err) \<leftarrow> admin_find_by_email adminEmail;
        if err \<noteq> None then ret ()
        else if existing \<noteq> None then ret ()
        else on_error (ensure_admin_role X) (\<lambda>_. ret ()) (\<lambda>adminRole. do {
          seed_permissions X (r_id adminRole);
          salt \<leftarrow> fresh;
          case bcrypt_generate X adminPassword 12 salt of
            Inl _ \<Rightarrow> ret ()
          | Inr hash \<Rightarrow>
              on_error (admin_user_create X (zero_user\<lparr>u_email := adminEmail, u_hash := hash,
                  u_name := adminName\<rparr>))
                (\<lambda>_. ret ())
                (\<lambda>adminUser. do { _ \<leftarrow> assign_role X (u_id adminUser) (r_id adminRole); ret () })
        })
      })"

section \<open>Users\<close>

definition list_users ::
  "'r ext \<Rightarrow> int \<Rightarrow> int \<Rightarrow> ('r world, db_error + user_response list \<times> int) state" where
  "list_users X limit offset =
     on_error (admin_find_all limit offset) (\<lambda>e. ret (Inl e)) (\<lambda>users.
     on_error admin_user_count (\<lambda>e. ret (Inl e)) (\<lambda>total. do {
       resp \<leftarrow> collect_each users (\<lambda>u. do { rls \<leftarrow> get_roles (u_id u); ret (user_response_of X u rls) });
       ret (Inr (resp, total))
     }))"

definition create_user ::
  "'r ext \<Rightarrow> create_user_request \<Rightarrow> ('r world, go_error + user_response) state" where
  "create_user X req = do {
     (existing, _) \<leftarrow> admin_find_by_email (cu_email req);
     if existing \<noteq> None then ret (Inl (Msg ''email already exists''))
     else do {
       salt \<leftarrow> fresh;
       case bcrypt_generate X (cu_password req) 12 salt of
         Inl e \<Rightarrow> ret (Inl e)
       | Inr hash \<Rightarrow>
           on_error (admin_user_create X (zero_user\<lparr>u_email := cu_email req, u_hash := hash,
               u_name := cu_full_name req\<rparr>))
             (\<lambda>e. ret (Inl (Wrap ''failed to create user: '' (Db e)))) (\<lambda>u. do {
               for_each (cu_role_ids req) (\<lambda>roleIDStr.
                 case uuid_parse X roleIDStr of
                   None \<Rightarrow> ret ()
                 | Some rid \<Rightarrow> do { _ \<leftarrow> assign_role X (u_id u) rid; ret () });
               rls \<leftarrow> get_roles (u_id u);
               ret (Inr (user_response_of X u rls))
             })
     }
   }"

definition assign_roles :: "'r ext \<Rightarrow> uuid \<Rightarrow> uuid list \<Rightarrow> ('r world, db_error + unit) state" where
  "assign_roles X uid roleIDs = set_roles X uid roleIDs"

definition get_user :: "'r ext \<Rightarrow> uuid \<Rightarrow> ('r world, go_error + user_response) state" where
  "get_user X uid = do {
     (u, err) \<leftarrow> admin_find_by_id uid;
     case (u, err) of
       (Some u, None) \<Rightarrow> do { rls \<leftarrow> get_roles (u_id u); ret (Inr (user_response_of X u rls)) }
     | _ \<Rightarrow> ret (Inl (Msg ''user not found''))
   }"

section \<open>Roles\<close>

definition list_roles ::
  "'r ext \<Rightarrow> (string \<Rightarrow> nat list) \<Rightarrow> int \<Rightarrow> int \<Rightarrow> ('r world, db_error + role_response list \<times> int) state" where
  "list_roles X collate limit offset =
     on_error (role_find_all collate limit offset) (\<lambda>e. ret (Inl e)) (\<lambda>roles.
     on_error role_count (\<lambda>e. ret (Inl e)) (\<lambda>total. do {
       resp \<leftarrow> collect_each roles (\<lambda>r. do { perms \<leftarrow> get_permissions (r_id r); ret (role_response_of X r perms) });
       ret (Inr (resp, total))
     }))"

definition create_role ::
  "'r ext \<Rightarrow> create_role_request \<Rightarrow> ('r world, go_error + role_response) state" where
  "create_role X req =
     on_error (role_create X (zero_role\<lparr>r_name := cr_name req,
         r_category := or_default (cr_category req) ''general'', r_desc := cr_desc req\<rparr>))
       (\<lambda>e. ret (Inl (Wrap ''failed to create role: '' (Db e))))
       (\<lambda>r. ret (Inr (role_response_of X r (Inr []))))"

definition update_role_op ::
  "'r ext \<Rightarrow> uuid \<Rightarrow> create_role_request \<Rightarrow> ('r world, go_error + role_response) state" where
  "update_role_op X rid req = do {
     (role, err) \<leftarrow> role_find_by_id rid;
     case (role, err) of
       (Some r, None) \<Rightarrow>
         let r' = r\<lparr>r_name := or_default (cr_name req) (r_name r),
                    r_category := or_default (cr_category req) (r_category r),
                    r_desc := or_default (cr_desc req) (r_desc r)\<rparr> in
         on_error (role_update X rid r') (\<lambda>e. ret (Inl (Db e)))
           (\<lambda>_. ret (Inr (role_response_of X r' (Inr []))))
     | _ \<Rightarrow> ret (Inl (Msg ''role not found''))
   }"

definition delete_role_op :: "'r ext \<Rightarrow> uuid \<Rightarrow> ('r world, db_error + unit) state" where
  "delete_role_op X rid = role_delete X rid"

definition assign_permissions_op :: "'r ext \<Rightarrow> uuid \<Rightarrow> uuid list \<Rightarrow> ('r world, db_error + unit) state" where
  "assign_permissions_op X rid permissionIDs = assign_permissions X rid permissionIDs"

section \<open>Permissions\<close>

definition list_permissions ::
  "'r ext \<Rightarrow> (string \<Rightarrow> nat list) \<Rightarrow> int \<Rightarrow> int \<Rightarrow> ('r world, db_error + permission_response list \<times> int) state" where
  "list_permissions X collate limit offset =
     on_error (permission_find_all collate limit offset) (\<lambda>e. ret (Inl e)) (\<lambda>perms.
     on_error permission_count (\<lambda>e. ret (Inl e)) (\<lambda>total.
       ret (Inr (map (permission_response_of X) perms, total))))"

definition create_permission ::
  "'r ext \<Rightarrow> create_permission_request \<Rightarrow> ('r world, go_error + permission_response) state" where
  "create_permission X req =
     on_error (permission_create X (new_permission (cp_name req) (cp_action req) (cp_resource req) (cp_desc req)))
       (\<lambda>e. ret (Inl (Wrap ''failed to create permission: '' (Db e))))
       (\<lambda>p. ret (Inr (permission_response_of X p)))"

definition update_permission_op ::
  "'r ext \<Rightarrow> uuid \<Rightarrow> create_permission_request \<Rightarrow> ('r world, go_error + permission_response) state" where
  "update_permission_op X pid req = do {
     (p, err) \<leftarrow> permission_find_by_id pid;
     case (p, err) of
       (Some q, None) \<Rightarrow>
         let q' = q\<lparr>p_name := or_default (cp_name req) (p_name q),
                    p_action := or_default (cp_action req) (p_action q),
                    p_resource := or_default (cp_resource req) (p_resource q),
                    p_desc := or_default (cp_desc req) (p_desc q)\<rparr> in
         on_error (permission_update X pid q') (\<lambda>e. ret (Inl (Db e)))
           (\<lambda>_. ret (Inr (permission_response_of X q')))
     | _ \<Rightarrow> ret (Inl (Msg ''permission not found''))
   }"

definition delete_permission_op :: "'r ext \<Rightarrow> uuid \<Rightarrow> ('r world, db_error + unit) state" where
  "delete_permission_op X pid = permission_delete X pid"

lemmas admin_service_defs = create_user_def assign_roles_def get_user_def create_role_def
  update_role_op_def delete_role_op_def assign_permissions_op_def create_permission_def
  update_permission_op_def delete_permission_op_def list_users_def list_roles_def list_permissions_def

end
