(* ===== verification/AdminProps.thy ===== *)
theory AdminProps
  imports AdminService
begin

text \<open>
  What the administration service guarantees: integrity of the tables under every
  schedule, the two transactions, what seeding leaves, partial updates.
\<close>

section \<open>Transactions\<close>

lemma transaction_outcome:
  assumes "run_state (transaction body) w = (r, w')"
  shows "db w' = db w \<and> (\<exists>e. r = Inl e) \<or>
    (\<exists>w1 w2. db w1 = db w \<and> run_state body w1 = (Inr (), w2) \<and> db w' = db w2)"
proof -
  obtain b w1 where b: "run_state tx_begin w = (b, w1)" by fastforce
  then have d1: "db w1 = db w" and bd: "\<And>d. b = Inr d \<Longrightarrow> d = db w"
    by (auto simp: tx_begin_def sql_row_def Let_def split: prod.splits if_splits dest!: next_call_frame)
  show ?thesis
  proof (cases b)
    case (Inl e)
    then show ?thesis using assms b d1 by (auto simp: transaction_def)
  next
    case (Inr d)
    obtain x w2 where x: "run_state body w1 = (x, w2)" by fastforce
    show ?thesis
    proof (cases x)
      case (Inl e)
      then show ?thesis using assms b x bd Inr by (auto simp: transaction_def)
    next
      case (Inr u)
      then have t: "run_state (tx_commit d) w2 = (r, w')" and d: "d = db w"
        using assms b x bd \<open>b = Inr d\<close> by (auto simp: transaction_def)
      then have "db w' = db w2 \<or> db w' = db w \<and> (\<exists>e. r = Inl e)"
        by (auto simp: tx_commit_def Let_def split: prod.splits outcome.splits dest!: next_call_frame)
      then show ?thesis using d1 x Inr by auto
    qed
  qed
qed

lemma io_transaction_ok [io_intros]:
  assumes "state_io_rel (on_db (keeps I)) body"
  shows "state_io_rel (on_db (keeps I)) (transaction body)"
proof (rule state_io_relI)
  fix w r w'
  assume "run_state (transaction body) w = (r, w')"
  from transaction_outcome [OF this] show "on_db (keeps I) w w'"
  proof
    assume "db w' = db w \<and> (\<exists>e. r = Inl e)"
    then show ?thesis by (simp add: on_db_def keeps_def)
  next
    assume "\<exists>w1 w2. db w1 = db w \<and> run_state body w1 = (Inr (), w2) \<and> db w' = db w2"
    then obtain w1 w2 where "db w1 = db w" and run: "run_state body w1 = (Inr (), w2)" and "db w' = db w2"
      by blast
    moreover have "on_db (keeps I) w1 w2" using assms run by (rule state_io_relD)
    ultimately show ?thesis by (simp add: on_db_def)
  qed
qed

text \<open>A call that succeeded executed its statement.\<close>

lemma sql_exec_success:
  "run_state (sql_exec X st) w = (Inr a, w') \<Longrightarrow> \<exists>i now. st i now (db w) = Inr (a, db w')"
  by (auto simp: sql_exec_def Let_def split: prod.splits outcome.splits sum.splits if_splits
      dest!: next_call_frame) blast

lemma insert_user_roles_success:
  "run_state (try_each rids (\<lambda>rid. sql_exec X (insert_user_role False uid rid))) w = (Inr (), w') \<Longrightarrow>
   db w' = (db w)\<lparr>user_roles := user_roles (db w) @ map (Pair uid) rids\<rparr> \<and> distinct rids \<and>
   (\<forall>rid \<in> set rids. (uid, rid) \<notin> set (user_roles (db w)) \<and> rid \<in> r_id ` set (roles (db w)))"
proof (induction rids arbitrary: w)
  case (Cons rid rids)
  then obtain w1 where 1: "run_state (sql_exec X (insert_user_role False uid rid)) w = (Inr (), w1)"
    and 2: "run_state (try_each rids (\<lambda>rid. sql_exec X (insert_user_role False uid rid))) w1 = (Inr (), w')"
    by (auto split: prod.splits sum.splits)
  from sql_exec_success [OF 1]
  have "db w1 = (db w)\<lparr>user_roles := user_roles (db w) @ [(uid, rid)]\<rparr>" and "(uid, rid) \<notin> set (user_roles (db w))"
    and "rid \<in> r_id ` set (roles (db w))"
    by (auto simp: insert_user_role_def split: if_splits)
  with Cons.IH [OF 2] show ?case by auto
qed simp

lemma insert_role_permissions_success:
  "run_state (try_each pids (\<lambda>pid. sql_exec X (insert_role_permission rid pid))) w = (Inr (), w') \<Longrightarrow>
   \<exists>new. db w' = (db w)\<lparr>role_permissions := role_permissions (db w) @ new\<rparr> \<and>
     set (role_permissions (db w)) \<union> set new = set (role_permissions (db w)) \<union> Pair rid ` set pids"
proof (induction pids arbitrary: w)
  case Nil
  then show ?case by (intro exI [of _ "[]"]) simp
next
  case (Cons pid pids)
  then obtain w1 where 1: "run_state (sql_exec X (insert_role_permission rid pid)) w = (Inr (), w1)"
    and 2: "run_state (try_each pids (\<lambda>pid. sql_exec X (insert_role_permission rid pid))) w1 = (Inr (), w')"
    by (auto split: prod.splits sum.splits)
  have "(rid, pid) \<in> set (role_permissions (db w)) \<and> db w1 = db w \<or>
      db w1 = (db w)\<lparr>role_permissions := role_permissions (db w) @ [(rid, pid)]\<rparr>"
    using sql_exec_success [OF 1] by (auto simp: insert_role_permission_def split: if_splits)
  then have "\<exists>n1. db w1 = (db w)\<lparr>role_permissions := role_permissions (db w) @ n1\<rparr> \<and>
      set (role_permissions (db w)) \<union> set n1 = insert (rid, pid) (set (role_permissions (db w)))"
    by (elim disjE) (rule exI [of _ "[]"], auto)
  then obtain n1
    where n1: "db w1 = (db w)\<lparr>role_permissions := role_permissions (db w) @ n1\<rparr>"
      "set (role_permissions (db w)) \<union> set n1 = insert (rid, pid) (set (role_permissions (db w)))"
    by blast
  from Cons.IH [OF 2] obtain n2
    where "db w' = (db w1)\<lparr>role_permissions := role_permissions (db w1) @ n2\<rparr>"
      "set (role_permissions (db w1)) \<union> set n2 = set (role_permissions (db w1)) \<union> Pair rid ` set pids"
    by blast
  with n1 show ?case by (intro exI [of _ "n1 @ n2"]) auto
qed

lemma set_roles_outcome:
  fixes X :: "'r ext" and w :: "'r world"
  assumes "run_state (set_roles X uid rids) w = (r, w')"
  shows "db w' = db w \<and> (\<exists>e. r = Inl e) \<or>
    db w' = (db w)\<lparr>user_roles := filter (\<lambda>ur. fst ur \<noteq> uid) (user_roles (db w)) @ map (Pair uid) rids\<rparr> \<and>
    distinct rids \<and> set rids \<subseteq> r_id ` set (roles (db w))"
  using transaction_outcome [OF assms [unfolded set_roles_def]]
proof (elim disjE exE conjE)
  fix w1 w2 :: "'r world"
  assume d: "db w1 = db w" "db w' = db w2"
  assume "run_state (on_error (sql_exec X (delete_user_roles uid)) (\<lambda>e. ret (Inl e))
      (\<lambda>_. try_each rids (\<lambda>rid. sql_exec X (insert_user_role False uid rid)))) w1 = (Inr (), w2)"
  then obtain w3 where 1: "run_state (sql_exec X (delete_user_roles uid)) w1 = (Inr (), w3)"
    and 2: "run_state (try_each rids (\<lambda>rid. sql_exec X (insert_user_role False uid rid))) w3 = (Inr (), w2)"
    by (auto split: prod.splits sum.splits)
  from sql_exec_success [OF 1] have "db w3 = (db w)\<lparr>user_roles := filter (\<lambda>ur. fst ur \<noteq> uid) (user_roles (db w))\<rparr>"
    using d by (auto simp: delete_user_roles_def)
  with insert_user_roles_success [OF 2] d show ?thesis by auto
qed auto

text \<open>
  C20: replacing a user's roles is all or nothing, whatever calls fail: either the tables
  are as before, and the caller sees an error, or the user has exactly the given roles and
  nothing else changed. The latter only happens when the roles exist and none is repeated.
\<close>
theorem set_roles_atomic:
  fixes X :: "'r ext" and w :: "'r world"
  assumes "run_state (set_roles X uid rids) w = (r, w')"
  shows "db w' = db w \<and> (\<exists>e. r = Inl e) \<or>
    db w' = (db w)\<lparr>user_roles := filter (\<lambda>ur. fst ur \<noteq> uid) (user_roles (db w)) @ map (Pair uid) rids\<rparr> \<and>
    distinct rids \<and> set rids \<subseteq> r_id ` set (roles (db w))"
  using assms by (rule set_roles_outcome)

theorem set_roles_atomic_witness:
  "\<exists>r w'. run_state (set_roles (demo_ext []) 1 [7, 7]) (demo_world demo_db 0) = (r, w') \<and> db w' = demo_db"
proof -
  obtain r w' where run: "run_state (set_roles (demo_ext []) 1 [7, 7]) (demo_world demo_db 0) = (r, w')" by fastforce
  from set_roles_atomic [OF run] run show ?thesis by auto
qed

lemma assign_permissions_outcome:
  fixes X :: "'r ext" and w :: "'r world"
  assumes "run_state (assign_permissions X rid pids) w = (r, w')"
  shows "db w' = db w \<and> (\<exists>e. r = Inl e) \<or>
    (\<exists>rps. db w' = (db w)\<lparr>role_permissions := rps\<rparr> \<and>
       set rps = {rp \<in> set (role_permissions (db w)). fst rp \<noteq> rid} \<union> Pair rid ` set pids)"
  using transaction_outcome [OF assms [unfolded assign_permissions_def]]
proof (elim disjE exE conjE)
  fix w1 w2 :: "'r world"
  assume d: "db w1 = db w" "db w' = db w2"
  assume "run_state (on_error (sql_exec X (delete_role_permissions rid)) (\<lambda>e. ret (Inl e))
      (\<lambda>_. try_each pids (\<lambda>pid. sql_exec X (insert_role_permission rid pid)))) w1 = (Inr (), w2)"
  then obtain w3 where 1: "run_state (sql_exec X (delete_role_permissions rid)) w1 = (Inr (), w3)"
    and 2: "run_state (try_each pids (\<lambda>pid. sql_exec X (insert_role_permission rid pid))) w3 = (Inr (), w2)"
    by (auto split: prod.splits sum.splits)
  from sql_exec_success [OF 1] have "db w3 = (db w)\<lparr>role_permissions := filter (\<lambda>rp. fst rp \<noteq> rid) (role_permissions (db w))\<rparr>"
    using d by (auto simp: delete_role_permissions_def)
  with insert_role_permissions_success [OF 2] d show ?thesis by auto
qed auto

section \<open>Integrity\<close>

lemma admin_repo_ok [io_intros]:
  "state_io_rel (on_db (keeps db_ok)) (set_roles X uid rids)"
  "state_io_rel (on_db (keeps db_ok)) (assign_permissions X rid pids)"
  unfolding set_roles_def assign_permissions_def
  by (intro io_intros db_keeps io_preorder_on_db io_preorder_keeps)+

lemma permission_create_ok [io_intros]: "state_io_rel (on_db (keeps db_ok)) (permission_create X p)"
  unfolding permission_create_def case_prod_beta
  by (intro io_intros db_keeps io_preorder_on_db io_preorder_keeps)+

lemma create_permissions_ok [io_intros]: "state_io_rel (on_db (keeps db_ok)) (create_permissions X bps)"
proof (induction bps)
  case (Cons bp bps)
  then show ?case
    by (cases bp) (auto intro!: io_intros io_preorder_on_db io_preorder_keeps)
qed (simp add: io_rel_return)

lemma seed_ok [io_intros]: "state_io_rel (on_db (keeps db_ok)) (seed_default_admin X cfg)"
  unfolding seed_default_admin_def seed_permissions_def ensure_admin_role_def admin_repo_defs Let_def case_prod_beta
  by (intro io_intros db_keeps io_preorder_on_db io_preorder_keeps)+

lemma admin_operations_ok [io_intros]:
  "state_io_rel (on_db (keeps db_ok)) (create_user X cu)"
  "state_io_rel (on_db (keeps db_ok)) (assign_roles X uid rids)"
  "state_io_rel (on_db (keeps db_ok)) (create_role X cr)"
  "state_io_rel (on_db (keeps db_ok)) (update_role_op X rid cr)"
  "state_io_rel (on_db (keeps db_ok)) (delete_role_op X rid)"
  "state_io_rel (on_db (keeps db_ok)) (assign_permissions_op X rid pids)"
  "state_io_rel (on_db (keeps db_ok)) (create_permission X cp)"
  "state_io_rel (on_db (keeps db_ok)) (update_permission_op X pid cp)"
  "state_io_rel (on_db (keeps db_ok)) (delete_permission_op X pid)"
  unfolding admin_service_defs admin_repo_defs Let_def case_prod_beta
  by (intro io_intros db_keeps io_preorder_on_db io_preorder_keeps)+

lemma on_db_okD: "state_io_rel (on_db (keeps db_ok)) m \<Longrightarrow> db_ok (db w) \<Longrightarrow> db_ok (db (snd (run_state m w)))"
  by (rule on_db_keepsD)

text \<open>
  Whatever calls fail or are cut off on the way, seeding and each operation of the
  administration service that writes leaves the tables consistent.
\<close>
lemma admin_operations_keep_integrity:
  assumes "db_ok (db w)"
  shows "db_ok (db (snd (run_state (seed_default_admin X cfg) w))) \<and>
    db_ok (db (snd (run_state (create_user X cu) w))) \<and>
    db_ok (db (snd (run_state (assign_roles X uid rids) w))) \<and>
    db_ok (db (snd (run_state (create_role X cr) w))) \<and>
    db_ok (db (snd (run_state (update_role_op X rid cr) w))) \<and>
    db_ok (db (snd (run_state (delete_role_op X rid) w))) \<and>
    db_ok (db (snd (run_state (assign_permissions_op X rid pids) w))) \<and>
    db_ok (db (snd (run_state (create_permission X cp) w))) \<and>
    db_ok (db (snd (run_state (update_permission_op X pid cp) w))) \<and>
    db_ok (db (snd (run_state (delete_permission_op X pid) w)))"
  using seed_ok [THEN on_db_okD, OF assms] admin_operations_ok [THEN on_db_okD, OF assms] by simp

section \<open>Seeding\<close>

text \<open>
  The rows that the loop over the base permissions inserts: a name that is taken is
  skipped.
\<close>

fun new_rows ::
  "(nat \<Rightarrow> uuid) \<Rightarrow> time \<Rightarrow> nat \<Rightarrow> (string \<times> string \<times> string \<times> string) list \<Rightarrow> string set \<Rightarrow> string option permission list" where
  "new_rows g now n [] ns = []"
| "new_rows g now n ((name, action, resource, desc) # bps) ns =
     (if name \<in> ns then new_rows g now (Suc n) bps ns
      else \<lparr>p_id = g n, p_name = name, p_action = action, p_resource = resource, p_desc = Some desc, p_created = now\<rparr>
        # new_rows g now (Suc n) bps (insert name ns))"

lemma new_rows_ids: "p_id ` set (new_rows g now n bps ns) \<subseteq> g ` {n..<n + length bps}"
proof (induction bps arbitrary: n ns)
  case (Cons bp bps)
  obtain a b c d where bp: "bp = (a, b, c, d)" by (cases bp)
  have "g ` {Suc n..<Suc n + length bps} \<subseteq> g ` {n..<n + length (bp # bps)}" by auto
  then have "p_id ` set (new_rows g now (Suc n) bps ns') \<subseteq> g ` {n..<n + length (bp # bps)}" for ns'
    using Cons.IH [of "Suc n" ns'] by (rule subset_trans [rotated])
  then show ?case by (auto simp: bp)
qed simp

lemma new_rows_distinct: "inj_on g {n..<n + length bps} \<Longrightarrow> distinct (map p_id (new_rows g now n bps ns))"
proof (induction bps arbitrary: n ns)
  case (Cons bp bps)
  obtain a b c d where bp: "bp = (a, b, c, d)" by (cases bp)
  have "inj_on g {Suc n..<Suc n + length bps}" using Cons.prems by (rule inj_on_subset) auto
  note ih = Cons.IH [OF this]
  have "g n \<notin> g ` {Suc n..<Suc n + length bps}"
    using Cons.prems by (auto dest: inj_onD)
  then have "g n \<notin> p_id ` set (new_rows g now (Suc n) bps ns')" for ns'
    using new_rows_ids by blast
  with ih show ?case by (simp add: bp)
qed simp

definition fitting :: "(string \<times> string \<times> string \<times> string) list \<Rightarrow> bool" where
  "fitting bps \<longleftrightarrow> (\<forall>(name, action, resource, desc) \<in> set bps. fits 100 name \<and> fits 100 action \<and> fits 100 resource)"

lemma create_permissions_run:
  assumes "sched w = []" and "fitting bps" and "inj_on (rand_uuid X) {draws w..<draws w + length bps}"
    and "rand_uuid X ` {draws w..<draws w + length bps} \<inter> p_id ` set (permissions (db w)) = {}"
  shows "run_state (create_permissions X bps) w =
    (let rows = new_rows (rand_uuid X) (pg_time (clock w)) (draws w) bps (p_name ` set (permissions (db w)))
     in (map p_id rows, w\<lparr>draws := draws w + length bps, db := (db w)\<lparr>permissions := permissions (db w) @ rows\<rparr>\<rparr>))"
  using assms
proof (induction bps arbitrary: w)
  case (Cons bp bps)
  obtain name action resource desc where bp: "bp = (name, action, resource, desc)" by (cases bp)
  have inj: "inj_on (rand_uuid X) {Suc (draws w)..<Suc (draws w) + length bps}"
    using Cons.prems(3) by (rule inj_on_subset) auto
  have fit: "fitting bps" "fits 100 name" "fits 100 action" "fits 100 resource"
    using Cons.prems(2) by (auto simp: fitting_def bp)
  have new: "rand_uuid X (draws w) \<notin> p_id ` set (permissions (db w))"
    using Cons.prems(4) by (metis IntI atLeastLessThan_iff empty_iff imageI le_refl length_Cons less_add_Suc1 add_Suc_right)
  have dis: "rand_uuid X ` {Suc (draws w)..<Suc (draws w) + length bps} \<inter> p_id ` set (permissions (db w)) = {}"
  proof -
    have "rand_uuid X ` {Suc (draws w)..<Suc (draws w) + length bps} \<subseteq> rand_uuid X ` {draws w..<draws w + length (bp # bps)}"
      by auto
    with Cons.prems(4) show ?thesis by blast
  qed
  show ?case
  proof (cases "name \<in> p_name ` set (permissions (db w))")
    case True
    then have "run_state (create_permissions X (bp # bps)) w = run_state (create_permissions X bps) (w\<lparr>draws := Suc (draws w)\<rparr>)"
      using Cons.prems(1) fit new
      by (simp add: bp permission_create_def new_permission_def zero_permission_def insert_permission_def)
    with Cons.IH [of "w\<lparr>draws := Suc (draws w)\<rparr>"] Cons.prems(1) fit inj dis True show ?thesis
      by (simp add: bp Let_def)
  next
    case False
    let ?row = "\<lparr>p_id = rand_uuid X (draws w), p_name = name, p_action = action, p_resource = resource,
      p_desc = Some desc, p_created = pg_time (clock w)\<rparr>"
    let ?w = "w\<lparr>draws := Suc (draws w), db := (db w)\<lparr>permissions := permissions (db w) @ [?row]\<rparr>\<rparr>"
    have run: "run_state (create_permissions X (bp # bps)) w =
        (case run_state (create_permissions X bps) ?w of (ids, w') \<Rightarrow> (rand_uuid X (draws w) # ids, w'))"
      using Cons.prems(1) fit new False
      by (simp add: bp permission_create_def new_permission_def zero_permission_def insert_permission_def
          split: prod.splits)
    have "rand_uuid X (draws w) \<notin> rand_uuid X ` {Suc (draws w)..<Suc (draws w) + length bps}"
      using Cons.prems(3) by (auto dest: inj_onD)
    with dis have "rand_uuid X ` {Suc (draws w)..<Suc (draws w) + length bps} \<inter> p_id ` set (permissions (db ?w)) = {}"
      by auto
    with Cons.IH [of ?w] Cons.prems(1) fit inj have
      "run_state (create_permissions X bps) ?w =
       (let rows = new_rows (rand_uuid X) (pg_time (clock w)) (Suc (draws w)) bps (insert name (p_name ` set (permissions (db w))))
        in (map p_id rows, ?w\<lparr>draws := Suc (draws w) + length bps, db := (db ?w)\<lparr>permissions := permissions (db ?w) @ rows\<rparr>\<rparr>))"
      by simp
    with run False show ?thesis by (simp add: bp Let_def)
  qed
qed (simp add: Let_def)

lemma new_rows_names:
  "distinct (map fst bps) \<Longrightarrow>
   (\<lambda>p. (p_name p, p_action p, p_resource p)) ` set (new_rows g now n bps ns) =
   {(name, action, resource). \<exists>desc. (name, action, resource, desc) \<in> set bps \<and> name \<notin> ns}"
proof (induction bps arbitrary: n ns)
  case (Cons bp bps)
  obtain a b c d where bp: "bp = (a, b, c, d)" by (cases bp)
  have "a \<notin> fst ` set bps" and "distinct (map fst bps)" using Cons.prems by (auto simp: bp)
  then have free: "(a, x, y, z) \<notin> set bps" for x y z by force
  note ih = Cons.IH [OF \<open>distinct (map fst bps)\<close>]
  show ?case
  proof (cases "a \<in> ns")
    case True
    then have "set (new_rows g now n (bp # bps) ns) = set (new_rows g now (Suc n) bps ns)" by (simp add: bp)
    then show ?thesis using ih [of "Suc n" ns] True by (auto simp: bp)
  next
    case False
    then show ?thesis using ih [of "Suc n" "insert a ns"] free by (auto simp: bp)
  qed
qed simp

lemma assign_permissions_run:
  assumes "sched w = []" and "rid \<in> r_id ` set (roles (db w))" and "distinct pids"
    and "set pids \<subseteq> p_id ` set (permissions (db w))"
  shows "run_state (assign_permissions X rid pids) w = (Inr (), w\<lparr>draws := Suc (draws w) + length pids,
    db := (db w)\<lparr>role_permissions := filter (\<lambda>rp. fst rp \<noteq> rid) (role_permissions (db w)) @ map (Pair rid) pids\<rparr>\<rparr>)"
proof -
  have inserts: "run_state (try_each pids (\<lambda>pid. sql_exec X (insert_role_permission rid pid))) v =
      (Inr (), v\<lparr>draws := draws v + length pids, db := (db v)\<lparr>role_permissions := role_permissions (db v) @ map (Pair rid) pids\<rparr>\<rparr>)"
    if "sched v = []" "rid \<in> r_id ` set (roles (db v))" "distinct pids" "set pids \<subseteq> p_id ` set (permissions (db v))"
      "\<forall>pid \<in> set pids. (rid, pid) \<notin> set (role_permissions (db v))" for v :: "'a world"
    using that
  proof (induction pids arbitrary: v)
    case (Cons pid pids)
    let ?v = "v\<lparr>draws := Suc (draws v), db := (db v)\<lparr>role_permissions := role_permissions (db v) @ [(rid, pid)]\<rparr>\<rparr>"
    have "run_state (try_each (pid # pids) (\<lambda>pid. sql_exec X (insert_role_permission rid pid))) v =
        run_state (try_each pids (\<lambda>pid. sql_exec X (insert_role_permission rid pid))) ?v"
      using Cons.prems by (simp add: insert_role_permission_def)
    with Cons.IH [of ?v] Cons.prems show ?case by auto
  qed simp
  let ?v = "w\<lparr>draws := Suc (draws w), db := (db w)\<lparr>role_permissions := filter (\<lambda>rp. fst rp \<noteq> rid) (role_permissions (db w))\<rparr>\<rparr>"
  show ?thesis
    using inserts [of ?v] assms by (simp add: assign_permissions_def transaction_def delete_role_permissions_def)
qed

definition admin_email :: "config \<Rightarrow> string" where
  "admin_email cfg = or_default (AdminEmail cfg) ''admin@enterprise.com''"

definition admin_password :: "config \<Rightarrow> string" where
  "admin_password cfg = or_default (AdminPassword cfg) ''Admin123!''"

definition admin_name :: "config \<Rightarrow> string" where
  "admin_name cfg = or_default (AdminName cfg) ''System Admin''"

definition admin_row :: "uuid \<Rightarrow> time \<Rightarrow> string option role" where
  "admin_row i now = \<lparr>r_id = i, r_name = ''admin'', r_category = ''Administration'',
     r_desc = Some ''Full system access'', r_created = now\<rparr>"

text \<open>Fresh identifiers: the next ones differ and none is in use.\<close>

definition fresh_ids :: "'r ext \<Rightarrow> nat \<Rightarrow> nat \<Rightarrow> db \<Rightarrow> bool" where
  "fresh_ids X n k d \<longleftrightarrow> inj_on (rand_uuid X) {n..<n + k} \<and>
     (\<forall>i \<in> {n..<n + k}. rand_uuid X i \<notin> u_id ` set (users d) \<and> rand_uuid X i \<notin> r_id ` set (roles d) \<and>
        rand_uuid X i \<notin> p_id ` set (permissions d))"

lemma fresh_ids_range:
  assumes "fresh_ids X n k d" and "n \<le> m" and "m + j \<le> n + k" and "x \<in> rand_uuid X ` {m..<m + j}"
  shows "x \<notin> p_id ` set (permissions d)"
proof -
  from assms(4) obtain i where "i \<in> {m..<m + j}" and x: "x = rand_uuid X i" by blast
  with assms(2,3) have "i \<in> {n..<n + k}" by auto
  with assms(1) show ?thesis unfolding fresh_ids_def x by blast
qed

lemma base_permissions_facts:
  "length base_permissions = 8" "fitting base_permissions" "distinct (map fst base_permissions)"
  by (simp_all add: base_permissions_def fitting_def fits_def pg_length_def)

lemma seed_run:
  fixes w :: "'r world"
  assumes "sched w = []" and "find_user_by_email (admin_email cfg) (db w) = None"
    and "find_role_by_name ''admin'' (db w) = None"
    and "fresh_ids X (draws w) 40 (db w)"
    and "\<forall>salt. bcrypt_generate X (admin_password cfg) 12 salt = Inr h"
    and "fits 255 (admin_email cfg)" "fits 255 h" "fits 255 (admin_name cfg)"
    and "\<forall>ur \<in> set (user_roles (db w)). fst ur \<in> u_id ` set (users (db w))"
  defines "rid \<equiv> rand_uuid X (draws w)"
    and "rows \<equiv> new_rows (rand_uuid X) (pg_time (clock w)) (Suc (draws w)) base_permissions (p_name ` set (permissions (db w)))"
  shows "\<exists>u. users (db (snd (run_state (seed_default_admin X cfg) w))) = users (db w) @ [u] \<and>
    u_email u = admin_email cfg \<and> u_hash u = h \<and> u_active u \<and> u_id u \<notin> u_id ` set (users (db w)) \<and>
    permissions (db (snd (run_state (seed_default_admin X cfg) w))) = permissions (db w) @ rows \<and>
    user_roles (db (snd (run_state (seed_default_admin X cfg) w))) = user_roles (db w) @ [(u_id u, rid)] \<and>
    role_permissions (db (snd (run_state (seed_default_admin X cfg) w))) =
      (if rows = [] then role_permissions (db w)
       else filter (\<lambda>rp. fst rp \<noteq> rid) (role_permissions (db w)) @ map (Pair rid) (map p_id rows))"
proof -
  let ?n = "draws w" and ?now = "pg_time (clock w)"
  let ?w1 = "w\<lparr>draws := Suc ?n, db := (db w)\<lparr>roles := roles (db w) @ [admin_row rid ?now]\<rparr>\<rparr>"
  let ?role = "admin_role\<lparr>r_id := rid, r_created := ?now\<rparr>"
  have fid: "inj_on (rand_uuid X) {?n..<?n + 40}" and used: "\<And>i. ?n \<le> i \<Longrightarrow> i < ?n + 40 \<Longrightarrow>
      rand_uuid X i \<notin> u_id ` set (users (db w)) \<and> rand_uuid X i \<notin> r_id ` set (roles (db w)) \<and>
      rand_uuid X i \<notin> p_id ` set (permissions (db w))"
    using assms(4) by (auto simp: fresh_ids_def)
  have no_role: "''admin'' \<notin> r_name ` set (roles (db w))"
    using assms(3) by (auto simp: find_role_by_name_def find_None_iff)
  have role: "run_state (ensure_admin_role X) w = (Inr ?role, ?w1)"
    using assms(1,3) no_role used [of ?n]
    by (simp add: ensure_admin_role_def role_find_by_name_def query_row_def role_create_def insert_role_def
        admin_role_def zero_role_def admin_row_def fits_def pg_length_def rid_def)
  let ?w2 = "?w1\<lparr>draws := Suc ?n + 8, db := (db ?w1)\<lparr>permissions := permissions (db w) @ rows\<rparr>\<rparr>"
  have "inj_on (rand_uuid X) {draws ?w1..<draws ?w1 + length base_permissions}"
    using fid by (rule inj_on_subset) (auto simp: base_permissions_facts)
  moreover have "rand_uuid X ` {draws ?w1..<draws ?w1 + length base_permissions} \<inter> p_id ` set (permissions (db ?w1)) = {}"
  proof (rule Int_emptyI)
    fix x assume "x \<in> rand_uuid X ` {draws ?w1..<draws ?w1 + length base_permissions}" and "x \<in> p_id ` set (permissions (db ?w1))"
    with fresh_ids_range [OF assms(4), of "draws ?w1" 8 x] show False by (simp add: base_permissions_facts)
  qed
  ultimately have perms: "run_state (create_permissions X base_permissions) ?w1 = (map p_id rows, ?w2)"
    using create_permissions_run [of ?w1 base_permissions X] assms(1)
    by (simp add: base_permissions_facts rows_def Let_def)
  have "distinct (map p_id rows)"
    unfolding rows_def by (rule new_rows_distinct, rule inj_on_subset [OF fid]) (auto simp: base_permissions_facts)
  moreover have "rid \<in> r_id ` set (roles (db ?w2))" by (simp add: admin_row_def)
  ultimately have assign: "run_state (assign_permissions X rid (map p_id rows)) ?w2 = (Inr (), ?w2\<lparr>draws := Suc (draws ?w2) + length rows,
      db := (db ?w2)\<lparr>role_permissions := filter (\<lambda>rp. fst rp \<noteq> rid) (role_permissions (db w)) @ map (Pair rid) (map p_id rows)\<rparr>\<rparr>)"
    using assign_permissions_run [of ?w2 rid "map p_id rows" X] assms(1) by (simp add: image_mono)
  have "length (new_rows g now n bps ns) \<le> length bps" for g now n bps ns
    by (induction g now n bps ns rule: new_rows.induct) auto
  then have len: "length rows \<le> 8" unfolding rows_def by (metis base_permissions_facts(1))
  obtain k rps where seed: "run_state (seed_permissions X rid) ?w1 = ((), ?w2\<lparr>draws := k, db := (db ?w2)\<lparr>role_permissions := rps\<rparr>\<rparr>)"
    and k: "?n \<le> k" "k < ?n + 20" and rps: "rps = (if rows = [] then role_permissions (db w)
      else filter (\<lambda>rp. fst rp \<noteq> rid) (role_permissions (db w)) @ map (Pair rid) (map p_id rows))"
  proof (cases "rows = []")
    case True
    with that [of "role_permissions (db w)" "draws ?w2"] perms show ?thesis by (simp add: seed_permissions_def)
  next
    case False
    with that [of "filter (\<lambda>rp. fst rp \<noteq> rid) (role_permissions (db w)) @ map (Pair rid) (map p_id rows)"
        "Suc (draws ?w2) + length rows"] perms assign len
    show ?thesis by (simp add: seed_permissions_def)
  qed
  let ?w3 = "?w2\<lparr>draws := k, db := (db ?w2)\<lparr>role_permissions := rps\<rparr>\<rparr>"
  let ?u = "\<lparr>u_id = rand_uuid X (Suc k), u_email = admin_email cfg, u_hash = h, u_name = admin_name cfg,
    u_active = True, u_created = ?now, u_updated = ?now\<rparr>"
  have email: "admin_email cfg \<notin> u_email ` set (users (db w))"
    using assms(2) by (auto simp: find_user_by_email_def find_None_iff)
  have uid: "rand_uuid X (Suc k) \<notin> u_id ` set (users (db w))" using used [of "Suc k"] k by simp
  have "(rand_uuid X (Suc k), rid) \<notin> set (user_roles (db w))" using assms(9) uid by force
  with email uid have "db (snd (run_state (seed_default_admin X cfg) w)) =
      (db ?w3)\<lparr>users := users (db w) @ [?u], user_roles := user_roles (db w) @ [(u_id ?u, rid)]\<rparr>"
    using assms(1,2,5-8) role seed
    by (simp add: seed_default_admin_def admin_email_def [symmetric] admin_password_def [symmetric]
        admin_name_def [symmetric] admin_find_by_email_def Let_def admin_user_create_def zero_user_def
        insert_user_def assign_role_def insert_user_role_def admin_row_def)
  then show ?thesis using uid rps by (intro exI [of _ ?u]) simp
qed

lemma base_pairs_distinct:
  "(n1, a, r, d1) \<in> set base_permissions \<Longrightarrow> (n2, a, r, d2) \<in> set base_permissions \<Longrightarrow> n1 = n2"
  by (auto simp: base_permissions_def)

text \<open>
  Seeding a database without the default administrator and without the role
  \<open>admin\<close> creates an active administrator with the configured password, and gives it a base
  permission exactly if no permission of that name existed: the ones that exist already are
  not assigned to the role. An administrator seeded where \<open>Admin Access\<close> exists is refused
  by the administration routes.
\<close>
lemma seed_grants_new_permissions_only:
  fixes w :: "'r world"
  assumes "db_ok (db w)" and "sched w = []" and "find_user_by_email (admin_email cfg) (db w) = None"
    and "find_role_by_name ''admin'' (db w) = None"
    and "fresh_ids X (draws w) 40 (db w)"
    and "\<forall>salt. bcrypt_generate X (admin_password cfg) 12 salt = Inr h"
    and "fits 255 (admin_email cfg)" and "fits 255 h" and "fits 255 (admin_name cfg)"
    and "d' = db (snd (run_state (seed_default_admin X cfg) w))"
    and "(name, action, resource, desc) \<in> set base_permissions"
  shows "\<exists>u. find_user_by_email (admin_email cfg) d' = Some u \<and> u_active u \<and> u_hash u = h \<and>
    (has_permission (u_id u) action resource d' \<longleftrightarrow> name \<notin> p_name ` set (permissions (db w)))"
proof -
  let ?rid = "rand_uuid X (draws w)" and ?ns = "p_name ` set (permissions (db w))"
  define rows where "rows = new_rows (rand_uuid X) (pg_time (clock w)) (Suc (draws w)) base_permissions ?ns"
  have refs: "\<forall>ur \<in> set (user_roles (db w)). fst ur \<in> u_id ` set (users (db w))"
    using db_ok_refs(1) [OF assms(1)] by blast
  from seed_run [OF assms(2-9) refs, folded rows_def, folded assms(10)] obtain u where
    u: "users d' = users (db w) @ [u]" "u_email u = admin_email cfg" "u_hash u = h" "u_active u"
      "u_id u \<notin> u_id ` set (users (db w))"
    and perms: "permissions d' = permissions (db w) @ rows"
    and ur: "user_roles d' = user_roles (db w) @ [(u_id u, ?rid)]"
    and rp: "role_permissions d' = (if rows = [] then role_permissions (db w)
       else filter (\<lambda>rp. fst rp \<noteq> ?rid) (role_permissions (db w)) @ map (Pair ?rid) (map p_id rows))"
    by blast
  have find: "find_user_by_email (admin_email cfg) d' = Some u"
    using assms(3) u(2) by (simp add: find_user_by_email_def u(1) find_snoc)
  have fresh: "rand_uuid X i \<notin> p_id ` set (permissions (db w)) \<and> rand_uuid X i \<notin> r_id ` set (roles (db w))"
    if "draws w \<le> i" "i < draws w + 40" for i using assms(5) that by (auto simp: fresh_ids_def)
  have no_rp: "(?rid, pid) \<notin> set (role_permissions (db w))" for pid
    using db_ok_refs(3) [OF assms(1)] fresh [of "draws w"] by force
  have no_ur: "(u_id u, rid) \<notin> set (user_roles (db w))" for rid
    using refs u(5) by force
  have ids: "p_id row \<notin> p_id ` set (permissions (db w))" if "row \<in> set rows" for row
  proof -
    have "p_id row \<in> rand_uuid X ` {Suc (draws w)..<Suc (draws w) + length base_permissions}"
      using new_rows_ids [of "rand_uuid X" _ _ base_permissions] that unfolding rows_def by blast
    then show ?thesis
      by (intro fresh_ids_range [OF assms(5), of "Suc (draws w)" 8]) (simp_all add: base_permissions_facts)
  qed
  have "has_permission (u_id u) action resource d' \<longleftrightarrow> (\<exists>row \<in> set rows. p_action row = action \<and> p_resource row = resource)"
  proof
    assume "has_permission (u_id u) action resource d'"
    then obtain pid p where "(?rid, pid) \<in> set (role_permissions d')" and p: "p \<in> set (permissions d')" "p_id p = pid"
        "p_action p = action" "p_resource p = resource"
      using no_ur by (auto simp: has_permission_def ur)
    then obtain row where "row \<in> set rows" "pid = p_id row" using no_rp by (auto simp: rp split: if_splits)
    then have "p \<notin> set (permissions (db w))" using p(2) ids by (metis imageI)
    with p(1) have "p \<in> set rows" by (simp add: perms)
    with p show "\<exists>row \<in> set rows. p_action row = action \<and> p_resource row = resource" by blast
  next
    assume "\<exists>row \<in> set rows. p_action row = action \<and> p_resource row = resource"
    then obtain row where "row \<in> set rows" "p_action row = action" "p_resource row = resource" by blast
    then show "has_permission (u_id u) action resource d'"
      unfolding has_permission_def by (intro bexI [of _ "(u_id u, ?rid)"] bexI [of _ "(?rid, p_id row)"] bexI [of _ row])
        (auto simp: ur rp perms)
  qed
  also have "\<dots> \<longleftrightarrow> (\<exists>n. (n, action, resource) \<in> (\<lambda>p. (p_name p, p_action p, p_resource p)) ` set rows)"
    by auto
  also have "\<dots> \<longleftrightarrow> name \<notin> ?ns"
    unfolding rows_def new_rows_names [OF base_permissions_facts(3)]
    using assms(11) base_pairs_distinct by blast
  finally show ?thesis using find u by blast
qed

definition demo_taken :: db where
  "demo_taken = empty_db\<lparr>permissions := [\<lparr>p_id = 99, p_name = ''Admin Access'', p_action = ''manage'',
     p_resource = ''admin'', p_desc = None, p_created = 0\<rparr>]\<rparr>"

definition demo_seed_config :: config where
  "demo_seed_config = demo_config\<lparr>AdminEmail := [], AdminPassword := [], AdminName := []\<rparr>"

lemma demo_seed_fields [simp]:
  "admin_email demo_seed_config = ''admin@enterprise.com''" "admin_password demo_seed_config = ''Admin123!''"
  "admin_name demo_seed_config = ''System Admin''"
  by (simp_all add: demo_seed_config_def admin_email_def admin_password_def admin_name_def or_default_def)

lemma demo_of_nat_inj: "inj_on (of_nat :: nat \<Rightarrow> uuid) {1..<1 + 40}"
  by (rule inj_onI) (auto simp: word_of_nat_eq_iff take_bit_nat_eq_self)

text \<open>
  The default administrator is seeded once: where a user has its address, seeding
  changes nothing, whatever calls fail.
\<close>
lemma seed_runs_once:
  assumes "find_user_by_email (admin_email cfg) (db w) \<noteq> None"
  shows "db (snd (run_state (seed_default_admin X cfg) w)) = db w"
proof -
  obtain oc w1 where n: "next_call w = (oc, w1)" by fastforce
  then have "db w1 = db w" by (auto dest: next_call_frame)
  with n assms show ?thesis
    by (auto simp: seed_default_admin_def admin_email_def [symmetric] admin_find_by_email_def sql_row_def Let_def)
qed

section \<open>Roles decide\<close>

lemma has_permission_iff:
  "has_permission uid action resource d \<longleftrightarrow> (\<exists>rid p. (uid, rid) \<in> set (user_roles d) \<and> p \<in> set (permissions d) \<and>
     (rid, p_id p) \<in> set (role_permissions d) \<and> p_action p = action \<and> p_resource p = resource)"
  by (force simp: has_permission_def)

text \<open>
  Once \<open>AssignRoles\<close> has succeeded, the user has a permission exactly if one of the
  given roles has it, and every other user has the permissions from before.
\<close>
lemma assign_roles_decides:
  assumes "run_state (assign_roles X uid rids) w = (Inr (), w')"
  shows "(has_permission uid action resource (db w') \<longleftrightarrow>
      (\<exists>rid \<in> set rids. \<exists>p \<in> set (permissions (db w)). (rid, p_id p) \<in> set (role_permissions (db w)) \<and>
         p_action p = action \<and> p_resource p = resource)) \<and>
    (v \<noteq> uid \<longrightarrow> has_permission v action resource (db w') = has_permission v action resource (db w))"
proof -
  have "db w' = (db w)\<lparr>user_roles := filter (\<lambda>ur. fst ur \<noteq> uid) (user_roles (db w)) @ map (Pair uid) rids\<rparr>"
    using set_roles_outcome [OF assms [unfolded assign_roles_def]] by auto
  then show ?thesis by (auto simp: has_permission_iff)
qed

end
