(* ===== verification/Incident.thy ===== *)
theory Incident
  imports AdminProps
begin

text \<open>
  The incident module, \<open>internal/modules/incident/\<close>: repository and service. The statements
  name the table \<open>incidents\<close>; where no such table exists, as after the migrations of the
  repository, each of them fails.
\<close>

section \<open>The repository\<close>

text \<open>A query that the database may reject as a whole.\<close>

definition sql_query :: "(db \<Rightarrow> db_error + 'a list) \<Rightarrow> ('r world, db_error + 'a list) state" where
  "sql_query q = State (\<lambda>w.
     let (oc, w1) = next_call w in
     (case oc of
        Lost \<Rightarrow> Inl ConnLost
      | Done \<Rightarrow> q (db w1)
      | Cut n \<Rightarrow> map_sum (\<lambda>e. e) (take n) (q (db w1)), w1))"

definition incident_rows :: "db \<Rightarrow> db_error + incident list" where
  "incident_rows d = (case incidents d of None \<Rightarrow> Inl (UndefinedTable ''incidents'') | Some rows \<Rightarrow> Inr rows)"

definition incident_repo_create ::
  "'r ext \<Rightarrow> string \<Rightarrow> incident \<Rightarrow> ('r world, db_error + incident) state" where
  "incident_repo_create X default_status inc =
     on_error (sql_exec X (insert_incident default_status (i_title inc) (i_desc inc) (i_severity inc) (i_reporter inc)))
       (\<lambda>e. ret (Inl e))
       (\<lambda>(i, created, updated). ret (Inr (inc\<lparr>i_id := i, i_created := created, i_updated := updated\<rparr>)))"

definition incident_repo_list :: "int \<Rightarrow> int \<Rightarrow> ('r world, db_error + incident list) state" where
  "incident_repo_list limit offset =
     sql_query (\<lambda>d. map_sum (\<lambda>e. e)
       (\<lambda>rows. page (clamp_limit limit) (clamp_offset offset) (rev (sort_key i_created rows))) (incident_rows d))"

definition incident_repo_count :: "('r world, db_error + int) state" where
  "incident_repo_count =
     on_error (sql_row (\<lambda>d. Some (incident_rows d))) (\<lambda>e. ret (Inl e))
       (\<lambda>r. ret (map_sum (\<lambda>e. e) (\<lambda>rows. int (length rows)) r))"

section \<open>The service\<close>

record create_incident_request =
  ci_title :: string
  ci_desc :: string
  ci_severity :: string

record incident_response =
  ir_id :: string
  ir_title :: string
  ir_desc :: string
  ir_status :: string
  ir_severity :: string
  ir_reporter :: string
  ir_created :: time
  ir_updated :: time

definition incident_response_of :: "'r ext \<Rightarrow> incident \<Rightarrow> incident_response" where
  "incident_response_of X i = \<lparr>ir_id = uuid_string X (i_id i), ir_title = i_title i, ir_desc = i_desc i,
     ir_status = i_status i, ir_severity = i_severity i, ir_reporter = uuid_string X (i_reporter i),
     ir_created = i_created i, ir_updated = i_updated i\<rparr>"

definition incident_create ::
  "'r ext \<Rightarrow> string \<Rightarrow> create_incident_request \<Rightarrow> uuid \<Rightarrow> ('r world, db_error + incident_response) state" where
  "incident_create X default_status req userID =
     on_error (incident_repo_create X default_status
         \<lparr>i_id = 0, i_title = ci_title req, i_desc = ci_desc req, i_status = ''open'',
          i_severity = ci_severity req, i_reporter = userID, i_created = 0, i_updated = 0\<rparr>)
       (\<lambda>e. ret (Inl e))
       (\<lambda>inc. ret (Inr (incident_response_of X inc)))"

definition incident_list ::
  "'r ext \<Rightarrow> int \<Rightarrow> int \<Rightarrow> ('r world, db_error + incident_response list \<times> int) state" where
  "incident_list X limit offset =
     on_error (incident_repo_list limit offset) (\<lambda>e. ret (Inl e)) (\<lambda>incs.
     on_error incident_repo_count (\<lambda>e. ret (Inl e)) (\<lambda>total.
       ret (Inr (map (incident_response_of X) incs, total))))"

lemmas incident_defs = incident_repo_create_def incident_repo_list_def incident_repo_count_def
  incident_create_def incident_list_def

section \<open>Lemmas\<close>

lemma io_sql_query:
  assumes "io_preorder R" and "\<And>w oc w'. next_call w = (oc, w') \<Longrightarrow> R w w'"
  shows "state_io_rel R (sql_query q)"
  unfolding state_io_rel_def sql_query_def using assms by (auto simp: Let_def split: prod.splits outcome.splits)

lemma io_sql_query_rels [io_intros]:
  "io_preorder P \<Longrightarrow> state_io_rel (on_db P) (sql_query q)" "state_io_rel quiet (sql_query q)"
  by (rule io_sql_query; auto simp: on_db_def io_preorder_refl dest!: next_call_frame)
    (rule io_sql_query; auto dest!: next_call_quiet)

lemma run_sql_query_empty [simp]: "sched w = [] \<Longrightarrow> run_state (sql_query q) w = (q (db w), w)"
  by (simp add: sql_query_def)

lemma incident_ok [io_intros]:
  "state_io_rel (on_db (keeps db_ok)) (incident_create X s req uid)"
  "state_io_rel (on_db (keeps db_ok)) (incident_list X limit offset)"
  unfolding incident_defs case_prod_beta
  by (intro io_intros db_keeps io_preorder_on_db io_preorder_keeps)+

lemma incident_quiet [io_intros]:
  "state_io_rel quiet (incident_create X s req uid)" "state_io_rel quiet (incident_list X limit offset)"
  unfolding incident_defs case_prod_beta by (intro io_intros io_preorder_quiet)+

text \<open>
  On the database that the migrations leave, which has no table \<open>incidents\<close>, neither
  filing nor listing incidents ever succeeds, and neither changes anything.
\<close>
lemma incidents_need_a_table:
  fixes w :: "'r world"
  assumes "incidents (db w) = None"
  shows "(\<exists>e. fst (run_state (incident_create X s req uid) w) = Inl e) \<and>
     db (snd (run_state (incident_create X s req uid) w)) = db w \<and>
     (\<exists>e. fst (run_state (incident_list X limit offset) w) = Inl e) \<and>
     db (snd (run_state (incident_list X limit offset) w)) = db w"
proof -
  obtain oc w1 where n: "next_call w = (oc, w1)" by fastforce
  then have d: "db w1 = db w" by (auto dest: next_call_frame)
  have "fst (run_state (incident_repo_list limit offset) w) \<in> range Inl"
    using n d assms by (cases oc) (auto simp: incident_repo_list_def sql_query_def incident_rows_def)
  moreover have "state_io_rel (on_db (same (\<lambda>d. d))) (incident_list X limit offset)"
    unfolding incident_defs by (intro io_intros io_preorder_on_db io_preorder_same)
  then have "db (snd (run_state (incident_list X limit offset) w)) = db w"
    by (simp add: state_io_rel_def on_db_def same_def)
  ultimately show ?thesis
    using n d assms by (cases oc)
      (auto simp: incident_create_def incident_repo_create_def incident_list_def sql_exec_def insert_incident_def
        split: prod.splits sum.splits)
qed

text \<open>
  Where the table exists, filing an incident stores it for its reporter and answers with
  the stored row, but for the status: the answer always says \<open>open\<close>, whatever the column's
  default makes of the row.
\<close>
lemma incident_is_filed:
  fixes w :: "'r world"
  assumes "sched w = []" and "incidents (db w) = Some rows"
  shows "\<exists>i. incidents (db (snd (run_state (incident_create X s req uid) w))) = Some (rows @ [i]) \<and>
     i_title i = ci_title req \<and> i_desc i = ci_desc req \<and> i_severity i = ci_severity req \<and>
     i_reporter i = uid \<and> i_status i = s \<and>
     fst (run_state (incident_create X s req uid) w) = Inr (incident_response_of X (i\<lparr>i_status := ''open''\<rparr>))"
  using assms by (simp add: incident_create_def incident_repo_create_def insert_incident_def incident_response_of_def)

end
