(* ===== verification/Handlers.thy ===== *)
theory Handlers
  imports Incident
begin

text \<open>
  The HTTP handlers, \<open>internal/modules/{auth,admin,incident}/handler/\<close>: binding of the
  request, the call of the service, the status and the body of the response. Decoding the
  JSON text of a body into a struct is a parameter; the rules that the \<open>binding\<close> tags of the
  structs state are modelled here, over a parameter for what an e-mail address is.
\<close>

section \<open>\<open>strconv.Atoi\<close>\<close>

definition digit_value :: "char \<Rightarrow> nat option" where
  "digit_value c = (if 48 \<le> (of_char c :: nat) \<and> (of_char c :: nat) \<le> 57 then Some (of_char c - 48) else None)"

text \<open>
  \<open>ParseUint\<close> stops at the first character that is no digit with a syntax error (\<open>None\<close>)
  and at the first digit that leaves 64 bits with the largest number.
\<close>

fun parse_uint :: "nat \<Rightarrow> string \<Rightarrow> nat option" where
  "parse_uint acc [] = Some acc"
| "parse_uint acc (c # cs) =
     (case digit_value c of
        None \<Rightarrow> None
      | Some v \<Rightarrow> if 2 ^ 64 \<le> acc * 10 + v then Some (2 ^ 64 - 1) else parse_uint (acc * 10 + v) cs)"

text \<open>The number that \<open>Atoi\<close> returns; the handlers ignore its error.\<close>

definition atoi :: "string \<Rightarrow> int" where
  "atoi s =
     (let neg = (s \<noteq> [] \<and> hd s = CHR ''-'');
          ds = (if s \<noteq> [] \<and> (hd s = CHR ''-'' \<or> hd s = CHR ''+'') then tl s else s)
      in if ds = [] then 0
         else case parse_uint 0 ds of
           None \<Rightarrow> 0
         | Some n \<Rightarrow>
             if neg then (if 2 ^ 63 < n then - (2 ^ 63) else - int n)
             else (if 2 ^ 63 \<le> n then 2 ^ 63 - 1 else int n))"

section \<open>Binding\<close>

record decoders =
  dec_register :: "string \<Rightarrow> go_error + register_request"
  dec_login :: "string \<Rightarrow> go_error + login_request"
  dec_refresh :: "string \<Rightarrow> go_error + string"
  dec_logout :: "string \<Rightarrow> string"
  dec_create_user :: "string \<Rightarrow> go_error + create_user_request"
  dec_uuids :: "string \<Rightarrow> string \<Rightarrow> go_error + uuid list option"
  dec_role :: "string \<Rightarrow> go_error + create_role_request"
  dec_permission :: "string \<Rightarrow> go_error + create_permission_request"
  dec_incident :: "string \<Rightarrow> go_error + create_incident_request"
  email_ok :: "string \<Rightarrow> bool"

definition bind_check :: "go_error + 'a \<Rightarrow> ('a \<Rightarrow> bool) \<Rightarrow> go_error + 'a" where
  "bind_check r ok = (case r of Inl e \<Rightarrow> Inl e | Inr a \<Rightarrow> if ok a then Inr a else Inl (Ext ''validator''))"

text \<open>
  \<open>required\<close> asks for a text that is not empty, and of a slice that it is not nil: an empty
  list will do. \<open>min=8\<close> counts characters.
\<close>

definition bind_register :: "decoders \<Rightarrow> request \<Rightarrow> go_error + register_request" where
  "bind_register B rq = bind_check (dec_register B (rq_body rq)) (\<lambda>r.
     rr_email r \<noteq> [] \<and> email_ok B (rr_email r) \<and> rr_password r \<noteq> [] \<and> 8 \<le> pg_length (rr_password r) \<and>
     rr_full_name r \<noteq> [])"

definition bind_login :: "decoders \<Rightarrow> request \<Rightarrow> go_error + login_request" where
  "bind_login B rq = bind_check (dec_login B (rq_body rq)) (\<lambda>r.
     lr_email r \<noteq> [] \<and> email_ok B (lr_email r) \<and> lr_password r \<noteq> [])"

definition bind_refresh :: "decoders \<Rightarrow> request \<Rightarrow> go_error + string" where
  "bind_refresh B rq = bind_check (dec_refresh B (rq_body rq)) (\<lambda>t. t \<noteq> [])"

definition bind_create_user :: "decoders \<Rightarrow> request \<Rightarrow> go_error + create_user_request" where
  "bind_create_user B rq = bind_check (dec_create_user B (rq_body rq)) (\<lambda>r.
     cu_email r \<noteq> [] \<and> email_ok B (cu_email r) \<and> cu_password r \<noteq> [] \<and> 8 \<le> pg_length (cu_password r) \<and>
     cu_full_name r \<noteq> [])"

definition bind_uuids :: "decoders \<Rightarrow> string \<Rightarrow> request \<Rightarrow> go_error + uuid list" where
  "bind_uuids B field rq =
     map_sum (\<lambda>e. e) (\<lambda>us. case us of None \<Rightarrow> [] | Some l \<Rightarrow> l)
       (bind_check (dec_uuids B field (rq_body rq)) (\<lambda>us. us \<noteq> None))"

definition bind_create_role :: "decoders \<Rightarrow> request \<Rightarrow> go_error + create_role_request" where
  "bind_create_role B rq = bind_check (dec_role B (rq_body rq)) (\<lambda>r. cr_name r \<noteq> [])"

definition bind_update_role :: "decoders \<Rightarrow> request \<Rightarrow> go_error + create_role_request" where
  "bind_update_role B rq = dec_role B (rq_body rq)"

definition bind_create_permission :: "decoders \<Rightarrow> request \<Rightarrow> go_error + create_permission_request" where
  "bind_create_permission B rq = bind_check (dec_permission B (rq_body rq)) (\<lambda>r.
     cp_name r \<noteq> [] \<and> cp_action r \<noteq> [] \<and> cp_resource r \<noteq> [])"

definition bind_update_permission :: "decoders \<Rightarrow> request \<Rightarrow> go_error + create_permission_request" where
  "bind_update_permission B rq = dec_permission B (rq_body rq)"

definition bind_incident :: "decoders \<Rightarrow> request \<Rightarrow> go_error + create_incident_request" where
  "bind_incident B rq = bind_check (dec_incident B (rq_body rq)) (\<lambda>r.
     ci_title r \<noteq> [] \<and> ci_desc r \<noteq> [] \<and> ci_severity r \<noteq> [])"

section \<open>Bodies\<close>

text \<open>A slice that was only appended to is nil when it is empty, and a nil slice is \<open>null\<close>.\<close>

definition json_slice :: "('a \<Rightarrow> json) \<Rightarrow> 'a list \<Rightarrow> json" where
  "json_slice f xs = (if xs = [] then JNull else JList (map f xs))"

definition omit_empty :: "string \<Rightarrow> ('a \<Rightarrow> json) \<Rightarrow> 'a list \<Rightarrow> (string \<times> json) list" where
  "omit_empty k f xs = (if xs = [] then [] else [(k, JList (map f xs))])"

definition auth_json :: "auth_response \<Rightarrow> json" where
  "auth_json r = JObj [(''access_token'', JStr (AccessToken r)), (''refresh_token'', JStr (RefreshToken r)),
     (''expires_at'', JTime (ExpiresAt r)),
     (''user'', JObj [(''id'', JStr (ui_id (User r))), (''email'', JStr (ui_email (User r))),
        (''full_name'', JStr (ui_full_name (User r)))])]"

definition role_info_json :: "role_info \<Rightarrow> json" where
  "role_info_json r = JObj [(''id'', JStr (ri_id r)), (''name'', JStr (ri_name r)),
     (''category'', JStr (ri_category r)), (''description'', JStr (ri_desc r))]"

definition user_json :: "user_response \<Rightarrow> json" where
  "user_json u = JObj ([(''id'', JStr (ur_id u)), (''email'', JStr (ur_email u)),
     (''full_name'', JStr (ur_full_name u)), (''is_active'', JBool (ur_active u))] @
     omit_empty ''roles'' role_info_json (ur_roles u) @ [(''created_at'', JTime (ur_created u))])"

definition permission_info_json :: "permission_info \<Rightarrow> json" where
  "permission_info_json p = JObj [(''id'', JStr (pi_id p)), (''name'', JStr (pi_name p)),
     (''action'', JStr (pi_action p)), (''resource'', JStr (pi_resource p)), (''description'', JStr (pi_desc p))]"

definition role_json :: "role_response \<Rightarrow> json" where
  "role_json r = JObj ([(''id'', JStr (rs_id r)), (''name'', JStr (rs_name r)),
     (''category'', JStr (rs_category r)), (''description'', JStr (rs_desc r))] @
     omit_empty ''permissions'' permission_info_json (rs_permissions r) @ [(''created_at'', JTime (rs_created r))])"

definition permission_json :: "permission_response \<Rightarrow> json" where
  "permission_json p = JObj [(''id'', JStr (ps_id p)), (''name'', JStr (ps_name p)),
     (''action'', JStr (ps_action p)), (''resource'', JStr (ps_resource p)), (''description'', JStr (ps_desc p)),
     (''created_at'', JTime (ps_created p))]"

definition incident_json :: "incident_response \<Rightarrow> json" where
  "incident_json i = JObj [(''id'', JStr (ir_id i)), (''title'', JStr (ir_title i)),
     (''description'', JStr (ir_desc i)), (''status'', JStr (ir_status i)), (''severity'', JStr (ir_severity i)),
     (''reported_by'', JStr (ir_reporter i)), (''created_at'', JTime (ir_created i)),
     (''updated_at'', JTime (ir_updated i))]"

definition message_json :: "string \<Rightarrow> json" where
  "message_json m = JObj [(''message'', JStr m)]"

definition list_json :: "('a \<Rightarrow> json) \<Rightarrow> 'a list \<Rightarrow> int \<Rightarrow> int \<Rightarrow> int \<Rightarrow> json" where
  "list_json f xs cnt limit offset = JObj [(''data'', json_slice f xs), (''limit'', JInt limit),
     (''offset'', JInt offset), (''total'', JInt cnt)]"

section \<open>The auth handlers\<close>

definition handle_register :: "'r ext \<Rightarrow> config \<Rightarrow> decoders \<Rightarrow> request \<Rightarrow> ('r, 'l) prog" where
  "handle_register X cfg B rq =
     (case bind_register B rq of
        Inl e \<Rightarrow> respond 400 (err_of e)
      | Inr req \<Rightarrow> on_error (in_world (register X cfg req)) (\<lambda>e. respond 409 (err_of e))
          (\<lambda>resp. respond 201 (auth_json resp)))"

definition handle_login :: "'r ext \<Rightarrow> config \<Rightarrow> decoders \<Rightarrow> request \<Rightarrow> ('r, 'l) prog" where
  "handle_login X cfg B rq =
     (case bind_login B rq of
        Inl e \<Rightarrow> respond 400 (err_of e)
      | Inr req \<Rightarrow>
          on_error (in_world (login X cfg req (GetHeader rq ''X-Device-ID'') (rq_ip rq) (UserAgent rq)))
            (\<lambda>e. respond 401 (err_of e)) (\<lambda>resp. respond 200 (auth_json resp)))"

definition handle_refresh :: "'r ext \<Rightarrow> config \<Rightarrow> decoders \<Rightarrow> request \<Rightarrow> ('r, 'l) prog" where
  "handle_refresh X cfg B rq =
     (case bind_refresh B rq of
        Inl e \<Rightarrow> respond 400 (err_of e)
      | Inr token \<Rightarrow>
          on_error (in_world (refresh_tokens_op X cfg token (GetHeader rq ''X-Device-ID'') (rq_ip rq) (UserAgent rq)))
            (\<lambda>e. respond 401 (err_of e)) (\<lambda>resp. respond 200 (auth_json resp)))"

definition handle_logout :: "'r ext \<Rightarrow> decoders \<Rightarrow> request \<Rightarrow> ('r, 'l) prog" where
  "handle_logout X B rq =
     (let authHeader = GetHeader rq ''Authorization'';
          accessToken = (if 7 < length authHeader then drop 7 authHeader else [])
      in on_error (in_world (logout X accessToken (dec_logout B (rq_body rq))))
           (\<lambda>e. respond 500 (err_of e)) (\<lambda>_. respond 200 (message_json ''logged out'')))"

section \<open>The administration handlers\<close>

text \<open>\<open>uuid.Parse(c.Param("id"))\<close>, which every handler with an id begins with.\<close>

definition with_id :: "'r ext \<Rightarrow> request \<Rightarrow> string \<Rightarrow> (uuid \<Rightarrow> ('r, 'l) prog) \<Rightarrow> ('r, 'l) prog" where
  "with_id X rq msg k =
     (case uuid_parse X (rq_param rq) of
        None \<Rightarrow> respond 400 (err_body msg)
      | Some i \<Rightarrow> k i)"

definition with_body :: "go_error + 'a \<Rightarrow> ('a \<Rightarrow> ('r, 'l) prog) \<Rightarrow> ('r, 'l) prog" where
  "with_body b k = (case b of Inl e \<Rightarrow> respond 400 (err_of e) | Inr req \<Rightarrow> k req)"

definition handle_list ::
  "('a \<Rightarrow> json) \<Rightarrow> (int \<Rightarrow> int \<Rightarrow> ('r world, db_error + 'a list \<times> int) state) \<Rightarrow> request \<Rightarrow> ('r, 'l) prog" where
  "handle_list f svc rq =
     (let limit = atoi (DefaultQuery rq ''limit'' ''20''); offset = atoi (DefaultQuery rq ''offset'' ''0'')
      in on_error (in_world (svc limit offset)) (\<lambda>e. respond 500 (err_of (Db e)))
           (\<lambda>(xs, total). respond 200 (list_json f xs total limit offset)))"

definition handle_list_users :: "'r ext \<Rightarrow> request \<Rightarrow> ('r, 'l) prog" where
  "handle_list_users X rq = handle_list user_json (list_users X) rq"

definition handle_get_user :: "'r ext \<Rightarrow> request \<Rightarrow> ('r, 'l) prog" where
  "handle_get_user X rq = with_id X rq ''invalid user id'' (\<lambda>i.
     on_error (in_world (get_user X i)) (\<lambda>e. respond 404 (err_of e)) (\<lambda>resp. respond 200 (user_json resp)))"

definition handle_create_user :: "'r ext \<Rightarrow> decoders \<Rightarrow> request \<Rightarrow> ('r, 'l) prog" where
  "handle_create_user X B rq = with_body (bind_create_user B rq) (\<lambda>req.
     on_error (in_world (create_user X req)) (\<lambda>e. respond 409 (err_of e)) (\<lambda>resp. respond 201 (user_json resp)))"

definition handle_assign_roles :: "'r ext \<Rightarrow> decoders \<Rightarrow> request \<Rightarrow> ('r, 'l) prog" where
  "handle_assign_roles X B rq = with_id X rq ''invalid user id'' (\<lambda>i.
     with_body (bind_uuids B ''role_ids'' rq) (\<lambda>rids.
       on_error (in_world (assign_roles X i rids)) (\<lambda>e. respond 500 (err_of (Db e)))
         (\<lambda>_. respond 200 (message_json ''roles assigned''))))"

definition handle_list_roles :: "'r ext \<Rightarrow> (string \<Rightarrow> nat list) \<Rightarrow> request \<Rightarrow> ('r, 'l) prog" where
  "handle_list_roles X collate rq = handle_list role_json (list_roles X collate) rq"

definition handle_create_role :: "'r ext \<Rightarrow> decoders \<Rightarrow> request \<Rightarrow> ('r, 'l) prog" where
  "handle_create_role X B rq = with_body (bind_create_role B rq) (\<lambda>req.
     on_error (in_world (create_role X req)) (\<lambda>e. respond 409 (err_of e)) (\<lambda>resp. respond 201 (role_json resp)))"

definition handle_update_role :: "'r ext \<Rightarrow> decoders \<Rightarrow> request \<Rightarrow> ('r, 'l) prog" where
  "handle_update_role X B rq = with_id X rq ''invalid role id'' (\<lambda>i.
     with_body (bind_update_role B rq) (\<lambda>req.
       on_error (in_world (update_role_op X i req)) (\<lambda>e. respond 404 (err_of e)) (\<lambda>resp. respond 200 (role_json resp))))"

definition handle_delete_role :: "'r ext \<Rightarrow> request \<Rightarrow> ('r, 'l) prog" where
  "handle_delete_role X rq = with_id X rq ''invalid role id'' (\<lambda>i.
     on_error (in_world (delete_role_op X i)) (\<lambda>e. respond 500 (err_of (Db e))) (\<lambda>_. respond_status 204))"

definition handle_assign_permissions :: "'r ext \<Rightarrow> decoders \<Rightarrow> request \<Rightarrow> ('r, 'l) prog" where
  "handle_assign_permissions X B rq = with_id X rq ''invalid role id'' (\<lambda>i.
     with_body (bind_uuids B ''permission_ids'' rq) (\<lambda>pids.
       on_error (in_world (assign_permissions_op X i pids)) (\<lambda>e. respond 500 (err_of (Db e)))
         (\<lambda>_. respond 200 (message_json ''permissions assigned''))))"

definition handle_list_permissions :: "'r ext \<Rightarrow> (string \<Rightarrow> nat list) \<Rightarrow> request \<Rightarrow> ('r, 'l) prog" where
  "handle_list_permissions X collate rq = handle_list permission_json (list_permissions X collate) rq"

definition handle_create_permission :: "'r ext \<Rightarrow> decoders \<Rightarrow> request \<Rightarrow> ('r, 'l) prog" where
  "handle_create_permission X B rq = with_body (bind_create_permission B rq) (\<lambda>req.
     on_error (in_world (create_permission X req)) (\<lambda>e. respond 409 (err_of e))
       (\<lambda>resp. respond 201 (permission_json resp)))"

definition handle_update_permission :: "'r ext \<Rightarrow> decoders \<Rightarrow> request \<Rightarrow> ('r, 'l) prog" where
  "handle_update_permission X B rq = with_id X rq ''invalid permission id'' (\<lambda>i.
     with_body (bind_update_permission B rq) (\<lambda>req.
       on_error (in_world (update_permission_op X i req)) (\<lambda>e. respond 404 (err_of e))
         (\<lambda>resp. respond 200 (permission_json resp))))"

definition handle_delete_permission :: "'r ext \<Rightarrow> request \<Rightarrow> ('r, 'l) prog" where
  "handle_delete_permission X rq = with_id X rq ''invalid permission id'' (\<lambda>i.
     on_error (in_world (delete_permission_op X i)) (\<lambda>e. respond 500 (err_of (Db e))) (\<lambda>_. respond_status 204))"

section \<open>The incident handlers\<close>

text \<open>
  \<open>c.MustGet("userID")\<close> panics when no identity is set, which ends the request without a
  response. On the routes that case is not reached: the authentication, which sets the
  identity, is in front.
\<close>

definition handle_incident_create :: "'r ext \<Rightarrow> string \<Rightarrow> decoders \<Rightarrow> request \<Rightarrow> ('r, 'l) prog" where
  "handle_incident_create X default_status B rq = with_body (bind_incident B rq) (\<lambda>req. do {
     userID \<leftarrow> read_state ctx_user;
     case userID of
       None \<Rightarrow> ret ()
     | Some uid \<Rightarrow>
         on_error (in_world (incident_create X default_status req uid)) (\<lambda>e. respond 500 (err_of (Db e)))
           (\<lambda>resp. respond 201 (incident_json resp))
   })"

definition handle_incident_list :: "'r ext \<Rightarrow> request \<Rightarrow> ('r, 'l) prog" where
  "handle_incident_list X rq = handle_list incident_json (incident_list X) rq"

end
