(* ===== verification/Router.thy ===== *)
theory Router
  imports Handlers
begin

text \<open>
  The engine, \<open>internal/router/router.go\<close> and the \<open>routes.go\<close> of the modules: the global
  chain of middleware, the table of routes, and what the server does with a request. Which
  route of the table a request matches is the business of \<open>gin\<close>, a parameter.
\<close>

section \<open>Routes\<close>

text \<open>A route: method, pattern, and its handlers as one program.\<close>

type_synonym ('r, 'l) route = "string \<times> string \<times> ('r, 'l) prog"

definition pattern_of :: "('r, 'l) route \<Rightarrow> string \<times> string" where
  "pattern_of r = (fst r, fst (snd r))"

record pool_stats =
  AcquireCount :: int
  AcquireDuration :: string
  IdleConns :: int
  TotalConns :: int
  MaxConns :: int

text \<open>The keys of a \<open>gin.H\<close> are encoded in alphabetical order.\<close>

definition handle_health :: "pool_stats \<Rightarrow> ('r, 'l) prog" where
  "handle_health st = respond 200 (JObj [(''db_acquire_count'', JInt (AcquireCount st)),
     (''db_acquire_duration'', JStr (AcquireDuration st)), (''db_idle_conns'', JInt (IdleConns st)),
     (''db_max_conns'', JInt (MaxConns st)), (''db_total_conns'', JInt (TotalConns st)),
     (''status'', JStr ''ok'')])"

text \<open>
  What the handlers take from outside: the decoders, the order of texts, the default of the
  column \<open>incidents.status\<close>, the figures of the connection pool, the throttle's buckets
  with the conversion of a rate, and the matching of routes.
\<close>

datatype matching = NoRoute | OtherSlash | Matched nat string

record ('l, 'q) env =
  decoding :: decoders
  collation :: "string \<Rightarrow> nat list"
  incident_status :: string
  stats :: pool_stats
  limiters :: "('l, 'q) rate_ops"
  to_limit :: "int \<Rightarrow> 'q"
  gin_match :: "(string \<times> string) list \<Rightarrow> string \<Rightarrow> string \<Rightarrow> matching"

definition in_group :: "string \<Rightarrow> (('r, 'l) prog \<Rightarrow> ('r, 'l) prog) \<Rightarrow> ('r, 'l) route list \<Rightarrow> ('r, 'l) route list" where
  "in_group prefix mw rts = map (\<lambda>(m, p, h). (m, prefix @ p, mw h)) rts"

definition auth_routes :: "'r ext \<Rightarrow> config \<Rightarrow> ('l, 'q) env \<Rightarrow> request \<Rightarrow> ('r, 'l) route list" where
  "auth_routes X cfg E rq = in_group ''/api/v1/auth'' (\<lambda>h. h) [
     (''POST'', ''/register'', handle_register X cfg (decoding E) rq),
     (''POST'', ''/login'', handle_login X cfg (decoding E) rq),
     (''POST'', ''/refresh'', handle_refresh X cfg (decoding E) rq),
     (''POST'', ''/logout'', auth_required X rq (handle_logout X (decoding E) rq))]"

definition admin_guard :: "'r ext \<Rightarrow> request \<Rightarrow> ('r, 'l) prog \<Rightarrow> ('r, 'l) prog" where
  "admin_guard X rq h = auth_required X rq (require_permission ''manage'' ''admin'' h)"

definition admin_routes :: "'r ext \<Rightarrow> ('l, 'q) env \<Rightarrow> request \<Rightarrow> ('r, 'l) route list" where
  "admin_routes X E rq = in_group ''/api/v1/admin'' (admin_guard X rq) [
     (''GET'', ''/users'', handle_list_users X rq),
     (''GET'', ''/users/:id'', handle_get_user X rq),
     (''POST'', ''/users'', handle_create_user X (decoding E) rq),
     (''PUT'', ''/users/:id/roles'', handle_assign_roles X (decoding E) rq),
     (''GET'', ''/roles'', handle_list_roles X (collation E) rq),
     (''POST'', ''/roles'', handle_create_role X (decoding E) rq),
     (''PUT'', ''/roles/:id'', handle_update_role X (decoding E) rq),
     (''DELETE'', ''/roles/:id'', handle_delete_role X rq),
     (''PUT'', ''/roles/:id/permissions'', handle_assign_permissions X (decoding E) rq),
     (''GET'', ''/permissions'', handle_list_permissions X (collation E) rq),
     (''POST'', ''/permissions'', handle_create_permission X (decoding E) rq),
     (''PUT'', ''/permissions/:id'', handle_update_permission X (decoding E) rq),
     (''DELETE'', ''/permissions/:id'', handle_delete_permission X rq)]"

definition incident_routes :: "'r ext \<Rightarrow> ('l, 'q) env \<Rightarrow> request \<Rightarrow> ('r, 'l) route list" where
  "incident_routes X E rq = in_group ''/api/v1/incidents'' (auth_required X rq) [
     (''POST'', ''/'', require_permission ''create'' ''incident''
        (handle_incident_create X (incident_status E) (decoding E) rq)),
     (''GET'', ''/'', require_permission ''read'' ''incident'' (handle_incident_list X rq))]"

definition websocket_routes :: "('r, 'l) route list" where
  "websocket_routes = []"

definition engine_routes :: "'r ext \<Rightarrow> config \<Rightarrow> ('l, 'q) env \<Rightarrow> request \<Rightarrow> ('r, 'l) route list" where
  "engine_routes X cfg E rq = (''GET'', ''/health'', handle_health (stats E)) #
     auth_routes X cfg E rq @ admin_routes X E rq @ incident_routes X E rq @ websocket_routes"

section \<open>Serving a request\<close>

definition global_chain ::
  "'r ext \<Rightarrow> config \<Rightarrow> ('l, 'q) env \<Rightarrow> request \<Rightarrow> ('r, 'l) prog \<Rightarrow> ('r, 'l) prog" where
  "global_chain X cfg E rq h =
     security_headers (cors rq (gzip rq
       (throttle (limiters E) (ThrottleBurst cfg) (to_limit E (ThrottleRate cfg)) rq
         (rate_limiter X (RateLimitRequests cfg) (RateLimitDurationSec cfg) rq
           (activity_logger rq h)))))"

text \<open>Every request starts with an empty context and an empty response.\<close>

definition fresh_context :: "('r, 'l) prog" where
  "fresh_context = State (\<lambda>s. ((), s\<lparr>ctx_user := None, ctx_email := None, out_headers := [],
     out_status := 200, out_body := None, out_gzip := False\<rparr>))"

text \<open>
  A request that no route matches runs the global chain as well; one that would match with
  or without a slash at its end is redirected before the chain. (The text \<open>404 page not found\<close>
  that \<open>gin\<close> writes after the chain, when no handler wrote a body, is not part of the program and left out.)
\<close>

definition serve :: "'r ext \<Rightarrow> config \<Rightarrow> ('l, 'q) env \<Rightarrow> request \<Rightarrow> ('r, 'l) prog" where
  "serve X cfg E rq = do {
     fresh_context;
     case gin_match E (map pattern_of (engine_routes X cfg E rq)) (rq_method rq) (rq_path rq) of
       NoRoute \<Rightarrow> global_chain X cfg E rq (respond_status 404)
     | OtherSlash \<Rightarrow> respond_status (if rq_method rq = ''GET'' then 301 else 307)
     | Matched i param \<Rightarrow>
         let rq' = rq\<lparr>rq_param := param\<rparr> in
         global_chain X cfg E rq' (snd (snd (engine_routes X cfg E rq' ! i)))
   }"

end
