(* ===== verification/ServerProps.thy ===== *)
theory ServerProps
  imports Router
begin

text \<open>
  The server as a whole: what each handler keeps, what the global chain and the guards let
  through, and the invariant of every sequence of requests and background steps.
\<close>

section \<open>What the administration service leaves alone\<close>

lemma quiet_admin_repo [io_intros]:
  "state_io_rel quiet (set_roles X uid rids)" "state_io_rel quiet (assign_permissions X rid pids)"
  "state_io_rel quiet (get_roles uid)" "state_io_rel quiet (get_permissions rid)"
  "state_io_rel quiet (permission_create X p)"
  unfolding set_roles_def assign_permissions_def transaction_def get_roles_def get_permissions_def query_rows_def
    permission_create_def case_prod_beta
  by (intro io_intros io_preorder_quiet)+

lemma quiet_admin_service [io_intros]:
  "state_io_rel quiet (list_users X limit offset)" "state_io_rel quiet (get_user X uid)"
  "state_io_rel quiet (create_user X cu)" "state_io_rel quiet (assign_roles X uid rids)"
  "state_io_rel quiet (list_roles X collate limit offset)" "state_io_rel quiet (create_role X cr)"
  "state_io_rel quiet (update_role_op X rid cr)" "state_io_rel quiet (delete_role_op X rid)"
  "state_io_rel quiet (assign_permissions_op X rid pids)"
  "state_io_rel quiet (list_permissions X collate limit offset)" "state_io_rel quiet (create_permission X cp)"
  "state_io_rel quiet (update_permission_op X pid cp)" "state_io_rel quiet (delete_permission_op X pid)"
  unfolding admin_service_defs admin_repo_defs Let_def case_prod_beta
  by (intro io_intros io_preorder_quiet)+

lemma admin_reads_ok [io_intros]:
  "state_io_rel (on_db (keeps db_ok)) (list_users X limit offset)"
  "state_io_rel (on_db (keeps db_ok)) (get_user X uid)"
  "state_io_rel (on_db (keeps db_ok)) (list_roles X collate limit offset)"
  "state_io_rel (on_db (keeps db_ok)) (list_permissions X collate limit offset)"
  unfolding admin_service_defs admin_repo_defs Let_def case_prod_beta
  by (intro io_intros db_keeps io_preorder_on_db io_preorder_keeps)+

section \<open>Handlers\<close>

lemmas handler_defs = handle_register_def handle_login_def handle_refresh_def handle_logout_def
  handle_list_users_def handle_get_user_def handle_create_user_def handle_assign_roles_def
  handle_list_roles_def handle_create_role_def handle_update_role_def handle_delete_role_def
  handle_assign_permissions_def handle_list_permissions_def handle_create_permission_def
  handle_update_permission_def handle_delete_permission_def handle_incident_create_def
  handle_incident_list_def handle_health_def

text \<open>
  A relation on worlds that the services respect is respected by every handler.
\<close>

locale service_relation =
  fixes X :: "'r ext" and P :: "'r world \<Rightarrow> 'r world \<Rightarrow> bool"
  assumes preorder [simp, intro]: "io_preorder P"
    and auth: "state_io_rel P (register X cfg rr)" "state_io_rel P (login X cfg lr dev ip ua)"
      "state_io_rel P (refresh_tokens_op X cfg tok dev ip ua)" "state_io_rel P (logout X at rt)"
    and admin_users: "state_io_rel P (list_users X limit offset)" "state_io_rel P (get_user X uid)"
      "state_io_rel P (create_user X cu)" "state_io_rel P (assign_roles X uid rids)"
    and admin_roles: "state_io_rel P (list_roles X collate limit offset)" "state_io_rel P (create_role X cr)"
      "state_io_rel P (update_role_op X rid cr)" "state_io_rel P (delete_role_op X rid)"
      "state_io_rel P (assign_permissions_op X rid pids)"
    and admin_perms: "state_io_rel P (list_permissions X collate limit offset)" "state_io_rel P (create_permission X cp)"
      "state_io_rel P (update_permission_op X pid cp)" "state_io_rel P (delete_permission_op X pid)"
    and incidents: "state_io_rel P (incident_create X st ci uid)" "state_io_rel P (incident_list X limit offset)"
begin

lemmas service_rules = auth admin_users admin_roles admin_perms incidents

lemma with_id: "(\<And>i. state_io_rel (on_world P) (k i)) \<Longrightarrow> state_io_rel (on_world P) (with_id X rq msg k)"
  unfolding with_id_def by (intro io_intros io_preorder_on_world preorder)

lemma with_body: "(\<And>b. state_io_rel (on_world P) (k b)) \<Longrightarrow> state_io_rel (on_world P) (with_body r k)"
  unfolding with_body_def by (intro io_intros io_preorder_on_world preorder)

lemma listing:
  "(\<And>l off. state_io_rel P (svc l off)) \<Longrightarrow> state_io_rel (on_world P) (handle_list f svc rq)"
  unfolding handle_list_def Let_def case_prod_beta
  by (intro io_intros io_preorder_on_world preorder)

lemma handlers:
  "state_io_rel (on_world P) (handle_register X cfg B rq)" "state_io_rel (on_world P) (handle_login X cfg B rq)"
  "state_io_rel (on_world P) (handle_refresh X cfg B rq)" "state_io_rel (on_world P) (handle_logout X B rq)"
  "state_io_rel (on_world P) (handle_list_users X rq)" "state_io_rel (on_world P) (handle_get_user X rq)"
  "state_io_rel (on_world P) (handle_create_user X B rq)" "state_io_rel (on_world P) (handle_assign_roles X B rq)"
  "state_io_rel (on_world P) (handle_list_roles X collate rq)" "state_io_rel (on_world P) (handle_create_role X B rq)"
  "state_io_rel (on_world P) (handle_update_role X B rq)" "state_io_rel (on_world P) (handle_delete_role X rq)"
  "state_io_rel (on_world P) (handle_assign_permissions X B rq)"
  "state_io_rel (on_world P) (handle_list_permissions X collate rq)"
  "state_io_rel (on_world P) (handle_create_permission X B rq)"
  "state_io_rel (on_world P) (handle_update_permission X B rq)" "state_io_rel (on_world P) (handle_delete_permission X rq)"
  "state_io_rel (on_world P) (handle_incident_create X st B rq)" "state_io_rel (on_world P) (handle_incident_list X rq)"
  "state_io_rel (on_world P) (handle_health st')"
  unfolding handler_defs Let_def
  by (intro io_intros io_preorder_on_world preorder with_id with_body listing service_rules)+

end

interpretation integrity: service_relation X "on_db (keeps db_ok)"
  by unfold_locales (intro io_intros io_preorder_on_db io_preorder_keeps)+

interpretation caching: service_relation X quiet
  by unfold_locales (intro io_intros io_preorder_quiet)+

section \<open>The global chain\<close>

text \<open>
  Each global middleware but the last either refuses the request or hands it on without
  touching the tables, the token cache, the identity or the body.
\<close>

definition silent :: "('r, 'l) srv \<Rightarrow> ('r, 'l) srv \<Rightarrow> bool" where
  "silent s s' \<longleftrightarrow> audit_queue s' = audit_queue s \<and> request_log s' = request_log s"

declare silent_def [simp]

definition calm :: "('r, 'l) srv \<Rightarrow> ('r, 'l) srv \<Rightarrow> bool" where
  "calm s s' \<longleftrightarrow> quiet (world s) (world s') \<and> db (world s') = db (world s) \<and> ctx_user s' = ctx_user s \<and>
     out_body s' = out_body s \<and> silent s s'"

definition filters :: "(('r, 'l) prog \<Rightarrow> ('r, 'l) prog) \<Rightarrow> bool" where
  "filters m \<longleftrightarrow> (\<forall>s. (\<exists>s'. stops m s s' \<and> refused s s' \<and> quiet (world s) (world s') \<and>
        silent s s') \<or>
     (\<exists>s'. passes m s s' \<and> calm s s'))"

lemma calm_trans: "calm s s1 \<Longrightarrow> calm s1 s2 \<Longrightarrow> calm s s2"
  by (auto simp: calm_def quiet_def)

lemma refused_trans: "calm s s1 \<Longrightarrow> refused s1 s2 \<Longrightarrow> refused s s2"
  by (auto simp: calm_def refused_def)

lemma filters_comp:
  assumes "filters m" and "filters n"
  shows "filters (\<lambda>h. m (n h))"
  unfolding filters_def
proof
  fix s
  from assms(1) consider (stop) s' where "stops m s s'" "refused s s'" "quiet (world s) (world s')" "silent s s'"
    | (pass) s1 where "passes m s s1" "calm s s1"
    unfolding filters_def by blast
  then show "(\<exists>s'. stops (\<lambda>h. m (n h)) s s' \<and> refused s s' \<and> quiet (world s) (world s') \<and> silent s s') \<or>
      (\<exists>s'. passes (\<lambda>h. m (n h)) s s' \<and> calm s s')"
  proof cases
    case stop
    then have "stops (\<lambda>h. m (n h)) s s'" by (simp add: stops_def)
    with stop show ?thesis by blast
  next
    case pass
    from assms(2) consider (stop) s2 where "stops n s1 s2" "refused s1 s2" "quiet (world s1) (world s2)" "silent s1 s2"
      | (pass) s2 where "passes n s1 s2" "calm s1 s2"
      unfolding filters_def by blast
    then show ?thesis
    proof cases
      case stop
      with pass have "stops (\<lambda>h. m (n h)) s s2" by (simp add: stops_def passes_def)
      moreover have "refused s s2" using pass(2) stop(2) by (rule refused_trans)
      moreover have "quiet (world s) (world s2)" "silent s s2"
        using pass(2) stop by (auto simp: calm_def quiet_def)
      ultimately show ?thesis by blast
    next
      case pass2: pass
      with pass have "passes (\<lambda>h. m (n h)) s s2" by (simp add: passes_def)
      with calm_trans [OF pass(2) pass2(2)] show ?thesis by blast
    qed
  qed
qed

lemma filters_pass: "(\<And>s. \<exists>s'. passes m s s' \<and> calm s s') \<Longrightarrow> filters m"
  by (simp add: filters_def)

lemma filters_headers: "filters security_headers" "filters (gzip rq)"
proof (rule_tac [!] filters_pass)
  fix s :: "('r, 'l) srv"
  show "\<exists>s'. passes security_headers s s' \<and> calm s s'"
    by (simp add: passes_def security_headers_def calm_def)
      (rule exI [of _ "snd (run_state (security_headers (ret ())) s)"], simp add: security_headers_def)
  show "\<exists>s'. passes (gzip rq) s s' \<and> calm s s'"
    by (rule exI [of _ "snd (run_state (gzip rq (ret ())) s)"]) (simp add: passes_def gzip_def wrap_writer_def calm_def)
qed

lemma filters_cors: "filters (cors rq)"
  unfolding filters_def
proof
  fix s :: "('r, 'l) srv"
  define s' where "s' = snd (run_state (cors rq (ret ())) s)"
  have "if rq_method rq = ''OPTIONS'' then stops (cors rq) s s' else passes (cors rq) s s'"
    by (simp add: stops_def passes_def s'_def cors_def)
  moreover have "world s' = world s" "ctx_user s' = ctx_user s" "out_body s' = out_body s"
      "silent s s'" "rq_method rq = ''OPTIONS'' \<longrightarrow> out_status s' = 204"
    by (simp_all add: s'_def cors_def)
  ultimately show "(\<exists>s'. stops (cors rq) s s' \<and> refused s s' \<and> quiet (world s) (world s') \<and> silent s s') \<or>
      (\<exists>s'. passes (cors rq) s s' \<and> calm s s')"
    by (cases "rq_method rq = ''OPTIONS''") (auto simp: refused_def calm_def)
qed

lemma filters_throttle:
  fixes L :: "('l, 'q) rate_ops"
  shows "filters (throttle L burst r rq)"
  unfolding filters_def
proof
  fix s :: "('r, 'l) srv"
  obtain l s1 where 1: "run_state (get_limiter L (key_for_request rq) burst r) s = (l, s1)" by fastforce
  then have c1: "calm s s1" by (auto simp: get_limiter_def calm_def Let_def)
  define s2 where "s2 = snd (run_state (put_limiter (key_for_request rq) (snd (rl_allow L (clock (world s1)) l))) s1)"
  have c2: "calm s s2" using c1 by (simp add: s2_def put_limiter_def calm_def)
  have run: "run_state (throttle L burst r rq h) s =
      (if fst (rl_allow L (clock (world s1)) l) then run_state h s2
       else ((), s2\<lparr>out_status := 429, out_body := Some (err_body ''server busy, please retry'')\<rparr>))" for h
    using 1 by (simp add: throttle_def s2_def put_limiter_def split: prod.splits)
  have r: "refused s (s2\<lparr>out_status := 429, out_body := Some (err_body ''server busy, please retry'')\<rparr>)"
    using c2 by (auto simp: refused_def calm_def)
  show "(\<exists>s'. stops (throttle L burst r rq) s s' \<and> refused s s' \<and> quiet (world s) (world s') \<and> silent s s') \<or>
      (\<exists>s'. passes (throttle L burst r rq) s s' \<and> calm s s')"
  proof (cases "fst (rl_allow L (clock (world s1)) l)")
    case True
    then have "passes (throttle L burst r rq) s s2" using run by (simp add: passes_def)
    with c2 show ?thesis by blast
  next
    case False
    then have "stops (throttle L burst r rq) s (s2\<lparr>out_status := 429, out_body := Some (err_body ''server busy, please retry'')\<rparr>)"
      using run by (simp add: stops_def)
    with r c2 show ?thesis by (intro disjI1 exI conjI) (assumption, assumption, simp_all add: calm_def)
  qed
qed

lemma redis_reads_calm:
  assumes "run_state (redis_get X k) w = (r, w1) \<or> run_state (redis_incr_expire X k d) w = (r', w1)"
  shows "quiet w w1" and "db w1 = db w"
proof -
  show "quiet w w1" using assms by (auto dest: state_io_relD [OF io_redis_quiet(1)] state_io_relD [OF io_redis_quiet(8)])
  have "io_preorder (same (\<lambda>d :: db. d))" by simp
  from state_io_relD [OF io_redis_commands_db(1) [OF this]] state_io_relD [OF io_redis_commands_db(8) [OF this]] assms
  show "db w1 = db w" by (auto simp: on_db_def same_def)
qed

lemma filters_rate_limiter: "filters (rate_limiter X maxReqs win rq)"
  unfolding filters_def
proof
  fix s :: "('a, 'b) srv"
  let ?e = "err_body ''rate limiter error''" and ?t = "err_body ''too many requests''"
  obtain v w1 where 1: "run_state (redis_get X (rate_key rq)) (world s) = (v, w1)" by fastforce
  note q1 = redis_reads_calm [OF disjI1 [OF 1]]
  obtain r w2 where 2: "run_state (redis_incr_expire X (rate_key rq) (dur_mul win nsSecond)) w1 = (r, w2)" by fastforce
  note q2 = redis_reads_calm [OF disjI2 [OF 2]]
  let ?m = "rate_limiter X maxReqs win rq"
  let ?goal = "(\<exists>s'. stops ?m s s' \<and> refused s s' \<and> quiet (world s) (world s') \<and> silent s s') \<or>
      (\<exists>s'. passes ?m s s' \<and> calm s s')"
  have stop: ?goal if "stops ?m s (s\<lparr>world := w, out_status := n, out_body := Some (err_body b)\<rparr>)"
      "quiet (world s) w" "db w = db (world s)" "n = 429 \<or> n = 500" for w n b
    using that by (intro disjI1 exI conjI) (assumption, auto)
  have pass: ?goal if "passes ?m s (s\<lparr>world := w\<rparr>)" "quiet (world s) w" "db w = db (world s)" for w
    using that by (intro disjI2 exI conjI) (assumption, simp add: calm_def)
  have q: "quiet (world s) w2" "db w2 = db (world s)" using q1 q2 by (auto simp: quiet_def)
  show ?goal
  proof (cases "(\<exists>e. v = Inl e) \<or> (\<exists>x. v = Inr (Some (RStr x)))")
    case True
    then have "stops ?m s (s\<lparr>world := w1, out_status := 500, out_body := Some ?e\<rparr>)"
      using 1 by (auto simp: stops_def rate_limiter_def)
    then show ?thesis using stop q1 by blast
  next
    case False
    define val where "val = (case v of Inr (Some (RInt n)) \<Rightarrow> n | _ \<Rightarrow> 0)"
    have run: "run_state (?m h) s = (if maxReqs \<le> val
        then ((), s\<lparr>world := w1, out_status := 429, out_body := Some ?t\<rparr>)
        else case r of Inl e \<Rightarrow> ((), s\<lparr>world := w2, out_status := 500, out_body := Some ?e\<rparr>)
          | Inr u \<Rightarrow> run_state h (s\<lparr>world := w2\<rparr>))" for h
      using False 1 2 by (cases v) (auto simp: rate_limiter_def val_def split: option.split redis_value.split sum.split)
    show ?thesis
    proof (cases "maxReqs \<le> val")
      case True
      then have "stops ?m s (s\<lparr>world := w1, out_status := 429, out_body := Some ?t\<rparr>)"
        using run by (simp add: stops_def)
      then show ?thesis using stop q1 by blast
    next
      case passed: False
      show ?thesis
      proof (cases r)
        case (Inl e)
        then have "stops ?m s (s\<lparr>world := w2, out_status := 500, out_body := Some ?e\<rparr>)"
          using run passed by (simp add: stops_def)
        then show ?thesis using stop q by blast
      next
        case (Inr u)
        then have "passes ?m s (s\<lparr>world := w2\<rparr>)" using run passed by (simp add: passes_def)
        then show ?thesis using pass q by blast
      qed
    qed
  qed
qed

definition limits ::
  "'r ext \<Rightarrow> config \<Rightarrow> ('l, 'q) env \<Rightarrow> request \<Rightarrow> ('r, 'l) prog \<Rightarrow> ('r, 'l) prog" where
  "limits X cfg E rq h = security_headers (cors rq (gzip rq
     (throttle (limiters E) (ThrottleBurst cfg) (to_limit E (ThrottleRate cfg)) rq
       (rate_limiter X (RateLimitRequests cfg) (RateLimitDurationSec cfg) rq h))))"

lemma global_chain_limits: "global_chain X cfg E rq h = limits X cfg E rq (activity_logger rq h)"
  by (simp add: global_chain_def limits_def)

lemma filters_limits: "filters (limits X cfg E rq)"
  unfolding limits_def
  by (rule filters_comp [OF filters_headers(1) filters_comp [OF filters_cors filters_comp [OF filters_headers(2)
    filters_comp [OF filters_throttle filters_rate_limiter]]]])

text \<open>What the activity logger adds when a request that began at \<open>t0\<close> has been handled.\<close>

definition audited :: "request \<Rightarrow> time \<Rightarrow> ('r, 'l) srv \<Rightarrow> ('r, 'l) srv" where
  "audited rq t0 s =
     (let s1 = s\<lparr>request_log := request_log s @ [\<lparr>ln_method = rq_method rq, ln_path = rq_path rq,
            ln_status = out_status s, ln_latency = clock (world s) - t0, ln_ip = rq_ip rq, ln_agent = UserAgent rq\<rparr>]\<rparr>
      in snd (run_state (submit_audit \<lparr>at_user = ctx_user s, at_action = rq_method rq @ '' '' @ rq_path rq,
            at_path = rq_path rq, at_ip = rq_ip rq, at_agent = UserAgent rq,
            at_device = GetHeader rq ''X-Device-ID''\<rparr>) s1))"

lemma run_activity_logger:
  "run_state (activity_logger rq h) s = ((), audited rq (clock (world s)) (snd (run_state h s)))"
  by (simp add: audited_def activity_logger_def submit_audit_def log_request_def Let_def split: prod.splits)

lemma audited_fields [simp]:
  "world (audited rq t0 s) = world s" "out_status (audited rq t0 s) = out_status s" "out_body (audited rq t0 s) = out_body s"
  "ctx_user (audited rq t0 s) = ctx_user s" "out_headers (audited rq t0 s) = out_headers s"
  "out_gzip (audited rq t0 s) = out_gzip s"
  "request_log (audited rq t0 s) = request_log s @ [\<lparr>ln_method = rq_method rq, ln_path = rq_path rq,
     ln_status = out_status s, ln_latency = clock (world s) - t0, ln_ip = rq_ip rq, ln_agent = UserAgent rq\<rparr>]"
  by (simp_all add: audited_def submit_audit_def Let_def)

text \<open>What a run of the chain in front of a handler amounts to.\<close>

lemma global_chain_cases:
  assumes "run_state (global_chain X cfg E rq h) s = ((), s')"
  obtains (refused) "refused s s'" "quiet (world s) (world s')" "silent s s'"
  | (handled) s1 where "calm s s1" "s' = audited rq (clock (world s1)) (snd (run_state h s1))"
proof -
  from filters_limits [of X cfg E rq]
  consider (stop) s1 where "stops (limits X cfg E rq) s s1" "refused s s1" "quiet (world s) (world s1)" "silent s s1"
    | (pass) s1 where "passes (limits X cfg E rq) s s1" "calm s s1"
    unfolding filters_def by blast
  then show thesis
  proof cases
    case stop
    with assms have "s' = s1" by (simp add: global_chain_limits stops_def)
    with stop show thesis using refused by simp
  next
    case pass
    with assms have "s' = audited rq (clock (world s1)) (snd (run_state h s1))"
      by (simp add: global_chain_limits passes_def run_activity_logger)
    with pass show thesis using handled by blast
  qed
qed

section \<open>The guard of the administration\<close>

lemma in_group_patterns:
  "map pattern_of (in_group pre mw rts) = map (\<lambda>(m, p). (m, pre @ p)) (map pattern_of rts)"
  by (induction rts) (auto simp: in_group_def pattern_of_def)

lemma engine_patterns: "map pattern_of (engine_routes X cfg E rq) = map pattern_of (engine_routes X cfg E rq')"
  unfolding engine_routes_def auth_routes_def admin_routes_def incident_routes_def list.map map_append in_group_patterns
  by (simp only: pattern_of_def fst_conv snd_conv)

lemma in_groupE:
  assumes "r \<in> set (in_group pre mw rts)"
  obtains q k where "fst (snd r) = pre @ q" "snd (snd r) = mw k"
  using assms by (auto simp: in_group_def)

lemma engine_routes_admin:
  assumes "r \<in> set (engine_routes X cfg E rq)" and "has_prefix (fst (snd r)) ''/api/v1/admin''"
  shows "\<exists>k. snd (snd r) = admin_guard X rq k"
proof -
  have no: "\<not> has_prefix (''/api/v1/auth'' @ q) ''/api/v1/admin''" "\<not> has_prefix (''/api/v1/incidents'' @ q) ''/api/v1/admin''"
    "\<not> has_prefix ''/health'' ''/api/v1/admin''" for q
    by (simp_all add: has_prefix_def)
  from assms(1) consider "fst (snd r) = ''/health''" | "r \<in> set (auth_routes X cfg E rq)" | "r \<in> set (admin_routes X E rq)"
    | "r \<in> set (incident_routes X E rq)"
    by (auto simp: engine_routes_def websocket_routes_def)
  then show ?thesis
    using assms(2) no by cases
      (auto simp: auth_routes_def admin_routes_def incident_routes_def elim!: in_groupE)
qed

lemma admin_guard_outcome:
  assumes "cache_sound X lat (world s)" and "0 \<le> tc_ttl (tok_cache (world s))"
    and "run_state (admin_guard X rq h) s = ((), s')"
  shows "refused s s' \<or> (\<exists>c tok tok' t0. bearer rq tok \<and> hash_token X tok' = hash_token X tok \<and>
     validate_at X (public_key (world s)) t0 tok' = Inr c \<and>
     has_permission (ac_uid c) ''manage'' ''admin'' (db (world s)))"
  using auth_required_outcome [OF assms(1,2), of rq]
proof (elim disjE exE conjE)
  fix s1
  assume "stops (auth_required X rq) s s1" and "refused s s1"
  with assms(3) show ?thesis by (simp add: admin_guard_def stops_def)
next
  fix s1 c tok tok' t0
  assume p: "passes (auth_required X rq) s s1" and c: "ctx_user s1 = Some (ac_uid c)" and d: "db (world s1) = db (world s)"
    and v: "bearer rq tok" "hash_token X tok' = hash_token X tok" "validate_at X (public_key (world s)) t0 tok' = Inr c"
    and b: "out_body s1 = out_body s"
  have run: "run_state (require_permission ''manage'' ''admin'' h) s1 = ((), s')"
    using assms(3) p by (simp add: admin_guard_def passes_def)
  from require_permission_outcome [of "''manage''" "''admin''" s1] show ?thesis
  proof (elim disjE exE conjE)
    fix s2
    assume "stops (require_permission ''manage'' ''admin'') s1 s2" and r: "refused s1 s2"
    with run have "s' = s2" by (simp add: stops_def)
    with r d b show ?thesis by (simp add: refused_def)
  next
    fix s2 uid
    assume "ctx_user s1 = Some uid" and "has_permission uid ''manage'' ''admin'' (db (world s1))"
    with c d v show ?thesis by auto
  qed
qed

section \<open>The invariant of the process\<close>

definition tame :: "'r world \<Rightarrow> bool" where
  "tame w \<longleftrightarrow> cache_wf (tok_cache w) \<and> 0 \<le> tc_ttl (tok_cache w)"

text \<open>
  The tables are consistent, the cache is well formed and holds only what was validated, the
  queue of the audit log is bounded.
\<close>

definition server_inv :: "'r ext \<Rightarrow> duration \<Rightarrow> ('r, 'l) srv \<Rightarrow> bool" where
  "server_inv X lat s \<longleftrightarrow> db_ok (db (world s)) \<and> cache_sound X lat (world s) \<and> tame (world s) \<and>
     length (audit_queue s) \<le> audit_buffer"

lemma quiet_tame: "state_io_rel quiet m \<Longrightarrow> state_io_rel (keeps tame) m"
  by (auto simp: state_io_rel_def quiet_def keeps_def tame_def)

lemma cache_calls_tame:
  assumes "services X view"
  shows "state_io_rel (keeps tame) (cache_lookup k)" "state_io_rel (keeps tame) (cache_store X k c)"
proof -
  show "state_io_rel (keeps tame) (cache_lookup k)"
    by (simp add: state_io_rel_def keeps_def tame_def cache_lookup_def cache_get_def cache_finish_wf
        split: prod.split) (metis cache_finish_wf cache_finish_config(1) snd_conv)
  have "cache_wf (cache_set (go_range X (cache_keys t)) n k c t)" if "cache_wf t" for t n
    by (rule cache_set_wf [OF that services.evict_order_ok [OF assms]])
  then show "state_io_rel (keeps tame) (cache_store X k c)"
    by (simp add: state_io_rel_def keeps_def tame_def cache_store_def)
qed

lemma cache_calls_db:
  "state_io_rel (on_db (same (\<lambda>d. d))) (cache_lookup k)" "state_io_rel (on_db (same (\<lambda>d. d))) (cache_store X k c)"
  by (auto simp: state_io_rel_def on_db_def same_def cache_lookup_def cache_store_def split: prod.splits)

lemma auth_required_frame:
  assumes "services X view" and "run_state (auth_required X rq (ret ())) s = ((), s')" and "tame (world s)"
  shows "tame (world s') \<and> audit_queue s' = audit_queue s"
proof -
  have "state_io_rel (on_world (keeps tame)) (auth_required X rq (ret ()))"
    unfolding auth_required_def Let_def
    by (intro io_intros cache_calls_tame [OF assms(1)] quiet_tame io_preorder_on_world io_preorder_keeps io_preorder_quiet)
  from state_io_relD [OF this assms(2)] assms(3) show ?thesis by (simp add: on_world_def keeps_def)
qed

lemma require_permission_frame:
  assumes "run_state (require_permission a r (ret ())) s = ((), s')"
  shows "audit_queue s' = audit_queue s"
proof -
  have "state_io_rel (on_world quiet) (require_permission a r (ret ()))"
    unfolding require_permission_def by (intro io_intros io_preorder_on_world io_preorder_quiet)
  from state_io_relD [OF this assms] show ?thesis by (simp add: on_world_def)
qed

lemma server_inv_quiet:
  fixes s s' :: "('r, 'l) srv"
  shows "server_inv X lat s \<Longrightarrow> quiet (world s) (world s') \<Longrightarrow> db (world s') = db (world s) \<Longrightarrow>
   audit_queue s' = audit_queue s \<Longrightarrow> server_inv X lat s'"
  by (auto simp: server_inv_def tame_def quiet_def intro: cache_sound_quiet)

lemma handler_keeps_inv:
  assumes "state_io_rel (on_world quiet) h" and "state_io_rel (on_world (on_db (keeps db_ok))) h"
  shows "state_io_rel (keeps (server_inv X lat)) h"
proof (rule state_io_relI)
  fix s r s'
  assume "run_state h s = (r, s')"
  with assms have "on_world quiet s s'" "on_world (on_db (keeps db_ok)) s s'" by (auto dest: state_io_relD)
  then show "keeps (server_inv X lat) s s'"
    by (auto simp: on_world_def keeps_def on_db_def server_inv_def tame_def quiet_def intro: cache_sound_quiet)
qed

lemma auth_required_keeps_inv:
  assumes "services X view" and h: "state_io_rel (keeps (server_inv X lat)) h"
  shows "state_io_rel (keeps (server_inv X lat)) (auth_required X rq h)"
proof (rule state_io_relI, unfold keeps_def, rule impI)
  fix s r s'
  assume run: "run_state (auth_required X rq h) s = (r, s')" and i: "server_inv X lat s"
  then have cs: "cache_sound X lat (world s)" "0 \<le> tc_ttl (tok_cache (world s))" and t: "tame (world s)"
    by (auto simp: server_inv_def tame_def)
  from auth_required_outcome [OF cs, of rq] show "server_inv X lat s'"
  proof (elim disjE exE conjE)
    fix s1
    assume st: "stops (auth_required X rq) s s1" and c: "cache_sound X lat (world s1)" and r: "refused s s1"
    from st run have "s' = s1" by (simp add: stops_def)
    moreover from st have "run_state (auth_required X rq (ret ())) s = ((), s1)" by (simp add: stops_def)
    from auth_required_frame [OF assms(1) this t] c r i have "server_inv X lat s1"
      by (simp add: server_inv_def refused_def)
    ultimately show ?thesis by simp
  next
    fix s1
    assume p: "passes (auth_required X rq) s s1" and c: "cache_sound X lat (world s1)" and d: "db (world s1) = db (world s)"
    from p have "run_state (auth_required X rq (ret ())) s = ((), s1)" by (simp add: passes_def)
    from auth_required_frame [OF assms(1) this t] c d i have "server_inv X lat s1" by (simp add: server_inv_def)
    moreover from p run have "run_state h s1 = (r, s')" by (simp add: passes_def)
    with h have "keeps (server_inv X lat) s1 s'" by (rule state_io_relD)
    ultimately show ?thesis by (simp add: keeps_def)
  qed
qed

lemma require_permission_keeps_inv:
  assumes h: "state_io_rel (keeps (server_inv X lat)) h"
  shows "state_io_rel (keeps (server_inv X lat)) (require_permission a r h)"
proof (rule state_io_relI, unfold keeps_def, rule impI)
  fix s u s'
  assume run: "run_state (require_permission a r h) s = (u, s')" and i: "server_inv X lat s"
  from require_permission_outcome [of a r s] show "server_inv X lat s'"
  proof (elim disjE exE conjE)
    fix s1
    assume st: "stops (require_permission a r) s s1" and "refused s s1" and q: "quiet (world s) (world s1)"
    from st have "run_state (require_permission a r (ret ())) s = ((), s1)" by (simp add: stops_def)
    note f = require_permission_frame [OF this]
    from st run have "s' = s1" by (simp add: stops_def)
    with server_inv_quiet [OF i q _ f] \<open>refused s s1\<close> show ?thesis by (simp add: refused_def)
  next
    fix s1
    assume p: "passes (require_permission a r) s s1" and d: "db (world s1) = db (world s)" and q: "quiet (world s) (world s1)"
    from p have "run_state (require_permission a r (ret ())) s = ((), s1)" by (simp add: passes_def)
    note f = require_permission_frame [OF this]
    from p run have "run_state h s1 = (u, s')" by (simp add: passes_def)
    with h have "keeps (server_inv X lat) s1 s'" by (rule state_io_relD)
    with server_inv_quiet [OF i q d f] show ?thesis by (simp add: keeps_def)
  qed
qed

lemma server_inv_audited: "server_inv X lat s \<Longrightarrow> server_inv X lat (audited rq t0 s)"
  by (auto simp: server_inv_def audited_def submit_audit_def Let_def)

lemma global_chain_keeps_inv:
  assumes "state_io_rel (keeps (server_inv X lat)) h"
  shows "state_io_rel (keeps (server_inv X lat)) (global_chain X cfg E rq h)"
proof (rule state_io_relI, unfold keeps_def, rule impI)
  fix s s' and r :: unit
  assume run: "run_state (global_chain X cfg E rq h) s = (r, s')" and i: "server_inv X lat s"
  have "run_state (global_chain X cfg E rq h) s = ((), s')" using run by simp
  then show "server_inv X lat s'"
  proof (cases rule: global_chain_cases)
    case refused
    then show ?thesis using server_inv_quiet [OF i] by (simp add: refused_def)
  next
    case (handled s1)
    then have "server_inv X lat s1" using server_inv_quiet [OF i] by (simp add: calm_def)
    then have "server_inv X lat (snd (run_state h s1))" by (rule io_keepsD [OF assms])
    then show ?thesis unfolding handled(2) by (rule server_inv_audited)
  qed
qed

lemma response_keeps_inv: "state_io_rel (keeps (server_inv X lat)) (respond_status n)"
  by (simp add: state_io_rel_def keeps_def server_inv_def)

definition all_handlers :: "'r ext \<Rightarrow> config \<Rightarrow> ('l, 'q) env \<Rightarrow> request \<Rightarrow> ('r, 'l) prog set" where
  "all_handlers X cfg E rq = {handle_register X cfg (decoding E) rq, handle_login X cfg (decoding E) rq,
     handle_refresh X cfg (decoding E) rq, handle_logout X (decoding E) rq,
     handle_list_users X rq, handle_get_user X rq, handle_create_user X (decoding E) rq,
     handle_assign_roles X (decoding E) rq, handle_list_roles X (collation E) rq,
     handle_create_role X (decoding E) rq, handle_update_role X (decoding E) rq, handle_delete_role X rq,
     handle_assign_permissions X (decoding E) rq, handle_list_permissions X (collation E) rq,
     handle_create_permission X (decoding E) rq, handle_update_permission X (decoding E) rq,
     handle_delete_permission X rq, handle_incident_create X (incident_status E) (decoding E) rq,
     handle_incident_list X rq, handle_health (stats E)}"

lemma in_group_rel:
  assumes "\<And>h. state_io_rel Q h \<Longrightarrow> state_io_rel Q (mw h)" and "\<forall>r \<in> set rts. state_io_rel Q (snd (snd r))"
  shows "\<forall>r \<in> set (in_group pre mw rts). state_io_rel Q (snd (snd r))"
  using assms by (auto simp: in_group_def)

text \<open>What the handlers keep and the two guards let through is kept by every route.\<close>

lemma engine_routes_rel:
  assumes handler: "\<And>h. h \<in> all_handlers X cfg E rq \<Longrightarrow> state_io_rel Q h"
    and au: "\<And>h. state_io_rel Q h \<Longrightarrow> state_io_rel Q (auth_required X rq h)"
    and rp: "\<And>a r h. state_io_rel Q h \<Longrightarrow> state_io_rel Q (require_permission a r h)"
  shows "\<forall>r \<in> set (engine_routes X cfg E rq). state_io_rel Q (snd (snd r))"
proof -
  have 1: "\<forall>r \<in> set (auth_routes X cfg E rq). state_io_rel Q (snd (snd r))"
    unfolding auth_routes_def
    by (rule in_group_rel, assumption, unfold list.set ball_simps fst_conv snd_conv)
      (intro conjI au handler TrueI; simp add: all_handlers_def)
  have 2: "\<forall>r \<in> set (admin_routes X E rq). state_io_rel Q (snd (snd r))"
    unfolding admin_routes_def admin_guard_def
    by (rule in_group_rel, rule au, erule rp, unfold list.set ball_simps fst_conv snd_conv)
      (intro conjI handler TrueI; simp add: all_handlers_def)
  have 3: "\<forall>r \<in> set (incident_routes X E rq). state_io_rel Q (snd (snd r))"
    unfolding incident_routes_def
    by (rule in_group_rel, erule au, unfold list.set ball_simps fst_conv snd_conv)
      (intro conjI rp handler TrueI; simp add: all_handlers_def)
  have "state_io_rel Q (handle_health (stats E))" by (rule handler) (simp add: all_handlers_def)
  with 1 2 3 show ?thesis by (auto simp: engine_routes_def websocket_routes_def)
qed

lemma handlers_inv: "h \<in> all_handlers X cfg E rq \<Longrightarrow> state_io_rel (keeps (server_inv X lat)) h"
  by (rule handler_keeps_inv) (auto simp: all_handlers_def intro: caching.handlers integrity.handlers)

lemma engine_routes_inv:
  "services X view \<Longrightarrow> \<forall>r \<in> set (engine_routes X cfg E rq). state_io_rel (keeps (server_inv X lat)) (snd (snd r))"
  by (rule engine_routes_rel) (erule handlers_inv, erule (1) auth_required_keeps_inv, erule require_permission_keeps_inv)

lemma engine_length: "length (engine_routes X cfg E rq) = 20"
  by (simp add: engine_routes_def auth_routes_def admin_routes_def incident_routes_def websocket_routes_def in_group_def)

text \<open>The matcher returns an index into the table it was given.\<close>

definition matcher_ok :: "('l, 'q) env \<Rightarrow> bool" where
  "matcher_ok E \<longleftrightarrow> (\<forall>pats m p i a. gin_match E pats m p = Matched i a \<longrightarrow> i < length pats)"

lemma fresh_context_inv: "server_inv X lat s \<Longrightarrow> server_inv X lat (snd (run_state fresh_context s))"
  by (simp add: fresh_context_def server_inv_def)

lemma serve_keeps_inv:
  assumes "services X view" and "matcher_ok E" and "server_inv X lat s"
  shows "server_inv X lat (snd (run_state (serve X cfg E rq) s))"
proof -
  define s0 where "s0 = snd (run_state fresh_context s)"
  have i: "server_inv X lat s0" unfolding s0_def using assms(3) by (rule fresh_context_inv)
  have f: "run_state fresh_context s = ((), s0)" by (simp add: s0_def fresh_context_def)
  show ?thesis
  proof (cases "gin_match E (map pattern_of (engine_routes X cfg E rq)) (rq_method rq) (rq_path rq)")
    case NoRoute
    then show ?thesis using f io_keepsD [OF global_chain_keeps_inv [OF response_keeps_inv] i]
      by (simp add: serve_def)
  next
    case OtherSlash
    then show ?thesis using f io_keepsD [OF response_keeps_inv i] by (simp add: serve_def)
  next
    case (Matched n a)
    let ?rq = "rq\<lparr>rq_param := a\<rparr>"
    have "n < length (engine_routes X cfg E ?rq)"
      using assms(2) Matched unfolding matcher_ok_def by (metis length_map engine_length)
    then have "state_io_rel (keeps (server_inv X lat)) (snd (snd (engine_routes X cfg E ?rq ! n)))"
      using engine_routes_inv [OF assms(1)] nth_mem by blast
    from io_keepsD [OF global_chain_keeps_inv [OF this] i] show ?thesis
      using f Matched by (simp add: serve_def Let_def)
  qed
qed

section \<open>Steps of the process\<close>

text \<open>
  One step: a request is served from its first to its last handler; an audit worker takes a
  task from the queue and runs it; the cleaning goroutines of the token cache and of the
  throttle make a pass; time goes by; the services outside get a new schedule of answers,
  none of which takes longer than \<open>lat\<close>.
\<close>

inductive server_step ::
  "'r ext \<Rightarrow> config \<Rightarrow> ('l, 'q) env \<Rightarrow> duration \<Rightarrow> ('r, 'l) srv \<Rightarrow> ('r, 'l) srv \<Rightarrow> bool"
  for X :: "'r ext" and cfg :: config and E :: "('l, 'q) env" and lat :: duration where
  request: "server_step X cfg E lat s (snd (run_state (serve X cfg E rq) s))"
| audit: "audit_queue s = t # ts \<Longrightarrow>
     server_step X cfg E lat s (snd (run_state (in_world (run_audit_task X t)) (s\<lparr>audit_queue := ts\<rparr>)))"
| sweep: "server_step X cfg E lat s
     (s\<lparr>world := (world s)\<lparr>tok_cache := cache_sweep (clock (world s)) (tok_cache (world s))\<rparr>\<rparr>)"
| cleanup: "server_step X cfg E lat s (s\<lparr>clients := cleanup_idle (clock (world s)) (clients s)\<rparr>)"
| tick: "0 \<le> dt \<Longrightarrow> server_step X cfg E lat s (s\<lparr>world := (world s)\<lparr>clock := clock (world s) + dt\<rparr>\<rparr>)"
| weather: "\<forall>(oc, dt) \<in> set sc. int dt \<le> lat \<Longrightarrow>
     server_step X cfg E lat s (s\<lparr>world := (world s)\<lparr>sched := sc\<rparr>\<rparr>)"

inductive server_reachable ::
  "'r ext \<Rightarrow> config \<Rightarrow> ('l, 'q) env \<Rightarrow> duration \<Rightarrow> ('r, 'l) srv \<Rightarrow> ('r, 'l) srv \<Rightarrow> bool"
  for X :: "'r ext" and cfg :: config and E :: "('l, 'q) env" and lat :: duration and s0 :: "('r, 'l) srv" where
  start: "server_reachable X cfg E lat s0 s0"
| step: "server_reachable X cfg E lat s0 s \<Longrightarrow> server_step X cfg E lat s s' \<Longrightarrow> server_reachable X cfg E lat s0 s'"

lemma audit_task_rels:
  "state_io_rel (on_db (keeps db_ok)) (run_audit_task X t)" "state_io_rel quiet (run_audit_task X t)"
  unfolding run_audit_task_def by (intro io_intros db_keeps io_preorder_on_db io_preorder_keeps io_preorder_quiet)+

lemma cache_sound_tick: "cache_sound X lat w \<Longrightarrow> 0 \<le> dt \<Longrightarrow> cache_sound X lat (w\<lparr>clock := clock w + dt\<rparr>)"
  by (rule cache_sound_quiet) (auto simp: quiet_def)

lemma cache_sound_weather:
  "cache_sound X lat w \<Longrightarrow> \<forall>(oc, dt) \<in> set sc. int dt \<le> lat \<Longrightarrow> cache_sound X lat (w\<lparr>sched := sc\<rparr>)"
  by (auto simp: cache_sound_def cached_validation_def)

lemma server_step_inv:
  assumes "services X view" and "matcher_ok E"
  shows "server_step X cfg E lat s s' \<Longrightarrow> server_inv X lat s \<Longrightarrow> server_inv X lat s'"
proof (induction rule: server_step.induct)
  case (request s rq)
  then show ?case by (rule serve_keeps_inv [OF assms])
next
  case (audit s t ts)
  then have i: "server_inv X lat (s\<lparr>audit_queue := ts\<rparr>)" by (simp add: server_inv_def)
  have "state_io_rel (keeps (server_inv X lat)) (in_world (run_audit_task X t))"
    by (rule handler_keeps_inv) (intro io_in_world audit_task_rels)+
  from io_keepsD [OF this i] show ?case .
next
  case (sweep s)
  then show ?case
    using cache_sound_sweep [of X lat "world s"] by (simp add: server_inv_def tame_def cache_sweep_wf cache_wf_distinct)
next
  case (cleanup s)
  then show ?case by (simp add: server_inv_def)
next
  case (tick dt s)
  then show ?case using cache_sound_tick [of X lat "world s" dt] by (simp add: server_inv_def tame_def)
next
  case (weather sc s)
  then show ?case using cache_sound_weather [of X lat "world s" sc] by (simp add: server_inv_def tame_def)
qed

lemma server_reachable_inv:
  assumes "services X view" and "matcher_ok E" and "server_inv X lat s0"
  shows "server_reachable X cfg E lat s0 s \<Longrightarrow> server_inv X lat s"
  by (induction rule: server_reachable.induct) (auto intro: assms(3) server_step_inv [OF assms(1,2)])

section \<open>Properties\<close>

text \<open>
  C18: whatever requests arrive in whatever order, whatever becomes of the calls to the
  database and to Redis, and however the background goroutines are scheduled between
  requests: the tables stay consistent, the token cache stays within its size and every
  identity in it comes from validating a token with that digest, and the queue of the audit
  log never exceeds its thousand places.
\<close>
theorem server_invariant:
  assumes "services X view" and "matcher_ok E"
    and "db_ok (db (world s0))" and "tok_cache (world s0) = new_token_cache ttl n" and "0 \<le> ttl"
    and "sched (world s0) = []" and "audit_queue s0 = []"
    and "server_reachable X cfg E lat s0 s" and "0 \<le> lat"
  shows "db_ok (db (world s)) \<and> cache_wf (tok_cache (world s)) \<and> length (audit_queue s) \<le> 1000 \<and>
    (\<forall>h e. cache_read h (tok_cache (world s)) = Some e \<longrightarrow> cached_validation X lat (world s) h e)"
proof -
  have "server_inv X lat s0"
    using assms(3-7,9) by (simp add: server_inv_def cache_sound_def tame_def new_token_cache_def cache_read_def
        cache_wf_def cache_keys_def)
  from server_reachable_inv [OF assms(1,2) this assms(8)] show ?thesis
    by (simp add: server_inv_def tame_def audit_buffer_def cache_sound_def)
qed

text \<open>A matcher for the witnesses: the first route whose method and pattern are the request's.\<close>

fun exact_match :: "nat \<Rightarrow> (string \<times> string) list \<Rightarrow> string \<Rightarrow> string \<Rightarrow> matching" where
  "exact_match i [] m p = NoRoute"
| "exact_match i (r # rs) m p = (if r = (m, p) then Matched i [] else exact_match (Suc i) rs m p)"

lemma exact_match_index: "exact_match i pats m p = Matched j a \<Longrightarrow> j < i + length pats"
  by (induction i pats m p rule: exact_match.induct) (auto split: if_splits)

definition demo_decoders :: decoders where
  "demo_decoders = \<lparr>dec_register = (\<lambda>_. Inl (Ext ''EOF'')), dec_login = (\<lambda>_. Inr demo_login),
     dec_refresh = (\<lambda>b. Inr b), dec_logout = (\<lambda>b. b), dec_create_user = (\<lambda>_. Inl (Ext ''EOF'')),
     dec_uuids = (\<lambda>f b. Inr None), dec_role = (\<lambda>_. Inl (Ext ''EOF'')), dec_permission = (\<lambda>_. Inl (Ext ''EOF'')),
     dec_incident = (\<lambda>_. Inl (Ext ''EOF'')), email_ok = (\<lambda>_. True)\<rparr>"

definition demo_env :: "(unit, unit) env" where
  "demo_env = \<lparr>decoding = demo_decoders, collation = (\<lambda>s. map of_char s), incident_status = ''open'',
     stats = \<lparr>AcquireCount = 0, AcquireDuration = ''0s'', IdleConns = 0, TotalConns = 0, MaxConns = 0\<rparr>,
     limiters = \<lparr>rl_new = (\<lambda>r b. ()), rl_allow = (\<lambda>t l. (True, l))\<rparr>, to_limit = (\<lambda>n. ()),
     gin_match = exact_match 0\<rparr>"

lemma demo_matcher: "matcher_ok demo_env"
  using exact_match_index [of 0] by (auto simp: matcher_ok_def demo_env_def)

theorem server_invariant_witness:
  "db_ok (db (world (snd (run_state (serve (demo_ext []) demo_config demo_env demo_request) (demo_srv (demo_world demo_db 0))))))"
proof -
  let ?s = "demo_srv (demo_world demo_db 0)"
  have "server_reachable (demo_ext []) demo_config demo_env 5 ?s
      (snd (run_state (serve (demo_ext []) demo_config demo_env demo_request) ?s))"
    by (rule server_reachable.step [OF server_reachable.start server_step.request])
  moreover have "tok_cache (world ?s) = new_token_cache (5 * nsMinute) 100000" by (simp add: demo_world_def)
  moreover have "audit_queue ?s = []" by (simp add: demo_srv_def)
  moreover have "(0::int) \<le> 5 * nsMinute" by (simp add: duration_defs)
  ultimately show ?thesis
    using server_invariant [OF demo.services_axioms demo_matcher, of ?s] by (simp add: demo_db_ok)
qed

text \<open>
  C19: no way leads around the guard of the administration. A request that is matched to a
  route under \<open>/api/v1/admin\<close> is refused, with an error message for a body and without any
  change of the tables, unless it carries a token whose digest is that of a token which was
  validated for a user whom one of their roles gives the permission \<open>manage\<close> on \<open>admin\<close>.
\<close>
theorem admin_routes_guarded:
  assumes "cache_sound X lat (world s)" and "0 \<le> tc_ttl (tok_cache (world s))" and "matcher_ok E"
    and "gin_match E (map pattern_of (engine_routes X cfg E rq)) (rq_method rq) (rq_path rq) = Matched i a"
    and "has_prefix (snd (map pattern_of (engine_routes X cfg E rq) ! i)) ''/api/v1/admin''"
    and "run_state (serve X cfg E rq) s = ((), s')"
  shows "(db (world s') = db (world s) \<and> out_status s' \<in> {204, 401, 403, 429, 500} \<and>
      (out_body s' = None \<or> (\<exists>m. out_body s' = Some (err_body m)))) \<or>
    (\<exists>c tok tok' t0. bearer rq tok \<and> hash_token X tok' = hash_token X tok \<and>
      validate_at X (public_key (world s)) t0 tok' = Inr c \<and>
      has_permission (ac_uid c) ''manage'' ''admin'' (db (world s)))"
proof -
  let ?rq = "rq\<lparr>rq_param := a\<rparr>" and ?s0 = "snd (run_state fresh_context s)"
  let ?rts = "engine_routes X cfg E ?rq"
  have i: "i < length ?rts"
    using assms(3,4) unfolding matcher_ok_def by (metis length_map engine_length)
  moreover have "map pattern_of (engine_routes X cfg E rq) = map pattern_of ?rts" by (rule engine_patterns)
  ultimately have "has_prefix (fst (snd (?rts ! i))) ''/api/v1/admin''"
    using assms(5) by (simp add: pattern_of_def)
  with engine_routes_admin [OF nth_mem [OF i]] obtain k where k: "snd (snd (?rts ! i)) = admin_guard X ?rq k" by blast
  have w0: "world ?s0 = world s" "out_body ?s0 = None" by (simp_all add: fresh_context_def)
  have "run_state (global_chain X cfg E ?rq (admin_guard X ?rq k)) ?s0 = ((), s')"
    using assms(4,6) k by (simp add: serve_def fresh_context_def Let_def)
  then show ?thesis
  proof (cases rule: global_chain_cases)
    case refused
    then show ?thesis using w0 by (simp add: refused_def)
  next
    case (handled s1)
    then have q: "quiet (world s) (world s1)" and d: "db (world s1) = db (world s)" and b: "out_body s1 = None"
      using w0 by (auto simp: calm_def)
    have cs: "cache_sound X lat (world s1)" using assms(1) q by (rule cache_sound_quiet)
    moreover have "0 \<le> tc_ttl (tok_cache (world s1))" "public_key (world s1) = public_key (world s)"
      using assms(2) q by (simp_all add: quiet_def)
    moreover have "bearer ?rq tok = bearer rq tok" for tok by (simp add: bearer_def GetHeader_def)
    moreover obtain s2 where s2: "run_state (admin_guard X ?rq k) s1 = ((), s2)"
      by (cases "run_state (admin_guard X ?rq k) s1") simp
    ultimately have "refused s1 s2 \<or> (\<exists>c tok tok' t0. bearer rq tok \<and> hash_token X tok' = hash_token X tok \<and>
        validate_at X (public_key (world s)) t0 tok' = Inr c \<and>
        has_permission (ac_uid c) ''manage'' ''admin'' (db (world s)))"
      using admin_guard_outcome [OF cs _ s2] d by simp
    then show ?thesis using d b handled(2) s2 by (simp add: refused_def)
  qed
qed

definition demo_admin_request :: request where
  "demo_admin_request = demo_request\<lparr>rq_headers := (\<lambda>_. []), rq_path := ''/api/v1/admin/users''\<rparr>"

lemma demo_admin_route:
  "gin_match demo_env (map pattern_of (engine_routes X cfg E rq)) ''GET'' ''/api/v1/admin/users'' = Matched 5 []"
  "snd (map pattern_of (engine_routes X cfg E rq) ! 5) = ''/api/v1/admin/users''"
  by (simp_all add: demo_env_def engine_routes_def auth_routes_def admin_routes_def in_group_def pattern_of_def)

theorem admin_routes_guarded_witness:
  "\<exists>s'. run_state (serve (demo_ext []) demo_config demo_env demo_admin_request) (demo_srv (demo_world demo_db 0)) = ((), s') \<and>
     db (world s') = demo_db \<and> out_status s' \<in> {204, 401, 403, 429, 500}"
proof -
  obtain s' where run: "run_state (serve (demo_ext []) demo_config demo_env demo_admin_request)
      (demo_srv (demo_world demo_db 0)) = ((), s')"
    by (cases "run_state (serve (demo_ext []) demo_config demo_env demo_admin_request) (demo_srv (demo_world demo_db 0))") simp
  have rq: "rq_method demo_admin_request = ''GET''" "rq_path demo_admin_request = ''/api/v1/admin/users''"
    "\<not> bearer demo_admin_request tok" for tok
    by (simp_all add: demo_admin_request_def demo_request_def bearer_def GetHeader_def)
  have "has_prefix (snd (map pattern_of (engine_routes (demo_ext []) demo_config demo_env demo_admin_request) ! 5)) ''/api/v1/admin''"
    by (simp add: demo_admin_route(2) has_prefix_def)
  from admin_routes_guarded [OF _ _ demo_matcher _ this run, of 0] run show ?thesis
    using demo_cache_sound by (simp add: rq demo_admin_route(1) duration_defs)
qed

text \<open>
  A task of the audit log, when a worker runs it with the database at work, adds exactly
  one row for the request if the address is one, the method with the path and the path have
  at most 100 characters, the device header has at most 255 and the user, if there is one,
  exists. Otherwise it leaves no trace of the request.
\<close>
lemma audit_task_stored:
  assumes "sched w = []" and "rand_uuid X (draws w) \<notin> a_id ` set (activity_logs (db w))"
  shows "activity_logs (db (snd (run_state (run_audit_task X t) w))) = activity_logs (db w) @
    (if inet_ok X (at_ip t) \<and> pg_length (at_action t) \<le> 100 \<and> pg_length (at_path t) \<le> 100 \<and>
        pg_length (at_device t) \<le> 255 \<and> (\<forall>u. at_user t = Some u \<longrightarrow> u \<in> u_id ` set (users (db w)))
     then [\<lparr>a_id = rand_uuid X (draws w), a_user = at_user t, a_action = at_action t, a_resource = at_path t,
            a_ip = at_ip t, a_agent = at_agent t, a_device = at_device t, a_created = pg_time (clock w)\<rparr>]
     else [])"
  using assms by (auto simp: run_audit_task_def insert_activity_def fits_def split: option.splits)

end
