(* ===== verification/WorkerPool.thy ===== *)
theory WorkerPool
  imports Prelude "HOL-Library.Multiset"
begin

text \<open>
  The worker pool, \<open>internal/shared/utils/worker.go\<close>: a channel with a buffer, a fixed number
  of goroutines that take tasks from it, \<open>Submit\<close>, which drops a task rather than wait, and
  \<open>Shutdown\<close>. What the goroutines do, step by step and in any order, is a step relation.
  Tasks return; a task that panics ends the process, which is not modelled.
\<close>

section \<open>The state\<close>

text \<open>
  A worker waits in its \<open>select\<close>, runs a task, or has returned. The pool's own state is the
  buffer and whether \<open>closed\<close> is closed; \<open>returned\<close> says that \<open>Shutdown\<close> has come back. The
  other fields record what happened: the tasks that were submitted, that went into the
  channel, that a worker took, that were dropped and that were run to their end.
\<close>

datatype 'a worker = Waiting | Running 'a | Gone

record 'a pool =
  capacity :: nat
  tasks :: "'a list"
  crew :: "'a worker list"
  closed :: bool
  returned :: bool
  submitted :: "'a list"
  accepted :: "'a list"
  started :: "'a list"
  dropped :: "'a list"
  finished :: "'a list"

definition new_worker_pool :: "nat \<Rightarrow> nat \<Rightarrow> 'a pool" where
  "new_worker_pool numWorkers bufferSize = \<lparr>capacity = bufferSize, tasks = [], crew = replicate numWorkers Waiting,
     closed = False, returned = False, submitted = [], accepted = [], started = [], dropped = [], finished = []\<rparr>"

section \<open>Steps\<close>

text \<open>
  \<open>Submit\<close> puts the task into the buffer where there is room. A worker that waits at an
  empty buffer gets the task directly; that is the only way through a channel without a
  buffer. Otherwise the task is dropped.
\<close>

definition put :: "'a \<Rightarrow> 'a pool \<Rightarrow> 'a pool" where
  "put t p = p\<lparr>tasks := tasks p @ [t], submitted := submitted p @ [t], accepted := accepted p @ [t]\<rparr>"

definition hand_over :: "nat \<Rightarrow> 'a \<Rightarrow> 'a pool \<Rightarrow> 'a pool" where
  "hand_over i t p = p\<lparr>crew := (crew p)[i := Running t], submitted := submitted p @ [t], accepted := accepted p @ [t],
     started := started p @ [t]\<rparr>"

definition drop_task :: "'a \<Rightarrow> 'a pool \<Rightarrow> 'a pool" where
  "drop_task t p = p\<lparr>submitted := submitted p @ [t], dropped := dropped p @ [t]\<rparr>"

definition take_task :: "nat \<Rightarrow> 'a pool \<Rightarrow> 'a pool" where
  "take_task i p = p\<lparr>tasks := tl (tasks p), crew := (crew p)[i := Running (hd (tasks p))],
     started := started p @ [hd (tasks p)]\<rparr>"

definition finish_task :: "nat \<Rightarrow> 'a \<Rightarrow> 'a pool \<Rightarrow> 'a pool" where
  "finish_task i t p = p\<lparr>crew := (crew p)[i := Waiting], finished := finished p @ [t]\<rparr>"

inductive submit_step :: "'a \<Rightarrow> 'a pool \<Rightarrow> 'a pool \<Rightarrow> bool" where
  room: "length (tasks p) < capacity p \<Longrightarrow> submit_step t p (put t p)"
| direct: "tasks p = [] \<Longrightarrow> i < length (crew p) \<Longrightarrow> crew p ! i = Waiting \<Longrightarrow> submit_step t p (hand_over i t p)"
| full: "capacity p \<le> length (tasks p) \<Longrightarrow> submit_step t p (drop_task t p)"

text \<open>
  What the workers and a waiting \<open>Shutdown\<close> do. Where the buffer holds a task and \<open>closed\<close> is
  closed, \<open>select\<close> may choose either.
\<close>

inductive internal_step :: "'a pool \<Rightarrow> 'a pool \<Rightarrow> bool" where
  grab: "tasks p \<noteq> [] \<Longrightarrow> i < length (crew p) \<Longrightarrow> crew p ! i = Waiting \<Longrightarrow> internal_step p (take_task i p)"
| finish: "i < length (crew p) \<Longrightarrow> crew p ! i = Running t \<Longrightarrow> internal_step p (finish_task i t p)"
| leave: "closed p \<Longrightarrow> i < length (crew p) \<Longrightarrow> crew p ! i = Waiting \<Longrightarrow> internal_step p (p\<lparr>crew := (crew p)[i := Gone]\<rparr>)"
| return: "closed p \<Longrightarrow> \<not> returned p \<Longrightarrow> \<forall>w \<in> set (crew p). w = Gone \<Longrightarrow> internal_step p (p\<lparr>returned := True\<rparr>)"

text \<open>\<open>Shutdown\<close> begins; a second call would panic in \<open>close\<close>.\<close>

inductive pool_step :: "'a pool \<Rightarrow> 'a pool \<Rightarrow> bool" where
  submit: "submit_step t p q \<Longrightarrow> pool_step p q"
| work: "internal_step p q \<Longrightarrow> pool_step p q"
| shutdown: "\<not> closed p \<Longrightarrow> pool_step p (p\<lparr>closed := True\<rparr>)"

inductive pool_reachable :: "nat \<Rightarrow> nat \<Rightarrow> 'a pool \<Rightarrow> bool" for n b where
  start: "pool_reachable n b (new_worker_pool n b)"
| step: "pool_reachable n b p \<Longrightarrow> pool_step p q \<Longrightarrow> pool_reachable n b q"

inductive_cases internal_stepE: "internal_step p q"

lemmas pool_update_defs = put_def hand_over_def drop_task_def take_task_def finish_task_def

section \<open>The history of the channel\<close>

fun running :: "'a worker list \<Rightarrow> 'a multiset" where
  "running [] = {#}"
| "running (Running t # ws) = add_mset t (running ws)"
| "running (Waiting # ws) = running ws"
| "running (Gone # ws) = running ws"

lemma running_update:
  "i < length ws \<Longrightarrow> running (ws[i := w]) + running [ws ! i] = running ws + running [w]"
proof (induction ws arbitrary: i)
  case (Cons v ws)
  then show ?case by (cases i; cases v; cases w) (auto simp: add.commute add.left_commute)
qed simp

lemma running_start: "i < length ws \<Longrightarrow> ws ! i = Waiting \<Longrightarrow> running (ws[i := Running t]) = add_mset t (running ws)"
  "i < length ws \<Longrightarrow> ws ! i = Waiting \<Longrightarrow> running (ws[i := Gone]) = running ws"
  "i < length ws \<Longrightarrow> ws ! i = Running t \<Longrightarrow> add_mset t (running (ws[i := Waiting])) = running ws"
  using running_update [of i ws "Running t"] running_update [of i ws Gone] running_update [of i ws Waiting] by simp_all

text \<open>
  What was accepted was started or is still in the buffer, in the order of submission; what
  was started is running or finished; what was submitted was accepted or dropped.
\<close>

definition pool_inv :: "nat \<Rightarrow> nat \<Rightarrow> 'a pool \<Rightarrow> bool" where
  "pool_inv n b p \<longleftrightarrow> capacity p = b \<and> length (crew p) = n \<and> length (tasks p) \<le> b \<and>
     accepted p = started p @ tasks p \<and> mset (started p) = mset (finished p) + running (crew p) \<and>
     mset (submitted p) = mset (accepted p) + mset (dropped p) \<and>
     (returned p \<longrightarrow> closed p \<and> (\<forall>w \<in> set (crew p). w = Gone)) \<and> ((\<exists>w \<in> set (crew p). w = Gone) \<longrightarrow> closed p)"

lemma pool_inv_start: "pool_inv n b (new_worker_pool n b)"
  by (induction n) (auto simp: pool_inv_def new_worker_pool_def)

lemma pool_inv_alive: "pool_inv n b p \<Longrightarrow> i < length (crew p) \<Longrightarrow> crew p ! i \<noteq> Gone \<Longrightarrow> \<not> returned p"
  by (auto simp: pool_inv_def)

lemma pool_step_inv: "pool_step p q \<Longrightarrow> pool_inv n b p \<Longrightarrow> pool_inv n b q"
proof (induction rule: pool_step.induct)
  case (submit t p q)
  then show ?case
  proof (induction rule: submit_step.induct)
    case (direct p i t)
    then have "\<not> returned p" using pool_inv_alive [of n b p i] by simp
    with direct show ?case
      by (auto simp: pool_inv_def pool_update_defs running_start dest!: set_update_subset_insert [THEN subsetD])
  qed (auto simp: pool_inv_def pool_update_defs)
next
  case (work p q)
  then show ?case
  proof (induction rule: internal_step.induct)
    case (grab p i)
    then obtain t ts where "tasks p = t # ts" by (cases "tasks p") auto
    moreover have "\<not> returned p" using grab pool_inv_alive [of n b p i] by simp
    ultimately show ?case using grab
      by (auto simp: pool_inv_def pool_update_defs running_start dest!: set_update_subset_insert [THEN subsetD])
  next
    case (finish i p t)
    then have "\<not> returned p" using pool_inv_alive [of n b p i] by simp
    with finish running_start(3) [of i "crew p" t] show ?case
      by (auto simp: pool_inv_def pool_update_defs dest!: set_update_subset_insert [THEN subsetD])
  next
    case (leave p i)
    then have "\<not> returned p" using pool_inv_alive [of n b p i] by simp
    with leave show ?case by (auto simp: pool_inv_def running_start)
  qed (auto simp: pool_inv_def)
qed (auto simp: pool_inv_def)

lemma pool_reachable_inv: "pool_reachable n b p \<Longrightarrow> pool_inv n b p"
  by (induction rule: pool_reachable.induct) (auto intro: pool_inv_start pool_step_inv)

section \<open>Shutting down\<close>

fun effort :: "'a worker \<Rightarrow> nat" where
  "effort Gone = 0"
| "effort Waiting = 1"
| "effort (Running t) = 2"

text \<open>A bound for the steps that are left once nothing is submitted any more.\<close>

definition pool_effort :: "'a pool \<Rightarrow> nat" where
  "pool_effort p = 2 * length (tasks p) + sum_list (map effort (crew p)) + (if returned p then 0 else 1)"

lemma effort_update:
  "i < length ws \<Longrightarrow> sum_list (map effort (ws[i := w])) + effort (ws ! i) = sum_list (map effort ws) + effort w"
proof (induction ws arbitrary: i)
  case (Cons v ws)
  then show ?case by (cases i) auto
qed simp

lemma internal_step_effort: "internal_step p q \<Longrightarrow> pool_effort q < pool_effort p \<and> closed q = closed p"
proof (induction rule: internal_step.induct)
  case (grab p i)
  then show ?case using effort_update [of i "crew p" "Running (hd (tasks p))"]
    by (cases "tasks p") (auto simp: pool_effort_def take_task_def)
next
  case (finish i p t)
  then show ?case using effort_update [of i "crew p" Waiting] by (auto simp: pool_effort_def finish_task_def)
next
  case (leave p i)
  then show ?case using effort_update [of i "crew p" Gone] by (auto simp: pool_effort_def)
qed (auto simp: pool_effort_def)

lemma internal_steps_effort:
  "(internal_step ^^ k) p q \<Longrightarrow> k + pool_effort q \<le> pool_effort p \<and> closed q = closed p"
proof (induction k arbitrary: q)
  case (Suc k)
  then obtain r where "(internal_step ^^ k) p r" "internal_step r q" by auto
  with Suc.IH [of r] internal_step_effort [of r q] show ?case by auto
qed simp

text \<open>A closed pool that has not shut down yet can always do something.\<close>

lemma internal_progress: "closed p \<Longrightarrow> \<not> returned p \<Longrightarrow> \<exists>q. internal_step p q"
proof (cases "\<forall>w \<in> set (crew p). w = Gone")
  case False
  assume "closed p"
  from False obtain i where "i < length (crew p)" "crew p ! i \<noteq> Gone" by (auto simp: in_set_conv_nth)
  with \<open>closed p\<close> show ?thesis by (cases "crew p ! i") (blast intro: internal_step.intros)+
qed (blast intro: internal_step.intros)

section \<open>Properties\<close>

text \<open>
  C22: however submitters and workers interleave, the buffer stays within its size, the
  workers take the accepted tasks in the order of their submission, and every submitted
  task is in exactly one place: dropped, still in the buffer, being run, or run to its end
  once. No task is run twice and none is made up.
\<close>
theorem pool_accounts_for_tasks:
  assumes "pool_reachable n b p"
  shows "length (tasks p) \<le> b \<and> accepted p = started p @ tasks p \<and>
    mset (submitted p) = mset (dropped p) + mset (tasks p) + running (crew p) + mset (finished p)"
  using pool_reachable_inv [OF assms] by (auto simp: pool_inv_def)

text \<open>
  C23: \<open>Shutdown\<close> returns. Once it has closed the pool and nothing is submitted any more,
  the workers can make only so many steps as the tasks in the buffer and the workers
  themselves allow, and when no step is left, \<open>Shutdown\<close> has come back.
\<close>
theorem shutdown_returns:
  assumes "closed p" and "(internal_step ^^ k) p q"
  shows "k \<le> pool_effort p \<and> (returned q \<or> (\<exists>r. internal_step q r))"
  using internal_steps_effort [OF assms(2)] internal_progress [of q] assms(1) by auto

lemma leave_all:
  "closed p \<Longrightarrow> crew p = replicate k Gone @ replicate m Waiting \<Longrightarrow> pool_reachable n b p \<Longrightarrow>
   pool_reachable n b (p\<lparr>crew := replicate (k + m) Gone\<rparr>)"
proof (induction m arbitrary: p k)
  case 0
  then have "p\<lparr>crew := replicate k Gone\<rparr> = p" by (cases p) simp
  then show ?case using 0(3) by (simp only: add_0_right)
next
  case (Suc m)
  let ?q = "p\<lparr>crew := (crew p)[k := Gone]\<rparr>"
  have "internal_step p ?q" using Suc.prems by (intro internal_step.leave) (simp_all add: nth_append)
  then have "pool_reachable n b ?q" using Suc.prems(3) by (blast intro: pool_step.work pool_reachable.step)
  moreover have "crew ?q = replicate (Suc k) Gone @ replicate m Waiting"
    using Suc.prems(2) by (simp add: list_update_append replicate_append_same)
  ultimately show ?case using Suc.IH [of ?q "Suc k"] Suc.prems(1) by simp
qed

text \<open>
  Shutting down does not drain the pool: whatever the number of workers and the size of
  the buffer, a task that was accepted may be left in it for good when \<open>Shutdown\<close> returns.
\<close>
lemma shutdown_may_lose_tasks:
  assumes "0 < b"
  shows "\<exists>p. pool_reachable n b p \<and> returned p \<and> accepted p = [t] \<and> started p = [] \<and>
    (\<forall>q. \<not> internal_step p q)"
proof -
  let ?p0 = "new_worker_pool n b :: 'a pool"
  let ?p1 = "put t ?p0\<lparr>closed := True\<rparr>"
  have "submit_step t ?p0 (put t ?p0)" using assms by (intro submit_step.room) (simp add: new_worker_pool_def)
  then have "pool_reachable n b (put t ?p0)"
    by (blast intro: pool_reachable.intros pool_step.submit)
  moreover have "pool_step (put t ?p0) ?p1"
    by (rule pool_step.shutdown) (simp add: new_worker_pool_def put_def)
  ultimately have "pool_reachable n b ?p1" by (rule pool_reachable.step)
  then have "pool_reachable n b (?p1\<lparr>crew := replicate (0 + n) Gone\<rparr>)"
    by (intro leave_all) (simp_all add: put_def new_worker_pool_def)
  then have 1: "pool_reachable n b (?p1\<lparr>crew := replicate n Gone\<rparr>)" (is "pool_reachable n b ?p2") by simp
  have "internal_step ?p2 (?p2\<lparr>returned := True\<rparr>)"
    by (rule internal_step.return) (auto simp: put_def new_worker_pool_def)
  then have 2: "pool_reachable n b (?p2\<lparr>returned := True\<rparr>)" (is "pool_reachable n b ?p3")
    using 1 by (blast intro: pool_step.work pool_reachable.step)
  have "\<not> internal_step ?p3 q" for q
    by (auto elim!: internal_stepE simp: put_def new_worker_pool_def)
  with 2 show ?thesis by (intro exI [of _ ?p3]) (auto simp: put_def new_worker_pool_def)
qed

lemma demo_pool_reachable: "pool_reachable 1 1 (put ''a'' (new_worker_pool 1 1))"
  by (rule pool_reachable.step [OF pool_reachable.start], rule pool_step.submit, rule submit_step.room)
    (simp add: new_worker_pool_def)

theorem pool_accounts_for_tasks_witness:
  "accepted (put ''a'' (new_worker_pool 1 1)) = [] @ [''a''] \<and>
   mset (submitted (put ''a'' (new_worker_pool 1 1))) = {#''a''#}"
  using pool_accounts_for_tasks [OF demo_pool_reachable] by (simp add: put_def new_worker_pool_def)

theorem shutdown_returns_witness:
  "1 \<le> pool_effort (new_worker_pool 1 1\<lparr>closed := True\<rparr> :: nat pool)"
proof -
  let ?p = "new_worker_pool 1 1\<lparr>closed := True\<rparr> :: nat pool"
  have "internal_step ?p (?p\<lparr>crew := (crew ?p)[0 := Gone]\<rparr>)"
    by (rule internal_step.leave) (simp_all add: new_worker_pool_def)
  then have "(internal_step ^^ 1) ?p (?p\<lparr>crew := (crew ?p)[0 := Gone]\<rparr>)" by (simp only: relpowp_1)
  from shutdown_returns [OF _ this] show ?thesis by (simp add: new_worker_pool_def)
qed

end
