(* ===== verification/AuditPool.thy ===== *)
theory AuditPool
  imports ServerProps WorkerPool
begin

text \<open>
  The audit log on top of the worker pool. The server's model keeps the tasks of
  \<open>auditWorkerPool\<close> as a queue from which one task at a time is taken and run; here every
  behaviour of that queue is shown to be a behaviour of the pool of ten workers and a
  buffer of a thousand tasks that \<open>internal/middleware/logger.go\<close> creates.
\<close>

section \<open>What a request does to the queue\<close>

interpretation anything: service_relation X "\<lambda>_ _. True"
  by unfold_locales (simp_all add: io_preorder_def reflp_def transp_def state_io_rel_def)

lemma trivial_rel: "state_io_rel (\<lambda>_ _. True) m" "io_preorder (\<lambda>_ _. True)"
  by (simp_all add: state_io_rel_def io_preorder_def reflp_def transp_def)

lemma routes_leave_queue:
  fixes X :: "'r ext" and E :: "('l, 'q) env"
  shows "\<forall>r \<in> set (engine_routes X cfg E rq). state_io_rel (on_world (\<lambda>_ _. True)) (snd (snd r))"
proof (rule engine_routes_rel)
  fix h assume "h \<in> all_handlers X cfg E rq"
  then show "state_io_rel (on_world (\<lambda>_ _. True)) h"
    by (auto simp: all_handlers_def intro: anything.handlers)
next
  fix h :: "('r, 'l) prog" assume h: "state_io_rel (on_world (\<lambda>_ _. True)) h"
  show "state_io_rel (on_world (\<lambda>_ _. True)) (auth_required X rq h)"
    unfolding auth_required_def Let_def by (intro io_intros io_preorder_on_world trivial_rel h)
  show "state_io_rel (on_world (\<lambda>_ _. True)) (require_permission a r h)" for a r
    unfolding require_permission_def by (intro io_intros io_preorder_on_world trivial_rel h)
qed

text \<open>\<open>Submit\<close> as the model of the server has it: a task at the end, or dropped where there is no room.\<close>

definition one_submission :: "audit_task list \<Rightarrow> audit_task list \<Rightarrow> bool" where
  "one_submission q q' \<longleftrightarrow> (\<exists>t. q' = (if length q < audit_buffer then q @ [t] else q))"

lemma audited_queue: "one_submission (audit_queue s) (audit_queue (audited rq t0 s))"
  by (auto simp: one_submission_def audited_def submit_audit_def Let_def)

lemma global_chain_queue:
  assumes "run_state (global_chain X cfg E rq h) s = ((), s')" and "state_io_rel (on_world (\<lambda>_ _. True)) h"
  shows "audit_queue s' = audit_queue s \<or> one_submission (audit_queue s) (audit_queue s')"
  using assms(1)
proof (cases rule: global_chain_cases)
  case (handled s1)
  then have "audit_queue s1 = audit_queue s" by (simp add: calm_def)
  moreover have "audit_queue (snd (run_state h s1)) = audit_queue s1"
    using assms(2) by (simp add: state_io_rel_def on_world_def)
  ultimately show ?thesis using audited_queue [of "snd (run_state h s1)" rq "clock (world s1)"] handled(2) by simp
qed simp

text \<open>One request submits at most one task.\<close>

lemma run_unit: "run_state m v = ((), snd (run_state m v))"
  by (cases "run_state m v") simp

lemma serve_queue:
  fixes X :: "'r ext" and E :: "('l, 'q) env" and s :: "('r, 'l) srv"
  assumes "matcher_ok E"
  shows "audit_queue (snd (run_state (serve X cfg E rq) s)) = audit_queue s \<or>
    one_submission (audit_queue s) (audit_queue (snd (run_state (serve X cfg E rq) s)))"
proof -
  obtain s0 where f: "run_state fresh_context s = ((), s0)" and q: "audit_queue s0 = audit_queue s"
    by (simp add: fresh_context_def)
  have resp: "state_io_rel (on_world (\<lambda>_ _. True)) (respond_status n :: ('r, 'l) prog)" for n
    by (intro io_intros trivial_rel)
  show ?thesis
  proof (cases "gin_match E (map pattern_of (engine_routes X cfg E rq)) (rq_method rq) (rq_path rq)")
    case NoRoute
    then show ?thesis using f global_chain_queue [OF run_unit resp, of X cfg E rq 404 s0] q by (simp add: serve_def)
  next
    case OtherSlash
    then show ?thesis using f q by (simp add: serve_def)
  next
    case (Matched n a)
    let ?rq = "rq\<lparr>rq_param := a\<rparr>"
    have "n < length (engine_routes X cfg E ?rq)"
      using assms Matched unfolding matcher_ok_def by (metis length_map engine_length)
    then have "state_io_rel (on_world (\<lambda>_ _. True)) (snd (snd (engine_routes X cfg E ?rq ! n)))"
      using routes_leave_queue nth_mem by blast
    from global_chain_queue [OF run_unit this, of X cfg E ?rq s0] q f Matched show ?thesis
      by (simp add: serve_def Let_def)
  qed
qed

section \<open>Simulation\<close>

text \<open>
  Between two steps of the server no worker is in the middle of a task: the model runs a
  task in one step, so all ten workers wait and the buffer is the server's queue.
\<close>

definition simulates :: "audit_task pool \<Rightarrow> ('r, 'l) srv \<Rightarrow> bool" where
  "simulates p s \<longleftrightarrow> tasks p = audit_queue s \<and> capacity p = audit_buffer \<and> crew p = replicate 10 Waiting \<and>
     \<not> closed p \<and> \<not> returned p"

text \<open>What the pool does in one step of the server.\<close>

definition matched :: "audit_task pool \<Rightarrow> audit_task pool \<Rightarrow> bool" where
  "matched p p' \<longleftrightarrow> p' = p \<or> (\<exists>t. submit_step t p p') \<or>
     (\<exists>r t. internal_step p r \<and> internal_step r p' \<and> tasks p = t # tasks p' \<and> finished p' = finished p @ [t])"

lemma matched_steps: "matched p p' \<Longrightarrow> pool_step\<^sup>*\<^sup>* p p'"
  unfolding matched_def by (blast intro: pool_step.intros r_into_rtranclp converse_rtranclp_into_rtranclp)

lemma simulates_submit:
  assumes "simulates p s" and "one_submission (audit_queue s) (audit_queue s')"
  shows "\<exists>p'. matched p p' \<and> simulates p' s'"
proof -
  obtain t where t: "audit_queue s' = (if length (audit_queue s) < audit_buffer then audit_queue s @ [t] else audit_queue s)"
    using assms(2) by (auto simp: one_submission_def)
  show ?thesis
  proof (cases "length (audit_queue s) < audit_buffer")
    case True
    with assms(1) have "submit_step t p (put t p)" by (intro submit_step.room) (simp add: simulates_def)
    with assms(1) t True show ?thesis
      unfolding matched_def by (intro exI [of _ "put t p"] conjI disjI2 disjI1) (auto simp: simulates_def put_def)
  next
    case False
    with assms(1) have "submit_step t p (drop_task t p)" by (intro submit_step.full) (simp add: simulates_def)
    with assms(1) t False show ?thesis
      unfolding matched_def
      by (intro exI [of _ "drop_task t p"] conjI disjI2 disjI1) (auto simp: simulates_def drop_task_def)
  qed
qed

lemma simulates_run:
  assumes "simulates p s" and "audit_queue s = t # ts" and "audit_queue s' = ts"
  shows "\<exists>p'. matched p p' \<and> simulates p' s'"
proof -
  let ?p1 = "take_task 0 p"
  let ?p2 = "finish_task 0 t ?p1"
  have c: "crew ?p1 = (replicate 10 Waiting)[0 := Running t]" using assms(1,2) by (simp add: simulates_def take_task_def)
  have "internal_step p ?p1"
    using assms(1,2) by (intro internal_step.grab) (simp_all add: simulates_def)
  moreover have "internal_step ?p1 ?p2"
    by (rule internal_step.finish) (simp_all add: c)
  moreover have "tasks p = t # tasks ?p2" "finished ?p2 = finished p @ [t]"
    using assms(1,2) by (simp_all add: simulates_def take_task_def finish_task_def)
  moreover have "simulates ?p2 s'"
    using assms by (simp add: simulates_def take_task_def finish_task_def numeral_nat)
  ultimately show ?thesis unfolding matched_def by blast
qed

lemma simulates_skip: "simulates p s \<Longrightarrow> audit_queue s' = audit_queue s \<Longrightarrow> \<exists>p'. matched p p' \<and> simulates p' s'"
  by (intro exI [of _ p]) (simp add: matched_def simulates_def)

lemma simulation_step:
  assumes "matcher_ok E" and "server_step X cfg E lat s s'" and "simulates p s"
  shows "\<exists>p'. matched p p' \<and> simulates p' s'"
  using assms(2,3)
proof (induction arbitrary: p rule: server_step.induct)
  case (request s rq)
  from serve_queue [OF assms(1), of X cfg rq s] request show ?case
    by (blast intro: simulates_skip simulates_submit)
next
  case (audit s t ts)
  have "audit_queue (snd (run_state (in_world (run_audit_task X t)) (s\<lparr>audit_queue := ts\<rparr>))) = ts"
    by (simp split: prod.split)
  from simulates_run [OF audit(2,1) this] show ?case .
qed (auto intro: simulates_skip)

lemma simulates_start: "audit_queue s = [] \<Longrightarrow> simulates (new_worker_pool 10 1000) s"
  by (simp add: simulates_def new_worker_pool_def audit_buffer_def)

text \<open>
  C24: the server's queue of audit tasks is a refinement of the worker pool with ten workers
  and a thousand places. A server that starts without audit tasks starts like a new pool,
  and whatever the server does in a step, the pool can follow: a request submits at most one
  task, which goes to the end of the buffer or is dropped by \<open>Submit\<close> when the buffer is
  full; an audit step is a worker that takes the first task and runs it to its end; nothing
  else touches the pool.
\<close>
theorem audit_queue_refines_pool:
  assumes "matcher_ok E"
  shows "(audit_queue s0 = [] \<longrightarrow> simulates (new_worker_pool 10 1000) s0) \<and>
    (server_step X cfg E lat s s' \<longrightarrow> simulates p s \<longrightarrow> (\<exists>p'. matched p p' \<and> simulates p' s'))"
  using simulation_step [OF assms] simulates_start by blast

text \<open>So no audit entry is lost or written twice between the request and the worker.\<close>

lemma pool_reachable_steps: "pool_step\<^sup>*\<^sup>* p q \<Longrightarrow> pool_reachable n b p \<Longrightarrow> pool_reachable n b q"
  by (induction rule: rtranclp_induct) (auto intro: pool_reachable.step)

lemma simulation:
  assumes "matcher_ok E" and "audit_queue s0 = []"
  shows "server_reachable X cfg E lat s0 s \<Longrightarrow> \<exists>p. pool_reachable 10 1000 p \<and> simulates p s"
proof (induction rule: server_reachable.induct)
  case start
  then show ?case using simulates_start [OF assms(2)] by (blast intro: pool_reachable.start)
next
  case (step s s')
  then obtain p where p: "pool_reachable 10 1000 p" "simulates p s" by blast
  from simulation_step [OF assms(1) step(2) p(2)] p(1) show ?case by (blast intro: pool_reachable_steps matched_steps)
qed


theorem audit_queue_refines_pool_witness:
  "\<exists>p'. matched (new_worker_pool 10 1000) p' \<and>
     simulates p' (snd (run_state (serve (demo_ext []) demo_config demo_env demo_request) (demo_srv (demo_world demo_db 0))))"
proof -
  let ?s = "demo_srv (demo_world demo_db 0)"
  have "audit_queue ?s = []" by (simp add: demo_srv_def)
  moreover have "server_step (demo_ext []) demo_config demo_env 5 ?s
      (snd (run_state (serve (demo_ext []) demo_config demo_env demo_request) ?s))"
    by (rule server_step.request)
  ultimately show ?thesis using audit_queue_refines_pool [OF demo_matcher] by blast
qed

end
