(* ===== verification/Answers.thy ===== *)
theory Answers
  imports AuditPool
begin

text \<open>
  What every answer of the server looks like and what the log says of it: the security
  headers, the compression that the headers announce, the line of the request.
\<close>

section \<open>Headers\<close>

definition same_writer :: "('r, 'l) srv \<Rightarrow> ('r, 'l) srv \<Rightarrow> bool" where
  "same_writer s s' \<longleftrightarrow> out_headers s' = out_headers s \<and> out_gzip s' = out_gzip s"

lemma writer_preorder [simp, intro]: "io_preorder same_writer"
  by (auto simp: io_preorder_def same_writer_def reflp_def transp_def)

lemma writer_parts [io_intros]:
  "state_io_rel same_writer (in_world m)" "state_io_rel same_writer (respond code b)"
  "state_io_rel same_writer (get_limiter L k burst r)" "state_io_rel same_writer (put_limiter k l)"
  by (auto simp: state_io_rel_def same_writer_def in_world_def get_limiter_def put_limiter_def Let_def split: prod.splits)

lemma writer_limits:
  assumes "state_io_rel same_writer h"
  shows "state_io_rel same_writer (throttle L burst r rq h)" "state_io_rel same_writer (rate_limiter X maxReqs win rq h)"
    "state_io_rel same_writer (activity_logger rq h)"
proof -
  show "state_io_rel same_writer (throttle L burst r rq h)"
    unfolding throttle_def Let_def case_prod_beta by (intro io_intros writer_preorder assms)
  have "state_io_rel same_writer (case v of Some (RStr x) \<Rightarrow> m | _ \<Rightarrow> n)"
    if "state_io_rel same_writer m" "state_io_rel same_writer n" for v :: "redis_value option" and m n :: "('c, 'd) prog"
    using that by (auto split: option.split redis_value.split)
  then show "state_io_rel same_writer (rate_limiter X maxReqs win rq h)"
    unfolding rate_limiter_def Let_def by (intro io_intros writer_preorder assms) (auto intro!: io_intros assms split: option.split redis_value.split)
  show "state_io_rel same_writer (activity_logger rq h)"
    using assms by (auto simp: state_io_rel_def run_activity_logger same_writer_def)
qed

definition security_values :: "(string \<times> string) list" where
  "security_values = [(''X-Content-Type-Options'', ''nosniff''), (''X-Frame-Options'', ''DENY''),
     (''X-XSS-Protection'', ''1; mode=block''),
     (''Strict-Transport-Security'', ''max-age=31536000; includeSubDomains''),
     (''Referrer-Policy'', ''strict-origin-when-cross-origin''),
     (''Permissions-Policy'', ''geolocation=(), microphone=(), camera=()''),
     (''Access-Control-Allow-Origin'', ''*'')]"

definition dressed :: "request \<Rightarrow> ('r, 'l) srv \<Rightarrow> bool" where
  "dressed rq s \<longleftrightarrow> (\<forall>(h, v) \<in> set security_values. map_of (out_headers s) h = Some v) \<and>
     (out_gzip s \<longleftrightarrow> map_of (out_headers s) ''Content-Encoding'' = Some ''gzip'') \<and>
     (out_gzip s \<longrightarrow> contains (rq_headers rq ''Accept-Encoding'') ''gzip'')"

lemma dressed_same: "same_writer s s' \<Longrightarrow> dressed rq s' = dressed rq s"
  by (simp add: dressed_def same_writer_def)

lemma chain_dresses:
  assumes "state_io_rel same_writer h" and "out_headers s = []" and "\<not> out_gzip s"
  shows "dressed rq (snd (run_state (global_chain X cfg E rq h) s))"
proof -
  define inner where "inner = throttle (limiters E) (ThrottleBurst cfg) (to_limit E (ThrottleRate cfg)) rq
    (rate_limiter X (RateLimitRequests cfg) (RateLimitDurationSec cfg) rq (activity_logger rq h))"
  have i: "state_io_rel same_writer inner" unfolding inner_def by (intro writer_limits assms(1))
  then have keep: "dressed rq (snd (run_state inner t)) = dressed rq t" for t
    by (intro dressed_same) (simp add: state_io_rel_def)
  show ?thesis
    unfolding global_chain_def inner_def [symmetric]
    using assms(2,3)
    by (auto simp: security_headers_def cors_def gzip_def wrap_writer_def keep) (simp_all add: dressed_def security_values_def update_conv')
qed

section \<open>Time\<close>

definition timely :: "'r world \<Rightarrow> 'r world \<Rightarrow> bool" where
  "timely w w' \<longleftrightarrow> clock w \<le> clock w'"

lemma timely_preorder [simp, intro]: "io_preorder timely"
  by (auto simp: io_preorder_def timely_def reflp_def transp_def)

lemma timely_quiet: "state_io_rel quiet m \<Longrightarrow> state_io_rel timely m"
  by (auto simp: state_io_rel_def quiet_def timely_def)

lemma timely_cache [io_intros]: "state_io_rel timely (cache_lookup k)" "state_io_rel timely (cache_store X k c)"
  by (auto simp: state_io_rel_def timely_def cache_lookup_def cache_store_def split: prod.splits)

lemma routes_timely:
  fixes X :: "'r ext" and E :: "('l, 'q) env"
  shows "\<forall>r \<in> set (engine_routes X cfg E rq). state_io_rel (on_world timely) (snd (snd r))"
proof (rule engine_routes_rel)
  fix h assume "h \<in> all_handlers X cfg E rq"
  then have "state_io_rel (on_world quiet) h"
    by (auto simp: all_handlers_def intro: caching.handlers)
  then show "state_io_rel (on_world timely) h" by (auto simp: state_io_rel_def on_world_def quiet_def timely_def)
next
  fix h :: "('r, 'l) prog" assume h: "state_io_rel (on_world timely) h"
  show "state_io_rel (on_world timely) (auth_required X rq h)"
    unfolding auth_required_def Let_def
    by (intro io_intros io_preorder_on_world timely_preorder h) (intro timely_quiet io_intros)+
  show "state_io_rel (on_world timely) (require_permission a r h)" for a r
    unfolding require_permission_def
    by (intro io_intros io_preorder_on_world timely_preorder h) (intro timely_quiet io_intros)+
qed

section \<open>Answers\<close>

lemma chain_logs:
  assumes "state_io_rel (on_world timely) h" and "run_state (global_chain X cfg E rq h) s = ((), s')"
  shows "(request_log s' = request_log s \<and> out_status s' \<in> {204, 401, 403, 429, 500}) \<or>
    (\<exists>latency \<ge> 0. request_log s' = request_log s @ [\<lparr>ln_method = rq_method rq, ln_path = rq_path rq,
       ln_status = out_status s', ln_latency = latency, ln_ip = rq_ip rq, ln_agent = UserAgent rq\<rparr>])"
  using assms(2)
proof (cases rule: global_chain_cases)
  case refused
  then show ?thesis by (simp add: refused_def)
next
  case (handled s1)
  have "on_world timely s1 (snd (run_state h s1))" using assms(1) by (simp add: state_io_rel_def)
  with handled show ?thesis by (auto simp: calm_def on_world_def timely_def)
qed

text \<open>
  C34: every answer that does not merely redirect carries the security headers. It is
  compressed exactly if its headers say so, only if the client accepts that, and a client
  that goes by the headers gets the body back. The request leaves at most one line in the
  log, and only a refused one leaves none: the line has the method, the path, the address
  and the agent of the request, the status of the answer and the time that it took.
\<close>
theorem answers_are_dressed_and_logged:
  fixes X :: "'r ext" and E :: "('l, 'q) env" and s :: "('r, 'l) srv"
  assumes "matcher_ok E" and "run_state (serve X cfg E rq) s = ((), s')"
    and "gin_match E (map pattern_of (engine_routes X cfg E rq)) (rq_method rq) (rq_path rq) \<noteq> OtherSlash"
    and "\<And>x. uncompress (compress x) = x"
  shows "(\<forall>(h, v) \<in> set security_values. map_of (out_headers s') h = Some v) \<and>
    (out_gzip s' \<longrightarrow> contains (rq_headers rq ''Accept-Encoding'') ''gzip'') \<and>
    (out_body s' = Some b \<longrightarrow>
       (if map_of (out_headers s') ''Content-Encoding'' = Some ''gzip'' then uncompress (wire compress encode s')
        else wire compress encode s') = encode b) \<and>
    ((request_log s' = request_log s \<and> out_status s' \<in> {204, 401, 403, 429, 500}) \<or>
     (\<exists>latency \<ge> 0. request_log s' = request_log s @ [\<lparr>ln_method = rq_method rq, ln_path = rq_path rq,
        ln_status = out_status s', ln_latency = latency, ln_ip = rq_ip rq, ln_agent = UserAgent rq\<rparr>]))"
proof -
  define s0 where "s0 = snd (run_state fresh_context s)"
  have f: "run_state fresh_context s = ((), s0)" "out_headers s0 = []" "\<not> out_gzip s0" "request_log s0 = request_log s"
    by (simp_all add: s0_def fresh_context_def)
  have "\<exists>h rq'. run_state (global_chain X cfg E rq' h) s0 = ((), s') \<and> state_io_rel (on_world timely) h \<and>
      (rq' = rq \<or> (\<exists>a. rq' = rq\<lparr>rq_param := a\<rparr>))"
  proof (cases "gin_match E (map pattern_of (engine_routes X cfg E rq)) (rq_method rq) (rq_path rq)")
    case NoRoute
    have "state_io_rel (on_world timely) (respond_status 404 :: ('r, 'l) prog)" by (intro io_intros timely_preorder)
    with NoRoute assms(2) f show ?thesis by (auto simp: serve_def)
  next
    case (Matched n a)
    let ?rq = "rq\<lparr>rq_param := a\<rparr>"
    have "n < length (engine_routes X cfg E ?rq)"
      using assms(1) Matched unfolding matcher_ok_def by (metis length_map engine_length)
    then have "state_io_rel (on_world timely) (snd (snd (engine_routes X cfg E ?rq ! n)))"
      using routes_timely nth_mem by blast
    with Matched assms(2) f show ?thesis by (auto simp: serve_def Let_def)
  qed (use assms(3) in simp)
  then obtain h rq' where run: "run_state (global_chain X cfg E rq' h) s0 = ((), s')" and h: "state_io_rel (on_world timely) h"
    and rq': "rq' = rq \<or> (\<exists>a. rq' = rq\<lparr>rq_param := a\<rparr>)" by blast
  have "state_io_rel same_writer h" using h by (simp add: state_io_rel_def on_world_def same_writer_def)
  from chain_dresses [OF this f(2,3), of rq' X cfg E] run have d: "dressed rq' s'" by simp
  have q: "rq_method rq' = rq_method rq" "rq_path rq' = rq_path rq" "rq_ip rq' = rq_ip rq" "UserAgent rq' = UserAgent rq"
    "rq_headers rq' = rq_headers rq" using rq' by (auto simp: UserAgent_def)
  show ?thesis
    using d chain_logs [OF h run] assms(4) unfolding dressed_def q f(4) by (auto simp: wire_def)
qed

theorem answers_are_dressed_and_logged_witness:
  "map_of (out_headers (snd (run_state (serve (demo_ext []) demo_config demo_env demo_request)
     (demo_srv (demo_world demo_db 0))))) ''X-Frame-Options'' = Some ''DENY''"
proof -
  obtain s' where run: "run_state (serve (demo_ext []) demo_config demo_env demo_request)
      (demo_srv (demo_world demo_db 0)) = ((), s')"
    by (cases "run_state (serve (demo_ext []) demo_config demo_env demo_request) (demo_srv (demo_world demo_db 0))") simp
  have "exact_match i pats m p \<noteq> OtherSlash" for i pats m p by (induction i pats m p rule: exact_match.induct) auto
  then have "gin_match demo_env (map pattern_of (engine_routes (demo_ext []) demo_config demo_env demo_request))
      (rq_method demo_request) (rq_path demo_request) \<noteq> OtherSlash" by (simp add: demo_env_def)
  from answers_are_dressed_and_logged [OF demo_matcher run this, of "\<lambda>x. x" "\<lambda>x. x"] run
  show ?thesis by (simp add: security_values_def)
qed

end
