(* ===== verification/GuessRace.thy ===== *)
theory GuessRace
  imports Lockout
begin

text \<open>
  Guesses of a password that run at the same time. A login asks for the lock first, compares the
  password, which takes long, and counts the failure last; so guesses that have asked before
  the fifth failure was counted are all compared.
\<close>

section \<open>Guesses in flight\<close>

text \<open>
  The state is the world, the number of guesses that have passed \<open>checkLoginAttempts\<close> and have not
  been counted, and the number of those that were compared and counted by
  \<open>recordFailedAttempt\<close>. Time may pass as long as neither the count nor the lock expires.
\<close>

record 'r guessing =
  gs_world :: "'r world"
  gs_flight :: nat
  gs_compared :: nat

inductive guess_step ::
  "'r ext \<Rightarrow> ('r \<Rightarrow> key_space) \<Rightarrow> string \<Rightarrow> nat \<Rightarrow> 'r guessing \<Rightarrow> 'r guessing \<Rightarrow> bool" for X view email par where
  check: "run_state (check_login_attempts X email) (gs_world a) = (Inr (), w') \<Longrightarrow> gs_flight a < par \<Longrightarrow>
    guess_step X view email par a (a\<lparr>gs_world := w', gs_flight := Suc (gs_flight a)\<rparr>)"
| fail: "run_state (record_failed_attempt X email) (gs_world a) = ((), w') \<Longrightarrow> 0 < gs_flight a \<Longrightarrow>
    guess_step X view email par a
      (a\<lparr>gs_world := w', gs_flight := gs_flight a - 1, gs_compared := Suc (gs_compared a)\<rparr>)"
| tick: "clock (gs_world a) \<le> t \<Longrightarrow>
    (\<forall>k \<in> {attempts_key email, lockout_key email}. live (view (redis (gs_world a))) t k =
       live (view (redis (gs_world a))) (clock (gs_world a)) k) \<Longrightarrow>
    guess_step X view email par a (a\<lparr>gs_world := (gs_world a)\<lparr>clock := t\<rparr>\<rparr>)"

abbreviation guess_steps ::
  "'r ext \<Rightarrow> ('r \<Rightarrow> key_space) \<Rightarrow> string \<Rightarrow> nat \<Rightarrow> 'r guessing \<Rightarrow> 'r guessing \<Rightarrow> bool" where
  "guess_steps X view email par \<equiv> (guess_step X view email par)\<^sup>*\<^sup>*"

section \<open>How many are compared\<close>

definition guess_inv :: "('r \<Rightarrow> key_space) \<Rightarrow> string \<Rightarrow> nat \<Rightarrow> 'r guessing \<Rightarrow> bool" where
  "guess_inv view email par a \<longleftrightarrow> sched (gs_world a) = [] \<and>
     failures (view (redis (gs_world a))) (clock (gs_world a)) email = Some (int (gs_compared a)) \<and>
     (5 \<le> gs_compared a \<longrightarrow> locked (view (redis (gs_world a))) (clock (gs_world a)) email) \<and>
     gs_compared a + gs_flight a \<le> 4 + par"

context services
begin

lemma check_run:
  assumes "sched w = []"
  shows "\<not> locked (view (redis w)) (clock w) email \<Longrightarrow> run_state (check_login_attempts X email) w = (Inr (), w)"
    and "run_state (check_login_attempts X email) w = (Inr (), w') \<Longrightarrow> w' = w \<and> \<not> locked (view (redis w)) (clock w) email"
  using assms by (auto simp: check_login_attempts_def redis_exists_def redis_ttl_def get_view locked_def Let_def split: if_splits)

lemma failed_redis_counts:
  assumes "failures (view r) t email = Some (int n)" and "int n < 2 ^ 63 - 1"
  shows "failures (view (failed_redis email t r)) t email = Some (int (Suc n))"
    and "4 \<le> n \<Longrightarrow> locked (view (failed_redis email t r)) t email"
    and "n < 4 \<Longrightarrow> locked (view (failed_redis email t r)) t email = locked (view r) t email"
  using failed_redis_view [OF assms(1) _ assms(2)] by (auto simp: Let_def failures_def locked_def live_def duration_defs)

lemma guess_step_inv:
  assumes "4 + int par < 2 ^ 63 - 1"
  shows "guess_step X view email par a b \<Longrightarrow> guess_inv view email par a \<Longrightarrow> guess_inv view email par b"
proof (induction rule: guess_step.induct)
  case (check a w')
  then show ?case using check_run(2) [of "gs_world a" email w'] by (auto simp: guess_inv_def)
next
  case (fail a w')
  then have s: "sched (gs_world a) = []" and lt: "int (gs_compared a) < 2 ^ 63 - 1"
    and f: "failures (view (redis (gs_world a))) (clock (gs_world a)) email = Some (int (gs_compared a))"
    using assms by (auto simp: guess_inv_def)
  have "w' = (gs_world a)\<lparr>redis := failed_redis email (clock (gs_world a)) (redis (gs_world a))\<rparr>"
    using fail.hyps(1) run_record_failed_attempt [OF s, of email] by simp
  with fail.prems fail.hyps(2) failed_redis_counts [OF f lt] s show ?case by (auto simp: guess_inv_def)
next
  case (tick a t)
  then show ?case by (simp add: guess_inv_def failures_def locked_def)
qed

text \<open>Four failures one after the other, then all at once.\<close>

lemma guess_checks:
  assumes "sched w = []" and "\<not> locked (view (redis w)) (clock w) email"
  shows "k \<le> par \<Longrightarrow> guess_steps X view email par \<lparr>gs_world = w, gs_flight = 0, gs_compared = c\<rparr>
    \<lparr>gs_world = w, gs_flight = k, gs_compared = c\<rparr>"
proof (induction k)
  case (Suc k)
  let ?a = "\<lparr>gs_world = w, gs_flight = k, gs_compared = c\<rparr>"
  have "guess_step X view email par ?a (?a\<lparr>gs_world := w, gs_flight := Suc (gs_flight ?a)\<rparr>)"
    using Suc.prems check_run(1) [OF assms] by (intro guess_step.check) simp_all
  with Suc show ?case by (auto intro: rtranclp.rtrancl_into_rtrancl)
qed simp

lemma guess_fails:
  assumes "sched w = []" and "failures (view (redis w)) (clock w) email = Some (int c)" and "int (c + k) < 2 ^ 63 - 1"
  shows "\<exists>w'. guess_steps X view email par \<lparr>gs_world = w, gs_flight = k, gs_compared = c\<rparr>
      \<lparr>gs_world = w', gs_flight = 0, gs_compared = c + k\<rparr> \<and> sched w' = [] \<and> clock w' = clock w \<and>
    failures (view (redis w')) (clock w) email = Some (int (c + k)) \<and>
    (c + k < 5 \<longrightarrow> locked (view (redis w')) (clock w) email = locked (view (redis w)) (clock w) email)"
  using assms
proof (induction k arbitrary: w c)
  case 0
  then show ?case by auto
next
  case (Suc k)
  let ?w = "w\<lparr>redis := failed_redis email (clock w) (redis w)\<rparr>"
  let ?a = "\<lparr>gs_world = w, gs_flight = Suc k, gs_compared = c\<rparr>"
  have lt: "int c < 2 ^ 63 - 1" using Suc.prems(3) by simp
  note f = failed_redis_counts [OF Suc.prems(2) lt]
  have "guess_step X view email par ?a (?a\<lparr>gs_world := ?w, gs_flight := gs_flight ?a - 1, gs_compared := Suc (gs_compared ?a)\<rparr>)"
    by (rule guess_step.fail) (simp_all add: run_record_failed_attempt Suc.prems(1))
  then have step: "guess_step X view email par ?a \<lparr>gs_world = ?w, gs_flight = k, gs_compared = Suc c\<rparr>" by simp
  from Suc.IH [of ?w "Suc c"] Suc.prems f(1) obtain w' where
    w': "guess_steps X view email par \<lparr>gs_world = ?w, gs_flight = k, gs_compared = Suc c\<rparr>
          \<lparr>gs_world = w', gs_flight = 0, gs_compared = Suc c + k\<rparr>" "sched w' = []" "clock w' = clock w"
        "failures (view (redis w')) (clock w) email = Some (int (Suc c + k))"
        "Suc c + k < 5 \<longrightarrow> locked (view (redis w')) (clock w) email = locked (view (redis ?w)) (clock w) email"
    by auto
  have "guess_steps X view email par ?a \<lparr>gs_world = w', gs_flight = 0, gs_compared = Suc c + k\<rparr>"
    using step w'(1) by (rule converse_rtranclp_into_rtranclp)
  with w'(2-5) f(3) show ?case by (intro exI [of _ w']) auto
qed

lemma guesses_one_by_one:
  assumes "sched w = []" and "failures (view (redis w)) (clock w) email = Some 0" and "\<not> locked (view (redis w)) (clock w) email"
    and "1 \<le> par"
  shows "n \<le> 4 \<Longrightarrow> \<exists>w'. guess_steps X view email par \<lparr>gs_world = w, gs_flight = 0, gs_compared = 0\<rparr>
      \<lparr>gs_world = w', gs_flight = 0, gs_compared = n\<rparr> \<and> sched w' = [] \<and> clock w' = clock w \<and>
    failures (view (redis w')) (clock w) email = Some (int n) \<and> \<not> locked (view (redis w')) (clock w) email"
proof (induction n)
  case 0
  with assms show ?case by auto
next
  case (Suc n)
  then obtain w1 where w1: "guess_steps X view email par \<lparr>gs_world = w, gs_flight = 0, gs_compared = 0\<rparr>
      \<lparr>gs_world = w1, gs_flight = 0, gs_compared = n\<rparr>" "sched w1 = []" "clock w1 = clock w"
      "failures (view (redis w1)) (clock w1) email = Some (int n)" "\<not> locked (view (redis w1)) (clock w1) email" by auto
  have "guess_steps X view email par \<lparr>gs_world = w1, gs_flight = 0, gs_compared = n\<rparr> \<lparr>gs_world = w1, gs_flight = 1, gs_compared = n\<rparr>"
    by (rule guess_checks [OF w1(2,5) assms(4)])
  moreover from guess_fails [OF w1(2,4), of 1 par] Suc.prems obtain w2 where
    "guess_steps X view email par \<lparr>gs_world = w1, gs_flight = 1, gs_compared = n\<rparr> \<lparr>gs_world = w2, gs_flight = 0, gs_compared = n + 1\<rparr>"
    "sched w2 = []" "clock w2 = clock w1" "failures (view (redis w2)) (clock w1) email = Some (int (n + 1))"
    "n + 1 < 5 \<longrightarrow> locked (view (redis w2)) (clock w1) email = locked (view (redis w1)) (clock w1) email" by auto
  ultimately show ?case using w1 Suc.prems by (intro exI [of _ w2]) (auto intro: rtranclp_trans)
qed

end

text \<open>
  C6: the lock stops an attacker who guesses one password after another at the fifth. One who has up to
  \<open>par\<close> guesses in flight gets \<open>4 + par\<close> passwords compared before the lock stops all further
  ones: never more, and with the right timing as many as that.
\<close>
theorem parallel_guesses:
  assumes "services X view" and "sched w = []" and "1 \<le> par" and "4 + int par < 2 ^ 63 - 1"
    and "failures (view (redis w)) (clock w) email = Some 0" and "\<not> locked (view (redis w)) (clock w) email"
    and "start = \<lparr>gs_world = w, gs_flight = 0, gs_compared = 0\<rparr>"
  shows "(\<forall>a. guess_steps X view email par start a \<longrightarrow> gs_compared a \<le> 4 + par) \<and>
    (\<exists>a. guess_steps X view email par start a \<and> gs_compared a = 4 + par)"
proof (intro conjI allI impI)
  fix a assume "guess_steps X view email par start a"
  moreover have "guess_inv view email par start" using assms(2,5) by (simp add: guess_inv_def assms(7))
  ultimately have "guess_inv view email par a"
    by (induction rule: rtranclp_induct) (auto intro: services.guess_step_inv [OF assms(1,4)])
  then show "gs_compared a \<le> 4 + par" by (simp add: guess_inv_def)
next
  from services.guesses_one_by_one [OF assms(1,2,5,6,3), of 4] obtain w1 where
    w1: "guess_steps X view email par start \<lparr>gs_world = w1, gs_flight = 0, gs_compared = 4\<rparr>" "sched w1 = []"
      "failures (view (redis w1)) (clock w1) email = Some (int 4)" "\<not> locked (view (redis w1)) (clock w1) email"
    by (auto simp: assms(7))
  have "guess_steps X view email par \<lparr>gs_world = w1, gs_flight = 0, gs_compared = 4\<rparr> \<lparr>gs_world = w1, gs_flight = par, gs_compared = 4\<rparr>"
    by (rule services.guess_checks [OF assms(1) w1(2,4)]) simp
  moreover from services.guess_fails [OF assms(1) w1(2,3), of par par] assms(4) obtain w2 where
    "guess_steps X view email par \<lparr>gs_world = w1, gs_flight = par, gs_compared = 4\<rparr> \<lparr>gs_world = w2, gs_flight = 0, gs_compared = 4 + par\<rparr>"
    by auto
  ultimately have "guess_steps X view email par start \<lparr>gs_world = w2, gs_flight = 0, gs_compared = 4 + par\<rparr>"
    using w1(1) by (meson rtranclp_trans)
  then show "\<exists>a. guess_steps X view email par start a \<and> gs_compared a = 4 + par" by (intro exI [of _ "\<lparr>gs_world = w2, gs_flight = 0, gs_compared = 4 + par\<rparr>"]) (simp only: guessing.simps simp_thms)
qed

theorem parallel_guesses_witness:
  "\<exists>a. guess_steps (demo_ext []) map_of ''a'' 100 \<lparr>gs_world = demo_world demo_db 0, gs_flight = 0, gs_compared = 0\<rparr> a \<and>
     gs_compared a = 104"
  using conjunct2 [OF parallel_guesses [OF demo.services_axioms [of "[]"] _ _ _ _ _ refl, of "demo_world demo_db 0" 100 "''a''"]]
  by (simp add: demo_world_def failures_def locked_def live_def)

end
