(* ===== verification/GzipPool.thy ===== *)
theory GzipPool
  imports Middleware
begin

text \<open>
  The writers that \<open>internal/middleware/compress.go\<close> keeps in a pool, under requests that run at the
  same time: taking one, \<open>Reset\<close>, the writes of the handlers, and the deferred \<open>Close\<close> and \<open>Put\<close>.
  What \<open>compress/gzip\<close> does with the bytes is left open but for its contract: a writer may hold bytes
  back until it is closed, and sends what it has to the writer that it was last reset to.
\<close>

section \<open>Writers and requests\<close>

record gz_writer =
  gw_target :: "nat option"
  gw_pending :: "byte list"

text \<open>Where a request stands in the handler: what it has still to do with its writer.\<close>

datatype gz_phase =
  Got nat
| Serving nat
| Closed nat
| Finished

text \<open>
  A writer is its place in \<open>gz_writers\<close>. For each request: what of the stream has reached its
  response and whether the stream is complete; what its handlers have written.
\<close>

record gz_pool =
  gz_pooled :: "nat list"
  gz_writers :: "gz_writer list"
  gz_phases :: "gz_phase list"
  gz_streams :: "(byte list \<times> bool) list"
  gz_written :: "byte list list"

definition no_writers :: gz_pool where
  "no_writers = \<lparr>gz_pooled = [], gz_writers = [], gz_phases = [], gz_streams = [], gz_written = []\<rparr>"

text \<open>\<open>New\<close> makes a writer for \<open>io.Discard\<close>; \<open>Get\<close> takes one that is in the pool, or a new one.\<close>

definition new_gz_writer :: gz_writer where
  "new_gz_writer = \<lparr>gw_target = None, gw_pending = []\<rparr>"

definition gz_arrive :: "nat \<Rightarrow> gz_pool \<Rightarrow> gz_pool" where
  "gz_arrive w g = g\<lparr>gz_phases := gz_phases g @ [Got w], gz_streams := gz_streams g @ [([], False)], gz_written := gz_written g @ [[]]\<rparr>"

definition gz_get :: "nat \<Rightarrow> gz_pool \<Rightarrow> gz_pool" where
  "gz_get w g = gz_arrive w (g\<lparr>gz_pooled := remove1 w (gz_pooled g)\<rparr>)"

definition gz_get_new :: "gz_pool \<Rightarrow> gz_pool" where
  "gz_get_new g = gz_arrive (length (gz_writers g)) (g\<lparr>gz_writers := gz_writers g @ [new_gz_writer]\<rparr>)"

definition gz_reset :: "nat \<Rightarrow> nat \<Rightarrow> gz_pool \<Rightarrow> gz_pool" where
  "gz_reset w n g = g\<lparr>gz_writers := (gz_writers g)[w := \<lparr>gw_target = Some n, gw_pending = []\<rparr>]\<rparr>"

text \<open>Bytes and, at the end, the trailer go to the response that the writer writes for.\<close>

definition gz_send :: "nat \<Rightarrow> byte list \<Rightarrow> bool \<Rightarrow> gz_pool \<Rightarrow> gz_pool" where
  "gz_send w bs end g =
     (case gw_target (gz_writers g ! w) of
        None \<Rightarrow> g
      | Some n \<Rightarrow> g\<lparr>gz_streams := (gz_streams g)[n := (fst (gz_streams g ! n) @ bs, end)]\<rparr>)"

text \<open>A write may send \<open>k\<close> of the bytes that have come together, and holds back the rest.\<close>

definition gz_write :: "nat \<Rightarrow> byte list \<Rightarrow> nat \<Rightarrow> gz_pool \<Rightarrow> gz_pool" where
  "gz_write w bs k g =
     (let p = gw_pending (gz_writers g ! w) @ bs
      in (gz_send w (take k p) False g)\<lparr>gz_writers := (gz_writers g)[w := (gz_writers g ! w)\<lparr>gw_pending := drop k p\<rparr>]\<rparr>)"

definition gz_close :: "nat \<Rightarrow> gz_pool \<Rightarrow> gz_pool" where
  "gz_close w g =
     (gz_send w (gw_pending (gz_writers g ! w)) True g)
       \<lparr>gz_writers := (gz_writers g)[w := (gz_writers g ! w)\<lparr>gw_pending := []\<rparr>]\<rparr>"

definition gz_put :: "nat \<Rightarrow> gz_pool \<Rightarrow> gz_pool" where
  "gz_put w g = g\<lparr>gz_pooled := w # gz_pooled g\<rparr>"

definition at_phase :: "nat \<Rightarrow> gz_phase \<Rightarrow> gz_pool \<Rightarrow> gz_pool" where
  "at_phase n ph g = g\<lparr>gz_phases := (gz_phases g)[n := ph]\<rparr>"

section \<open>The steps of a request\<close>

text \<open>
  The next step of request \<open>n\<close>: \<open>Some (bs, k)\<close> is a write of its handlers, \<open>None\<close> all the rest. The
  deferred calls run in the opposite order of their \<open>defer\<close>, and also if a handler panics.
\<close>

definition gz_act :: "nat \<Rightarrow> (byte list \<times> nat) option \<Rightarrow> gz_pool \<Rightarrow> gz_pool" where
  "gz_act n x g =
     (case gz_phases g ! n of
        Got w \<Rightarrow> at_phase n (Serving w) (gz_reset w n g)
      | Serving w \<Rightarrow>
          (case x of
             Some (bs, k) \<Rightarrow> (gz_write w bs k g)\<lparr>gz_written := (gz_written g)[n := gz_written g ! n @ bs]\<rparr>
           | None \<Rightarrow> at_phase n (Closed w) (gz_close w g))
      | Closed w \<Rightarrow> at_phase n Finished (gz_put w g)
      | Finished \<Rightarrow> g)"

text \<open>The runtime may empty the pool at any time.\<close>

inductive gz_step :: "gz_pool \<Rightarrow> gz_pool \<Rightarrow> bool" where
  get: "w \<in> set (gz_pooled g) \<Longrightarrow> gz_step g (gz_get w g)"
| get_new: "gz_step g (gz_get_new g)"
| act: "n < length (gz_phases g) \<Longrightarrow> gz_step g (gz_act n x g)"
| forget: "gz_step g (g\<lparr>gz_pooled := remove1 w (gz_pooled g)\<rparr>)"

abbreviation gz_steps :: "gz_pool \<Rightarrow> gz_pool \<Rightarrow> bool" where
  "gz_steps \<equiv> gz_step\<^sup>*\<^sup>*"

section \<open>No two requests share a writer\<close>

definition holder :: "gz_phase \<Rightarrow> nat option" where
  "holder ph = (case ph of Got w \<Rightarrow> Some w | Serving w \<Rightarrow> Some w | Closed w \<Rightarrow> Some w | Finished \<Rightarrow> None)"

definition owners_ok :: "gz_pool \<Rightarrow> bool" where
  "owners_ok g \<longleftrightarrow> distinct (gz_pooled g) \<and> (\<forall>w \<in> set (gz_pooled g). w < length (gz_writers g)) \<and>
     (\<forall>n < length (gz_phases g). \<forall>w. holder (gz_phases g ! n) = Some w \<longrightarrow>
        w < length (gz_writers g) \<and> w \<notin> set (gz_pooled g) \<and>
        (\<forall>m < length (gz_phases g). m \<noteq> n \<longrightarrow> holder (gz_phases g ! m) \<noteq> Some w))"

definition stream_ok :: "gz_pool \<Rightarrow> nat \<Rightarrow> bool" where
  "stream_ok g n \<longleftrightarrow>
     (case gz_phases g ! n of
        Got _ \<Rightarrow> gz_streams g ! n = ([], False) \<and> gz_written g ! n = []
      | Serving w \<Rightarrow> gw_target (gz_writers g ! w) = Some n \<and> \<not> snd (gz_streams g ! n) \<and>
          fst (gz_streams g ! n) @ gw_pending (gz_writers g ! w) = gz_written g ! n
      | _ \<Rightarrow> gz_streams g ! n = (gz_written g ! n, True))"

definition gz_ok :: "gz_pool \<Rightarrow> bool" where
  "gz_ok g \<longleftrightarrow> owners_ok g \<and> length (gz_streams g) = length (gz_phases g) \<and> length (gz_written g) = length (gz_phases g) \<and>
     (\<forall>n < length (gz_phases g). stream_ok g n)"

named_theorems gz_defs
declare gz_arrive_def [gz_defs] gz_get_def [gz_defs] gz_get_new_def [gz_defs] gz_reset_def [gz_defs] gz_send_def [gz_defs]
  gz_write_def [gz_defs] gz_close_def [gz_defs] gz_put_def [gz_defs] at_phase_def [gz_defs]

lemma owner_unique:
  "owners_ok g \<Longrightarrow> n < length (gz_phases g) \<Longrightarrow> m < length (gz_phases g) \<Longrightarrow>
   holder (gz_phases g ! n) = Some w \<Longrightarrow> holder (gz_phases g ! m) = Some w \<Longrightarrow> m = n"
  unfolding owners_ok_def by metis

text \<open>Steps that change who has which writer.\<close>

lemma owners_get: "owners_ok g \<Longrightarrow> w \<in> set (gz_pooled g) \<Longrightarrow> owners_ok (gz_get w g)"
  by (auto simp: owners_ok_def gz_defs holder_def nth_append less_Suc_eq dest: in_set_remove1)

lemma owners_get_new: "owners_ok g \<Longrightarrow> owners_ok (gz_get_new g)"
  by (fastforce simp: owners_ok_def gz_defs holder_def nth_append less_Suc_eq)

lemma owners_forget: "owners_ok g \<Longrightarrow> owners_ok (g\<lparr>gz_pooled := remove1 w (gz_pooled g)\<rparr>)"
  by (auto simp: owners_ok_def dest: notin_set_remove1)

text \<open>A step that keeps the holders keeps the owners; so does giving one back.\<close>

lemma owners_same:
  assumes "owners_ok g" and "gz_pooled g' = gz_pooled g" and "length (gz_writers g') = length (gz_writers g)"
    and "map holder (gz_phases g') = map holder (gz_phases g)"
  shows "owners_ok g'"
proof -
  have l: "length (gz_phases g') = length (gz_phases g)" using assms(4) by (rule map_eq_imp_length_eq)
  then have "holder (gz_phases g' ! n) = holder (gz_phases g ! n)" if "n < length (gz_phases g)" for n
    using that assms(4) by (metis nth_map)
  with assms(1-3) l show ?thesis by (simp add: owners_ok_def)
qed

lemma same_holder: "n < length phs \<Longrightarrow> holder ph = holder (phs ! n) \<Longrightarrow> map holder (phs[n := ph]) = map holder phs"
  by (simp add: map_update list_update_same_conv)

lemma owners_put:
  assumes "owners_ok g" and "n < length (gz_phases g)" and "gz_phases g ! n = Closed w"
  shows "owners_ok (at_phase n Finished (gz_put w g))"
proof -
  let ?ph = "(gz_phases g)[n := Finished]"
  have n: "holder (gz_phases g ! n) = Some w" using assms(3) by (simp add: holder_def)
  have w: "w < length (gz_writers g)" "w \<notin> set (gz_pooled g)"
    using assms(1,2) n unfolding owners_ok_def by blast+
  have h: "m \<noteq> n \<and> holder (gz_phases g ! m) = Some u" if "m < length (gz_phases g)" "holder (?ph ! m) = Some u" for m u
    using that assms(2) by (cases "m = n") (simp_all add: holder_def)
  have "u < length (gz_writers g) \<and> u \<noteq> w \<and> u \<notin> set (gz_pooled g) \<and>
      (\<forall>k < length (gz_phases g). k \<noteq> m \<longrightarrow> holder (?ph ! k) \<noteq> Some u)"
    if m: "m < length (gz_phases g)" "holder (?ph ! m) = Some u" for m u
  proof (intro conjI allI impI notI)
    note hm = h [OF m]
    show "u < length (gz_writers g)" using assms(1) m(1) hm unfolding owners_ok_def by blast
    show False if "u \<in> set (gz_pooled g)" using assms(1) m(1) hm that unfolding owners_ok_def by blast
    show False if "u = w" using owner_unique [OF assms(1,2) m(1) n] hm that by blast
    show False if "k < length (gz_phases g)" "k \<noteq> m" "holder (?ph ! k) = Some u" for k
      using owner_unique [OF assms(1) m(1) that(1), of u] h [OF that(1,3)] hm that(2) by blast
  qed
  moreover have "distinct (gz_pooled g)" "\<forall>u \<in> set (gz_pooled g). u < length (gz_writers g)"
    using assms(1) unfolding owners_ok_def by blast+
  ultimately show ?thesis using w by (simp add: owners_ok_def gz_defs)
qed

section \<open>Every response is the stream of its own request\<close>

text \<open>A step of request \<open>n\<close> with writer \<open>w\<close> concerns no other request.\<close>

lemma stream_frame:
  assumes "stream_ok g m" and "gz_phases g' ! m = gz_phases g ! m" and "gz_streams g' ! m = gz_streams g ! m"
    and "gz_written g' ! m = gz_written g ! m"
    and "\<And>u. holder (gz_phases g ! m) = Some u \<Longrightarrow> gz_writers g' ! u = gz_writers g ! u"
  shows "stream_ok g' m"
  using assms by (auto simp: stream_ok_def holder_def split: gz_phase.splits)

lemma gz_arrive_ok:
  assumes "gz_ok g0" and "owners_ok (gz_arrive w g)" and "gz_phases g = gz_phases g0" "gz_streams g = gz_streams g0" "gz_written g = gz_written g0"
    and "\<And>u. u < length (gz_writers g0) \<Longrightarrow> gz_writers g ! u = gz_writers g0 ! u"
  shows "gz_ok (gz_arrive w g)"
proof -
  have l: "length (gz_streams g0) = length (gz_phases g0)" "length (gz_written g0) = length (gz_phases g0)"
    using assms(1) by (simp_all add: gz_ok_def)
  have "stream_ok (gz_arrive w g) m" if "m < length (gz_phases g0)" for m
  proof (rule stream_frame)
    show "stream_ok g0 m" using assms(1) that by (simp add: gz_ok_def)
    show "gz_writers (gz_arrive w g) ! u = gz_writers g0 ! u" if "holder (gz_phases g0 ! m) = Some u" for u
      using assms(1,6) that \<open>m < length (gz_phases g0)\<close> by (simp add: gz_ok_def owners_ok_def gz_arrive_def)
  qed (use that l assms(3-5) in \<open>simp_all add: gz_arrive_def nth_append\<close>)
  moreover have "stream_ok (gz_arrive w g) (length (gz_phases g0))"
    using l assms(3-5) by (simp add: stream_ok_def gz_arrive_def nth_append)
  ultimately show ?thesis using assms(2-5) l by (simp add: gz_ok_def gz_arrive_def less_Suc_eq)
qed

lemma gz_act_ok:
  assumes "gz_ok g" and "n < length (gz_phases g)"
  shows "gz_ok (gz_act n x g)"
proof -
  let ?g = "gz_act n x g"
  have own: "owners_ok g" and l: "length (gz_streams g) = length (gz_phases g)" "length (gz_written g) = length (gz_phases g)"
    and n: "stream_ok g n" and all: "\<And>m. m < length (gz_phases g) \<Longrightarrow> stream_ok g m"
    using assms by (simp_all add: gz_ok_def)
  have w: "w < length (gz_writers g)" if "holder (gz_phases g ! n) = Some w" for w
    using own assms(2) that unfolding owners_ok_def by blast
  note act = gz_act_def gz_defs Let_def
  have lens: "length (gz_phases ?g) = length (gz_phases g)" "length (gz_streams ?g) = length (gz_streams g)"
      "length (gz_written ?g) = length (gz_written g)"
    by (simp_all add: act split: gz_phase.split option.split prod.split)
  have "owners_ok ?g"
  proof (cases "gz_phases g ! n")
    case (Closed w)
    then show ?thesis using owners_put [OF own assms(2)] by (simp add: gz_act_def)
  next
    case Finished
    then show ?thesis using own by (simp add: gz_act_def)
  next
    case (Got w)
    show ?thesis by (rule owners_same [OF own]) (simp_all add: act Got same_holder [OF assms(2)] holder_def)
  next
    case (Serving w)
    then have "holder (Closed w) = holder (gz_phases g ! n)" by (simp add: holder_def)
    then have "map holder ((gz_phases g)[n := Closed w]) = map holder (gz_phases g)" by (rule same_holder [OF assms(2)])
    then show ?thesis
      by (intro owners_same [OF own]) (simp_all add: act Serving split: option.split prod.split)
  qed
  moreover have "stream_ok ?g m" if m: "m < length (gz_phases g)" for m
  proof (cases "m = n")
    case True
    have joined: "s @ take k (p @ bs) @ drop k (p @ bs) = v @ bs" if "s @ p = v" for s p v bs :: "byte list" and k
      using that by (simp del: take_append drop_append)
    show ?thesis using n w l m True
      by (cases "gz_phases g ! n")
        (auto simp: stream_ok_def act holder_def joined simp del: take_append drop_append split: option.split prod.split)
  next
    case False
    show ?thesis
    proof (rule stream_frame [OF all [OF m]])
      have "holder (gz_phases g ! n) \<noteq> Some u" if "holder (gz_phases g ! m) = Some u" for u
        using owner_unique [OF own assms(2) m] that False by blast
      then show "gz_writers ?g ! u = gz_writers g ! u" if "holder (gz_phases g ! m) = Some u" for u
        using that by (cases "gz_phases g ! n") (auto simp: act holder_def split: option.split prod.split)
    qed (use False n in \<open>cases "gz_phases g ! n"; auto simp: act stream_ok_def split: option.split prod.split\<close>)+
  qed
  ultimately show ?thesis using lens l by (simp add: gz_ok_def)
qed

lemma gz_step_ok: "gz_step g g' \<Longrightarrow> gz_ok g \<Longrightarrow> gz_ok g'"
proof (induction rule: gz_step.induct)
  case (get w g)
  then have "owners_ok (gz_get w g)" by (simp add: gz_ok_def owners_get)
  then show ?case unfolding gz_get_def using get by (intro gz_arrive_ok [of g]) simp_all
next
  case (get_new g)
  then have "owners_ok (gz_get_new g)" by (simp add: gz_ok_def owners_get_new)
  then show ?case unfolding gz_get_new_def using get_new by (intro gz_arrive_ok [of g]) (simp_all add: nth_append)
next
  case (act n g x)
  then show ?case by (simp add: gz_act_ok)
next
  case (forget g w)
  moreover have "stream_ok (g\<lparr>gz_pooled := remove1 w (gz_pooled g)\<rparr>) n = stream_ok g n" for n
    by (auto simp: stream_ok_def split: gz_phase.split)
  ultimately show ?case by (simp add: gz_ok_def owners_forget)
qed

lemma gz_steps_ok: "gz_steps g g' \<Longrightarrow> gz_ok g \<Longrightarrow> gz_ok g'"
  by (induction rule: rtranclp_induct) (auto intro: gz_step_ok)

lemma no_writers_ok: "gz_ok no_writers"
  by (simp add: gz_ok_def owners_ok_def no_writers_def)

text \<open>
  C35: however the requests that are served at the same time interleave, and whenever the runtime
  empties the pool, no two of them hold the same writer; what has reached a response is
  always a prefix of what the handlers of that request have written, and nothing of any other
  request; and when the request is over, also by a panic, all of it has reached the
  response and the stream is complete.
\<close>
theorem gzip_streams_are_separate:
  assumes "gz_steps no_writers g" and "n < length (gz_phases g)"
  shows "(\<exists>rest. gz_written g ! n = fst (gz_streams g ! n) @ rest) \<and>
    (gz_phases g ! n = Finished \<longrightarrow> gz_streams g ! n = (gz_written g ! n, True)) \<and>
    (\<forall>m w. m < length (gz_phases g) \<and> holder (gz_phases g ! n) = Some w \<and> holder (gz_phases g ! m) = Some w \<longrightarrow> m = n)"
proof -
  from gz_steps_ok [OF assms(1) no_writers_ok] have ok: "gz_ok g" .
  then have "stream_ok g n" "owners_ok g" using assms(2) by (simp_all add: gz_ok_def)
  moreover from this(1) have "\<exists>rest. gz_written g ! n = fst (gz_streams g ! n) @ rest"
    by (cases "gz_phases g ! n") (auto simp: stream_ok_def dest: sym)
  ultimately show ?thesis using owner_unique [OF _ assms(2)] by (auto simp: stream_ok_def)
qed

text \<open>Two requests, one after the other with the same writer and overlapping with a third.\<close>

definition demo_gz :: gz_pool where
  "demo_gz = fold (\<lambda>f g. f g)
     [gz_get_new, gz_act 0 None, gz_act 0 (Some ([1, 2], 1)), gz_get_new, gz_act 1 None, gz_act 0 None, gz_act 0 None,
      gz_get 0, gz_act 1 (Some ([7], 0)), gz_act 2 None, gz_act 2 (Some ([9], 0)), gz_act 1 None, gz_act 2 None] no_writers"

lemma demo_gz_steps: "gz_steps no_writers demo_gz"
proof -
  have act: "gz_steps s g \<Longrightarrow> n < length (gz_phases g) \<Longrightarrow> gz_steps s (gz_act n x g)" for s n x g
    by (auto intro: rtranclp.rtrancl_into_rtrancl gz_step.act)
  have new: "gz_steps s g \<Longrightarrow> gz_steps s (gz_get_new g)" for s g
    by (auto intro: rtranclp.rtrancl_into_rtrancl gz_step.get_new)
  have get: "gz_steps s g \<Longrightarrow> w \<in> set (gz_pooled g) \<Longrightarrow> gz_steps s (gz_get w g)" for s w g
    by (auto intro: rtranclp.rtrancl_into_rtrancl gz_step.get)
  show ?thesis unfolding demo_gz_def fold_simps
    by (intro act new get rtranclp.rtrancl_refl) code_simp+
qed

theorem gzip_streams_are_separate_witness:
  "(gz_phases demo_gz ! 0 = Finished \<and> gz_streams demo_gz ! 0 = ([1, 2], True)) \<and> gz_streams demo_gz ! 2 = ([9], True)"
proof -
  have "gz_phases demo_gz ! 0 = Finished" "gz_written demo_gz ! 0 = [1, 2]" "0 < length (gz_phases demo_gz)"
    "gz_streams demo_gz ! 2 = ([9], True)" by code_simp+
  with gzip_streams_are_separate [OF demo_gz_steps, of 0] show ?thesis by simp
qed

end
