(* ===== verification/RefreshRace.thy ===== *)
theory RefreshRace
  imports AuthProps
begin

text \<open>
  Refreshing under concurrency. \<open>RefreshToken\<close> reads the row of the token in one statement and
  deletes it in another, and it does not look at how many rows it deleted: a request that has
  read the row goes on, whether or not another request has used the token in between.
\<close>

section \<open>The two halves of a refresh\<close>

text \<open>What \<open>RefreshToken\<close> does once it has read the row \<open>token\<close>.\<close>

definition refresh_exchange ::
  "'r ext \<Rightarrow> config \<Rightarrow> string \<Rightarrow> string \<Rightarrow> string \<Rightarrow> string \<Rightarrow> refresh_token \<Rightarrow> ('r world, go_error + auth_response) state" where
  "refresh_exchange X cfg hashed deviceID ipAddress userAgent token = do {
     now \<leftarrow> read_state clock;
     if t_expires token < now then do {
       _ \<leftarrow> sql_exec X (delete_refresh_token_by_id (t_id token));
       ret (Inl (Msg ''refresh token expired''))
     } else do {
       _ \<leftarrow> session_delete_by_hash X hashed;
       _ \<leftarrow> sql_exec X (delete_refresh_token_by_id (t_id token));
       (user, err) \<leftarrow> user_find_by_id (t_user token);
       case (user, err) of
         (Some u, None) \<Rightarrow> generate_tokens X cfg u deviceID ipAddress userAgent
       | _ \<Rightarrow> ret (Inl (Msg ''user not found''))
     }
   }"

lemma refresh_halves:
  "refresh_tokens_op X cfg tok dev ip ua =
     on_error (sql_row (find_refresh_token (hash_token X tok))) (\<lambda>_. ret (Inl (Msg ''invalid refresh token'')))
       (refresh_exchange X cfg (hash_token X tok) dev ip ua)"
  unfolding refresh_tokens_op_def refresh_exchange_def Let_def by (rule refl)

text \<open>
  An exchange succeeds if the user exists and the new token can be stored. Whether the old
  token is still there is not among the conditions.
\<close>

lemma exchange_accepts:
  assumes "sched w = []" and "0 < MaxActiveSessions cfg" and "clock w \<le> t_expires t"
    and u: "find_user_by_id (t_user t) (db w) = Some u"
    and at: "jwt_sign X (private_key w) (access_payload_for X cfg u (clock w) (draws w + 2)) = Inr at"
    and rt: "jwt_sign X (private_key w) (refresh_payload_for X cfg u (clock w) (draws w + 3)) = Inr rt"
    and "inet_ok X ip" and "fits 255 (hash_token X rt)" and "fits 255 dev"
    and "rand_uuid X (draws w + 4) \<notin> t_id ` set (refresh_tokens (db w))"
    and "hash_token X rt \<notin> t_hash ` set (refresh_tokens (db w))"
  shows "\<exists>resp w'. run_state (refresh_exchange X cfg h dev ip ua t) w = (Inr resp, w') \<and>
    AccessToken resp = at \<and> RefreshToken resp = rt"
proof -
  have "u_id u \<in> u_id ` set (users (db w))"
    using u by (auto simp: find_user_by_id_def dest: find_Some_in)
  let ?d = "(db w)\<lparr>sessions := filter (\<lambda>s. s_hash s \<noteq> h) (sessions (db w)),
         refresh_tokens := filter (\<lambda>x. t_id x \<noteq> t_id t) (refresh_tokens (db w))\<rparr>"
  have "rand_uuid X (draws w + 4) \<notin> t_id ` set (refresh_tokens ?d)" "hash_token X rt \<notin> t_hash ` set (refresh_tokens ?d)"
    using assms(10,11) by auto
  with \<open>u_id u \<in> u_id ` set (users (db w))\<close> obtain d1 where
    "insert_refresh_token (inet_ok X) (u_id u) (hash_token X rt) dev ip
      (clock w + refresh_ttl cfg) (rand_uuid X (draws w + 4)) (pg_time (clock w)) ?d = Inr ((), d1)"
    using assms(7-9) by (simp add: insert_refresh_token_def)
  with assms show ?thesis
    by (simp add: refresh_exchange_def session_delete_by_hash_def delete_session_by_hash_def
      delete_refresh_token_by_id_def user_find_by_id_def find_user_by_id_def
      generate_tokens_def generate_access_token_def generate_refresh_token_def Let_def session_create_def
      access_payload_for_def [symmetric] refresh_payload_for_def [symmetric] run_enforce_session_limit
      numeral_eq_Suc split: sum.splits prod.splits)
qed

lemma issued_row:
  assumes "issued X cfg u dev ip ua w resp w'"
  shows "\<exists>t. t_hash t = hash_token X (RefreshToken resp) \<and> t_id t = rand_uuid X (draws w + 2) \<and>
    set (refresh_tokens (db w')) \<subseteq> insert t (set (refresh_tokens (db w)))"
proof -
  let ?h = "hash_token X (RefreshToken resp)"
  obtain d1 where d1: "insert_refresh_token (inet_ok X) (u_id u) ?h dev ip (clock w + refresh_ttl cfg)
      (rand_uuid X (draws w + 2)) (pg_time (clock w)) (db w) = Inr ((), d1)"
    and w': "refresh_tokens (db w') = refresh_tokens (limit_db cfg (u_id u) (pg_time (clock w))
      (add_session X (u_id u) ?h dev ip ua (rand_uuid X (draws w + 3)) (pg_time (clock w)) d1))"
    using assms unfolding issued_def by auto
  have "set (refresh_tokens (db w')) \<subseteq> set (refresh_tokens d1)"
    unfolding w' using limit_db_tokens add_session_tokens by metis
  moreover from d1 obtain t where "refresh_tokens d1 = refresh_tokens (db w) @ [t]" "t_hash t = ?h"
    "t_id t = rand_uuid X (draws w + 2)"
    by (auto simp: insert_refresh_token_def split: if_splits)
  ultimately show ?thesis by (intro exI [of _ t]) auto
qed

lemma token_steps_users:
  "users (limit_db cfg uid now d) = users d" "users (add_session X uid h dev ip ua i now d) = users d"
  by (auto simp: limit_db_def delete_sessions_beyond_def delete_orphan_tokens_def add_session_def insert_session_def
      split: sum.splits if_splits)

text \<open>What a refresh that succeeded leaves to the next.\<close>

lemma after_refresh:
  assumes "db_ok (db w)" and "sched w = []" and "0 < MaxActiveSessions cfg"
    and "run_state (refresh_tokens_op X cfg tok dev ip ua) w = (Inr resp, w')"
  shows "sched w' = []" "clock w' = clock w" "private_key w' = private_key w" "draws w' = draws w + 8"
    "users (db w') = users (db w)"
    "t_hash ` set (refresh_tokens (db w')) \<subseteq> insert (hash_token X (RefreshToken resp)) (t_hash ` set (refresh_tokens (db w)))"
    "t_id ` set (refresh_tokens (db w')) \<subseteq> insert (rand_uuid X (draws w + 4)) (t_id ` set (refresh_tokens (db w)))"
proof -
  obtain t u where t: "find_refresh_token (hash_token X tok) (db w) = Some t"
    and i: "issued X cfg u dev ip ua (w\<lparr>draws := draws w + 2,
      db := (db w)\<lparr>sessions := filter (\<lambda>s. s_hash s \<noteq> hash_token X tok) (sessions (db w)),
                   refresh_tokens := filter (\<lambda>x. t_id x \<noteq> t_id t) (refresh_tokens (db w))\<rparr>\<rparr>) resp w'"
    using assms(2-4) by (rule refresh_success)
  from i show "sched w' = []" "clock w' = clock w" "private_key w' = private_key w" "draws w' = draws w + 8"
    using assms(2) by (auto simp: issued_def)
  show "users (db w') = users (db w)"
    using i by (auto simp: issued_def insert_refresh_token_def token_steps_users split: if_splits)
  show "t_hash ` set (refresh_tokens (db w')) \<subseteq> insert (hash_token X (RefreshToken resp)) (t_hash ` set (refresh_tokens (db w)))"
    "t_id ` set (refresh_tokens (db w')) \<subseteq> insert (rand_uuid X (draws w + 4)) (t_id ` set (refresh_tokens (db w)))"
    using issued_row [OF i] by (auto simp: numeral_eq_Suc)
qed

text \<open>
  C40: two requests with the same refresh token that both read its row before either deletes
  it are both answered with new tokens, although the first to finish has used the token up: a third
  request that comes later is rejected. (The hypotheses beside the run of the first say that
  the key signs, and that the new digest and identifiers are new and fit their columns.)
\<close>
theorem concurrent_refreshes_share_a_token:
  assumes "db_ok (db w)" and "sched w = []" and "0 < MaxActiveSessions cfg"
    and row: "find_refresh_token (hash_token X tok) (db w) = Some t"
    and first: "run_state (refresh_tokens_op X cfg tok dev ip ua) w = (Inr r1, w1)"
    and "hash_token X (RefreshToken r1) \<noteq> hash_token X tok"
    and at: "jwt_sign X (private_key w) (access_payload_for X cfg u (clock w) (draws w + 10)) = Inr at"
    and rt: "jwt_sign X (private_key w) (refresh_payload_for X cfg u (clock w) (draws w + 11)) = Inr rt"
    and fresh: "hash_token X rt \<notin> insert (hash_token X (RefreshToken r1)) (t_hash ` set (refresh_tokens (db w)))"
    and "fits 255 (hash_token X rt)"
    and "rand_uuid X (draws w + 12) \<notin> insert (rand_uuid X (draws w + 4)) (t_id ` set (refresh_tokens (db w)))"
    and "find_user_by_id (t_user t) (db w) = Some u" and "inet_ok X ip'" and "fits 255 dev'"
  shows "fst (run_state (refresh_tokens_op X cfg tok dev' ip' ua') w1) = Inl (Msg ''invalid refresh token'') \<and>
    (\<exists>r2 w2. run_state (refresh_exchange X cfg (hash_token X tok) dev' ip' ua' t) w1 = (Inr r2, w2) \<and>
       RefreshToken r2 \<noteq> RefreshToken r1)"
proof
  note a = after_refresh [OF assms(1-3) first]
  show "fst (run_state (refresh_tokens_op X cfg tok dev' ip' ua') w1) = Inl (Msg ''invalid refresh token'')"
    using used_token_is_gone [OF assms(1-3) first assms(6)]
    by (simp add: refresh_halves sql_row_def a(1) next_call_def)
  have "clock w \<le> t_expires t" using refresh_success [OF assms(2,3) first] row by force
  moreover have "find_user_by_id (t_user t) (db w1) = Some u" using assms(12) a(5) by (simp add: find_user_by_id_def)
  moreover have "rand_uuid X (draws w + 12) \<notin> t_id ` set (refresh_tokens (db w1))" using a(7) assms(11) by blast
  moreover have "hash_token X rt \<notin> t_hash ` set (refresh_tokens (db w1))" using a(6) fresh by blast
  ultimately obtain r2 w2 where "run_state (refresh_exchange X cfg (hash_token X tok) dev' ip' ua' t) w1 = (Inr r2, w2)"
    "RefreshToken r2 = rt"
    using exchange_accepts [of w1 cfg t u X at rt ip' dev' "hash_token X tok" ua'] at rt a assms(3,10,13,14)
    by (auto simp: add.commute)
  with fresh show "\<exists>r2 w2. run_state (refresh_exchange X cfg (hash_token X tok) dev' ip' ua' t) w1 = (Inr r2, w2) \<and>
       RefreshToken r2 \<noteq> RefreshToken r1" by auto
qed

definition demo_two_refreshes :: "(payload \<times> string) list" where
  "demo_two_refreshes = demo_tokens 0 3 @ [(access_payload_for (demo_ext []) demo_config alice 0 11, ''B''),
     (refresh_payload_for (demo_ext []) demo_config alice 0 12, ''S'')]"

lemmas demo_race_eval = demo_token_eval demo_two_refreshes_def demo_token_db_def demo_token_def find_refresh_token_def

theorem concurrent_refreshes_share_a_token_witness:
  "\<exists>r1 w1 r2 w2. run_state (refresh_tokens_op (demo_ext demo_two_refreshes) demo_config ''T'' ''d'' ''1'' ''x'')
       (demo_world demo_token_db 0) = (Inr r1, w1) \<and>
     run_state (refresh_exchange (demo_ext demo_two_refreshes) demo_config (hash_token (demo_ext demo_two_refreshes) ''T'')
       ''e'' ''2'' ''y'' demo_token) w1 = (Inr r2, w2) \<and> RefreshToken r1 = ''R'' \<and> RefreshToken r2 \<noteq> RefreshToken r1"
proof -
  let ?X = "demo_ext demo_two_refreshes" and ?w = "demo_world demo_token_db 0"
  have "\<exists>r w'. run_state (refresh_tokens_op ?X demo_config ''T'' ''d'' ''1'' ''x'') ?w = (Inr r, w') \<and>
      AccessToken r = ''A'' \<and> RefreshToken r = ''R''"
    by (rule refresh_accepts [where u = alice and t = demo_token])
      (simp_all add: demo_race_eval insert_refresh_token_def char_of_def bit_0)
  then obtain r1 w1 where first: "run_state (refresh_tokens_op ?X demo_config ''T'' ''d'' ''1'' ''x'') ?w = (Inr r1, w1)"
    and r1: "RefreshToken r1 = ''R''" by blast
  have row: "find_refresh_token (hash_token ?X ''T'') (db ?w) = Some demo_token"
    by (simp add: demo_race_eval char_of_def bit_0)
  have user: "find_user_by_id (t_user demo_token) (db ?w) = Some alice" by (simp add: demo_race_eval)
  have at: "jwt_sign ?X (private_key ?w) (access_payload_for ?X demo_config alice (clock ?w) (draws ?w + 10)) = Inr ''B''"
    and rt: "jwt_sign ?X (private_key ?w) (refresh_payload_for ?X demo_config alice (clock ?w) (draws ?w + 11)) = Inr ''S''"
    by (simp_all add: demo_race_eval)
  have "\<exists>r2 w2. run_state (refresh_exchange ?X demo_config (hash_token ?X ''T'') ''e'' ''2'' ''y'' demo_token) w1 = (Inr r2, w2) \<and>
      RefreshToken r2 \<noteq> RefreshToken r1"
    using concurrent_refreshes_share_a_token [OF _ _ _ row first _ at rt _ _ _ user] demo_token_db_ok
    by (simp add: r1 demo_race_eval char_of_def bit_0)
  with first r1 show ?thesis by blast
qed

end
