(* ===== verification/IssueRace.thy ===== *)
theory IssueRace
  imports RefreshRace
begin

text \<open>
  Logins, refreshes and logouts that run at the same time. Between two SQL statements of one
  request those of others may run: a request is a job with a phase, each step runs the next
  statement of one job. PostgreSQL runs each statement on its own here, and the database
  works; what fails is what the constraints reject.
\<close>

section \<open>Jobs\<close>

text \<open>
  The phases name what comes next: \<open>Looking\<close> to \<open>Removed\<close> are those of \<open>RefreshToken\<close>, which
  then issues tokens as a login does, in \<open>Storing\<close> to \<open>Cleaning\<close>.
\<close>

datatype phase =
  Looking
| Expired refresh_token
| Found refresh_token
| Unlinked refresh_token
| Removed refresh_token
| Storing
| Recording
| Trimming
| Cleaning
| Answered
| Refused

text \<open>\<open>j_old\<close> is the digest of the token that a refresh presents, \<open>j_hash\<close> that of the new one.\<close>

record job =
  j_old :: string
  j_user :: uuid
  j_hash :: string
  j_device :: string
  j_ip :: string
  j_agent :: string
  j_phase :: phase

abbreviation goto :: "phase \<Rightarrow> job \<Rightarrow> job" where
  "goto p j \<equiv> j\<lparr>j_phase := p\<rparr>"

definition effect :: "'a stmt \<Rightarrow> uuid \<Rightarrow> time \<Rightarrow> db \<Rightarrow> db" where
  "effect st i now d = (case st i (pg_time now) d of Inl _ \<Rightarrow> d | Inr (_, d') \<Rightarrow> d')"

text \<open>One statement; \<open>i\<close> is the identifier that the database makes up for a new row.\<close>

definition refresh_step :: "uuid \<Rightarrow> time \<Rightarrow> job \<Rightarrow> db \<Rightarrow> job \<times> db" where
  "refresh_step i now j d =
     (case j_phase j of
        Looking \<Rightarrow>
          (case find_refresh_token (j_old j) d of
             None \<Rightarrow> (goto Refused j, d)
           | Some t \<Rightarrow> (goto (if t_expires t < now then Expired t else Found t) j, d))
      | Expired t \<Rightarrow> (goto Refused j, effect (delete_refresh_token_by_id (t_id t)) i now d)
      | Found t \<Rightarrow> (goto (Unlinked t) j, effect (delete_session_by_hash (j_old j)) i now d)
      | Unlinked t \<Rightarrow> (goto (Removed t) j, effect (delete_refresh_token_by_id (t_id t)) i now d)
      | Removed t \<Rightarrow>
          (case find_user_by_id (t_user t) d of
             None \<Rightarrow> (goto Refused j, d)
           | Some u \<Rightarrow> (goto Storing (j\<lparr>j_user := u_id u\<rparr>), d))
      | _ \<Rightarrow> (j, d))"

definition issue_step :: "(string \<Rightarrow> bool) \<Rightarrow> config \<Rightarrow> uuid \<Rightarrow> time \<Rightarrow> job \<Rightarrow> db \<Rightarrow> job \<times> db" where
  "issue_step iok cfg i now j d =
     (case j_phase j of
        Storing \<Rightarrow>
          (case insert_refresh_token iok (j_user j) (j_hash j) (j_device j) (j_ip j) (now + refresh_ttl cfg)
                  i (pg_time now) d of
             Inl _ \<Rightarrow> (goto Refused j, d)
           | Inr (_, d') \<Rightarrow> (goto Recording j, d'))
      | Recording \<Rightarrow> (goto (if MaxActiveSessions cfg \<le> 0 then Answered else Trimming) j,
          effect (insert_session iok (j_user j) (j_hash j) (j_device j) (j_ip j) (j_agent j)) i now d)
      | Trimming \<Rightarrow> (goto Cleaning j, effect (delete_sessions_beyond (j_user j) (MaxActiveSessions cfg)) i now d)
      | Cleaning \<Rightarrow> (goto Answered j, effect (delete_orphan_tokens (j_user j)) i now d)
      | _ \<Rightarrow> (j, d))"

definition advance :: "(string \<Rightarrow> bool) \<Rightarrow> config \<Rightarrow> uuid \<Rightarrow> time \<Rightarrow> job \<Rightarrow> db \<Rightarrow> job \<times> db" where
  "advance iok cfg i now j d =
     (if j_phase j \<in> {Storing, Recording, Trimming, Cleaning} then issue_step iok cfg i now j d
      else refresh_step i now j d)"

lemmas advance_defs = advance_def refresh_step_def issue_step_def

section \<open>Interleaving\<close>

record conc =
  c_db :: db
  c_now :: time
  c_jobs :: "job list"

definition act :: "(string \<Rightarrow> bool) \<Rightarrow> config \<Rightarrow> nat \<Rightarrow> uuid \<Rightarrow> conc \<Rightarrow> conc" where
  "act iok cfg n i c =
     (let (j, d) = advance iok cfg i (c_now c) (c_jobs c ! n) (c_db c)
      in c\<lparr>c_db := d, c_jobs := (c_jobs c)[n := j]\<rparr>)"

text \<open>
  Requests arrive at any time: a refresh with nothing done, a login when it has checked the
  password. The two statements of a logout may come from anywhere, too.
\<close>

inductive conc_step :: "(string \<Rightarrow> bool) \<Rightarrow> config \<Rightarrow> conc \<Rightarrow> conc \<Rightarrow> bool" for iok cfg where
  act: "n < length (c_jobs c) \<Longrightarrow> conc_step iok cfg c (act iok cfg n i c)"
| arrive: "j_phase j \<in> {Looking, Storing} \<Longrightarrow> conc_step iok cfg c (c\<lparr>c_jobs := c_jobs c @ [j]\<rparr>)"
| drop_session: "conc_step iok cfg c (c\<lparr>c_db := effect (delete_session_by_hash h) i (c_now c) (c_db c)\<rparr>)"
| drop_token: "conc_step iok cfg c (c\<lparr>c_db := effect (delete_refresh_token_by_hash h) i (c_now c) (c_db c)\<rparr>)"
| tick: "c_now c \<le> t \<Longrightarrow> conc_step iok cfg c (c\<lparr>c_now := t\<rparr>)"

inductive conc_reachable :: "(string \<Rightarrow> bool) \<Rightarrow> config \<Rightarrow> conc \<Rightarrow> conc \<Rightarrow> bool" for iok cfg c0 where
  start: "conc_reachable iok cfg c0 c0"
| step: "conc_reachable iok cfg c0 c \<Longrightarrow> conc_step iok cfg c c' \<Longrightarrow> conc_reachable iok cfg c0 c'"

text \<open>A schedule: which job acts, and the identifier for its new row.\<close>

fun play :: "(string \<Rightarrow> bool) \<Rightarrow> config \<Rightarrow> (nat \<times> uuid) list \<Rightarrow> conc \<Rightarrow> conc" where
  "play iok cfg [] c = c"
| "play iok cfg ((n, i) # xs) c = play iok cfg xs (act iok cfg n i c)"

lemma act_length [simp]: "length (c_jobs (act iok cfg n i c)) = length (c_jobs c)"
  by (simp add: act_def split: prod.split)

lemma play_append: "play iok cfg (xs @ ys) c = play iok cfg ys (play iok cfg xs c)"
  by (induction iok cfg xs c rule: play.induct) simp_all

lemma play_reachable:
  "conc_reachable iok cfg c0 c \<Longrightarrow> \<forall>(n, i) \<in> set xs. n < length (c_jobs c) \<Longrightarrow> conc_reachable iok cfg c0 (play iok cfg xs c)"
proof (induction xs arbitrary: c)
  case (Cons x xs)
  obtain n i where x: "x = (n, i)" by fastforce
  with Cons.prems have "conc_reachable iok cfg c0 (act iok cfg n i c)"
    by (auto intro: conc_reachable.step conc_step.act)
  with Cons show ?case by (simp add: x)
qed simp

section \<open>Integrity and the session limit under every interleaving\<close>

lemma effect_keeps: "stmt_keeps I st \<Longrightarrow> I d \<Longrightarrow> I (effect st i now d)"
  by (auto simp: effect_def dest: stmt_keepsD split: sum.split)

lemma advance_db_ok: "db_ok d \<Longrightarrow> db_ok (snd (advance iok cfg i now j d))"
  by (auto simp: advance_defs intro: effect_keeps db_keeps stmt_keepsD [OF insert_refresh_token_ok]
      split: phase.split option.split sum.split)

text \<open>The jobs of a user between the insertion of their session and the statement that trims.\<close>

definition owes :: "uuid \<Rightarrow> job \<Rightarrow> nat" where
  "owes u j = (if j_user j = u \<and> j_phase j = Trimming then 1 else 0)"

fun untrimmed :: "uuid \<Rightarrow> job list \<Rightarrow> nat" where
  "untrimmed u [] = 0"
| "untrimmed u (j # js) = owes u j + untrimmed u js"

lemma untrimmed_update:
  "n < length js \<Longrightarrow> untrimmed u (js[n := j]) + owes u (js ! n) = untrimmed u js + owes u j"
proof (induction js arbitrary: n)
  case (Cons x js)
  then show ?case by (cases n) auto
qed simp

lemma owes_le: "n < length js \<Longrightarrow> owes u (js ! n) \<le> untrimmed u js"
proof (induction js arbitrary: n)
  case (Cons x js)
  then show ?case by (cases n) (auto intro: trans_le_add2)
qed simp

lemma untrimmed_append: "untrimmed u (js @ ks) = untrimmed u js + untrimmed u ks"
  by (induction js) auto

definition limit_inv :: "config \<Rightarrow> uuid \<Rightarrow> conc \<Rightarrow> bool" where
  "limit_inv cfg u c \<longleftrightarrow> db_ok (c_db c) \<and>
     int (length (sessions_of u (c_db c))) \<le> MaxActiveSessions cfg + int (untrimmed u (c_jobs c))"

lemma fewer_sessions:
  "length (sessions_of u (effect (delete_session_by_hash h) i now d)) \<le> length (sessions_of u d)"
  "sessions_of u (effect (delete_refresh_token_by_hash h) i now d) = sessions_of u d"
  "sessions_of u (effect (delete_refresh_token_by_id t) i now d) = sessions_of u d"
  "sessions_of u (effect (delete_orphan_tokens v) i now d) = sessions_of u d"
proof -
  have "length (filter (\<lambda>s. s_user s = u) (filter P xs)) \<le> length (filter (\<lambda>s. s_user s = u) xs)"
    for P :: "session \<Rightarrow> bool" and xs by (induction xs) auto
  then show "length (sessions_of u (effect (delete_session_by_hash h) i now d)) \<le> length (sessions_of u d)"
    by (simp add: effect_def delete_session_by_hash_def sessions_of_def del: filter_filter)
qed (simp_all add: effect_def sessions_of_def delete_refresh_token_by_hash_def delete_refresh_token_by_id_def
    delete_orphan_tokens_def)

lemma one_session_more:
  assumes "insert_session iok v h dev ip ua i now d = Inr (r, d')"
  shows "length (sessions_of u d') = length (sessions_of u d) + (if v = u then 1 else 0)"
  using assms by (auto simp: insert_session_def sessions_of_def split: if_splits)

lemma advance_limit:
  assumes ok: "db_ok d" and max: "0 < MaxActiveSessions cfg"
    and le: "int (length (sessions_of u d)) \<le> MaxActiveSessions cfg + int k + int (owes u j)"
  shows "int (length (sessions_of u (snd (advance iok cfg i now j d))))
    \<le> MaxActiveSessions cfg + int k + int (owes u (fst (advance iok cfg i now j d)))"
proof (cases "j_phase j")
  case (Found t)
  then show ?thesis using le fewer_sessions(1) [of u "j_old j" i now d] by (simp add: advance_defs owes_def)
next
  case Storing
  then show ?thesis using le
    by (auto simp: advance_defs owes_def insert_refresh_token_def sessions_of_def split: if_splits)
next
  case Recording
  then show ?thesis using le max one_session_more [of iok "j_user j" "j_hash j" "j_device j" "j_ip j" "j_agent j" i "pg_time now" d]
    by (auto simp: advance_defs owes_def effect_def split: sum.split)
next
  case Trimming
  obtain d' where d': "delete_sessions_beyond (j_user j) (MaxActiveSessions cfg) i (pg_time now) d = Inr ((), d')"
    by (simp add: delete_sessions_beyond_def)
  then have e: "effect (delete_sessions_beyond (j_user j) (MaxActiveSessions cfg)) i now d = d'"
    by (simp add: effect_def)
  note limit = sessions_of_after_limit(2,3) [OF ok d']
  show ?thesis
  proof (cases "j_user j = u")
    case True
    then have "int (length (sessions_of u d')) \<le> MaxActiveSessions cfg" using limit(2) max by simp
    with Trimming e show ?thesis by (simp add: advance_defs owes_def)
  next
    case False
    with Trimming e le limit(1) [of u] show ?thesis by (simp add: advance_defs owes_def)
  qed
qed (use le in \<open>auto simp: advance_defs owes_def fewer_sessions split: option.split if_splits\<close>)

lemma conc_step_limit:
  assumes "0 < MaxActiveSessions cfg"
  shows "conc_step iok cfg c c' \<Longrightarrow> limit_inv cfg u c \<Longrightarrow> limit_inv cfg u c'"
proof (induction rule: conc_step.induct)
  case (act n c i)
  let ?j = "c_jobs c ! n"
  obtain j d where a: "advance iok cfg i (c_now c) ?j (c_db c) = (j, d)" by fastforce
  have upd: "untrimmed u ((c_jobs c)[n := j]) + owes u ?j = untrimmed u (c_jobs c) + owes u j"
    using act(1) by (rule untrimmed_update)
  have "owes u ?j \<le> untrimmed u (c_jobs c)" using act(1) by (rule owes_le)
  then obtain k where k: "untrimmed u (c_jobs c) = k + owes u ?j" by (metis le_add_diff_inverse2)
  with upd have "untrimmed u ((c_jobs c)[n := j]) = k + owes u j" by simp
  with act(2) k a advance_limit [OF _ assms, of "c_db c" u k ?j iok i "c_now c"] advance_db_ok [of "c_db c" iok cfg i "c_now c" ?j]
  show ?case by (simp add: limit_inv_def act_def)
next
  case (arrive j c)
  then show ?case by (auto simp: limit_inv_def untrimmed_append owes_def)
next
  case (drop_session c h i)
  then show ?case using fewer_sessions(1) [of u h i "c_now c" "c_db c"]
    by (simp add: limit_inv_def effect_keeps delete_session_statements_ok)
next
  case (drop_token c h i)
  then show ?case by (simp add: limit_inv_def effect_keeps delete_token_statements_ok fewer_sessions)
qed (simp add: limit_inv_def)

text \<open>
  C37: however the statements of any number of logins, refreshes and logouts interleave, the
  tables stay consistent, and a user has at most \<open>MaxActiveSessions\<close> sessions beyond those
  whose login has not yet come to the statement that trims them. When none of their requests is at that point,
  the limit holds.
\<close>
theorem session_limit_under_concurrency:
  assumes "conc_reachable iok cfg \<lparr>c_db = d0, c_now = t0, c_jobs = []\<rparr> c"
    and "db_ok d0" and "0 < MaxActiveSessions cfg"
    and "int (length (sessions_of u d0)) \<le> MaxActiveSessions cfg"
  shows "db_ok (c_db c) \<and>
    int (length (sessions_of u (c_db c))) \<le> MaxActiveSessions cfg + int (untrimmed u (c_jobs c)) \<and>
    ((\<forall>j \<in> set (c_jobs c). j_phase j \<noteq> Trimming) \<longrightarrow> int (length (sessions_of u (c_db c))) \<le> MaxActiveSessions cfg)"
proof -
  have "limit_inv cfg u c"
    using assms(1) by (induction rule: conc_reachable.induct)
      (use assms(2-4) in \<open>auto simp: limit_inv_def [where c = "\<lparr>c_db = d0, c_now = t0, c_jobs = []\<rparr>"] intro: conc_step_limit\<close>)
  moreover have "(\<forall>j \<in> set js. j_phase j \<noteq> Trimming) \<Longrightarrow> untrimmed u js = 0" for js
    by (induction js) (auto simp: owes_def)
  ultimately show ?thesis by (auto simp: limit_inv_def)
qed

section \<open>An undisturbed request\<close>

text \<open>
  A job that runs its statements without interruption computes what the operation computes:
  the steps are those of \<open>RefreshToken\<close> and \<open>generateTokens\<close>.
\<close>

abbreviation login_job :: "'r ext \<Rightarrow> uuid \<Rightarrow> string \<Rightarrow> string \<Rightarrow> string \<Rightarrow> string \<Rightarrow> phase \<Rightarrow> job" where
  "login_job X uid rt dev ip ua p \<equiv> \<lparr>j_old = [], j_user = uid, j_hash = hash_token X rt, j_device = dev,
     j_ip = ip, j_agent = ua, j_phase = p\<rparr>"

lemma effect_add_session:
  "effect (insert_session (inet_ok X) uid h dev ip ua) i now d = add_session X uid h dev ip ua i (pg_time now) d"
  by (simp add: effect_def add_session_def)

lemma effect_limit:
  "effect (delete_orphan_tokens uid) i now (effect (delete_sessions_beyond uid (MaxActiveSessions cfg)) i' now d) =
     limit_db cfg uid (pg_time now) d"
  by (simp add: effect_def limit_db_def delete_sessions_beyond_def delete_orphan_tokens_def sessions_of_def)

lemma issue_is_a_schedule:
  assumes "issued X cfg u dev ip ua w resp w'" and "0 < MaxActiveSessions cfg"
    and "j_user j = u_id u" "j_hash j = hash_token X (RefreshToken resp)" "j_device j = dev" "j_ip j = ip"
      "j_agent j = ua" "j_phase j = Storing"
  shows "play (inet_ok X) cfg [(0, rand_uuid X (draws w + 2)), (0, rand_uuid X (draws w + 3)), (0, 0), (0, 0)]
      \<lparr>c_db = db w, c_now = clock w, c_jobs = [j]\<rparr> = \<lparr>c_db = db w', c_now = clock w', c_jobs = [goto Answered j]\<rparr>"
proof -
  obtain d1 where d1: "insert_refresh_token (inet_ok X) (u_id u) (hash_token X (RefreshToken resp)) dev ip
      (clock w + refresh_ttl cfg) (rand_uuid X (draws w + 2)) (pg_time (clock w)) (db w) = Inr ((), d1)"
    and w': "db w' = limit_db cfg (u_id u) (pg_time (clock w))
      (add_session X (u_id u) (hash_token X (RefreshToken resp)) dev ip ua (rand_uuid X (draws w + 3)) (pg_time (clock w)) d1)"
      "clock w' = clock w"
    using assms(1) unfolding issued_def by auto
  show ?thesis
    using assms(2-8) d1 by (simp add: act_def advance_defs w' effect_limit effect_add_session)
qed

text \<open>
  C38: the machine's steps are those of the code. A login or a refresh that succeeds while
  nothing else runs is a schedule of its job alone, which ends answered with the tables that
  the operation leaves.
\<close>
theorem undisturbed_requests_are_schedules:
  assumes "sched w = []" and "0 < MaxActiveSessions cfg"
  shows "(\<forall>resp w'. run_state (refresh_tokens_op X cfg tok dev ip ua) w = (Inr resp, w') \<longrightarrow>
      (\<exists>xs uid. play (inet_ok X) cfg xs \<lparr>c_db = db w, c_now = clock w,
           c_jobs = [(login_job X v (RefreshToken resp) dev ip ua Looking)\<lparr>j_old := hash_token X tok\<rparr>]\<rparr> =
         \<lparr>c_db = db w', c_now = clock w',
           c_jobs = [(login_job X uid (RefreshToken resp) dev ip ua Answered)\<lparr>j_old := hash_token X tok\<rparr>]\<rparr>)) \<and>
    (\<forall>resp w'. run_state (login X cfg req dev ip ua) w = (Inr resp, w') \<longrightarrow>
      (\<exists>xs u. find_user_by_email (lr_email req) (db w) = Some u \<and>
         play (inet_ok X) cfg xs \<lparr>c_db = db w, c_now = clock w,
           c_jobs = [login_job X (u_id u) (RefreshToken resp) dev ip ua Storing]\<rparr> =
         \<lparr>c_db = db w', c_now = clock w', c_jobs = [login_job X (u_id u) (RefreshToken resp) dev ip ua Answered]\<rparr>))"
proof (intro conjI allI impI)
  fix resp w' assume run: "run_state (refresh_tokens_op X cfg tok dev ip ua) w = (Inr resp, w')"
  let ?d = "\<lambda>t. (db w)\<lparr>sessions := filter (\<lambda>s. s_hash s \<noteq> hash_token X tok) (sessions (db w)),
      refresh_tokens := filter (\<lambda>x. t_id x \<noteq> t_id t) (refresh_tokens (db w))\<rparr>"
  let ?job = "\<lambda>uid p. (login_job X uid (RefreshToken resp) dev ip ua p)\<lparr>j_old := hash_token X tok\<rparr>"
  obtain t u where t: "find_refresh_token (hash_token X tok) (db w) = Some t" "clock w \<le> t_expires t"
    and u: "find_user_by_id (t_user t) (db w) = Some u"
    and i: "issued X cfg u dev ip ua (w\<lparr>draws := draws w + 2, db := ?d t\<rparr>) resp w'"
    using assms run by (rule refresh_success)
  have first: "play (inet_ok X) cfg (replicate 4 (0, 0)) \<lparr>c_db = db w, c_now = clock w, c_jobs = [?job v Looking]\<rparr> =
      \<lparr>c_db = ?d t, c_now = clock w, c_jobs = [?job (u_id u) Storing]\<rparr>"
    using t u by (simp add: numeral_eq_Suc act_def advance_defs effect_def delete_session_by_hash_def
        delete_refresh_token_by_id_def find_user_by_id_def)
  with first issue_is_a_schedule [OF i assms(2), of "?job (u_id u) Storing"]
  show "\<exists>xs uid. play (inet_ok X) cfg xs \<lparr>c_db = db w, c_now = clock w, c_jobs = [?job v Looking]\<rparr> =
      \<lparr>c_db = db w', c_now = clock w', c_jobs = [?job uid Answered]\<rparr>"
    by (intro exI [of _ "replicate 4 (0, 0) @ [(0, rand_uuid X (draws w + 4)), (0, rand_uuid X (draws w + 5)), (0, 0), (0, 0)]"]
        exI [of _ "u_id u"]) (simp add: play_append numeral_eq_Suc)
next
  fix resp w' assume run: "run_state (login X cfg req dev ip ua) w = (Inr resp, w')"
  obtain u r where u: "find_user_by_email (lr_email req) (db w) = Some u"
    and i: "issued X cfg u dev ip ua (w\<lparr>redis := r\<rparr>) resp w'"
    using assms run by (rule login_success)
  have "play (inet_ok X) cfg [(0, rand_uuid X (draws w + 2)), (0, rand_uuid X (draws w + 3)), (0, 0), (0, 0)]
      \<lparr>c_db = db w, c_now = clock w, c_jobs = [login_job X (u_id u) (RefreshToken resp) dev ip ua Storing]\<rparr> =
    \<lparr>c_db = db w', c_now = clock w', c_jobs = [login_job X (u_id u) (RefreshToken resp) dev ip ua Answered]\<rparr>"
    using issue_is_a_schedule [OF i assms(2), of "login_job X (u_id u) (RefreshToken resp) dev ip ua Storing"]
    by (simp del: play.simps)
  with u
  show "\<exists>xs u. find_user_by_email (lr_email req) (db w) = Some u \<and>
      play (inet_ok X) cfg xs \<lparr>c_db = db w, c_now = clock w,
        c_jobs = [login_job X (u_id u) (RefreshToken resp) dev ip ua Storing]\<rparr> =
      \<lparr>c_db = db w', c_now = clock w', c_jobs = [login_job X (u_id u) (RefreshToken resp) dev ip ua Answered]\<rparr>"
    by blast
qed

theorem undisturbed_requests_are_schedules_witness:
  "\<exists>resp w' xs uid. run_state (refresh_tokens_op (demo_ext (demo_tokens 0 3)) demo_config ''T'' ''d'' ''1'' ''x'')
       (demo_world demo_token_db 0) = (Inr resp, w') \<and> RefreshToken resp = ''R'' \<and>
     c_db (play (inet_ok (demo_ext (demo_tokens 0 3))) demo_config xs
       \<lparr>c_db = demo_token_db, c_now = 0, c_jobs = [(login_job (demo_ext (demo_tokens 0 3)) uid ''R'' ''d'' ''1'' ''x'' Looking)
          \<lparr>j_old := hash_token (demo_ext (demo_tokens 0 3)) ''T''\<rparr>]\<rparr>) = db w'"
proof -
  let ?X = "demo_ext (demo_tokens 0 3)" and ?w = "demo_world demo_token_db 0"
  obtain resp w' where run: "run_state (refresh_tokens_op ?X demo_config ''T'' ''d'' ''1'' ''x'') ?w = (Inr resp, w')"
    and r: "RefreshToken resp = ''R''"
    using demo_refresh_run by blast
  have "0 < MaxActiveSessions demo_config" "sched ?w = []" by simp_all
  from undisturbed_requests_are_schedules [OF this(2,1), of ?X "''T''" "''d''" "''1''" "''x''" 0] run
  obtain xs uid where "play (inet_ok ?X) demo_config xs \<lparr>c_db = db ?w, c_now = clock ?w,
      c_jobs = [(login_job ?X 0 (RefreshToken resp) ''d'' ''1'' ''x'' Looking)\<lparr>j_old := hash_token ?X ''T''\<rparr>]\<rparr> =
    \<lparr>c_db = db w', c_now = clock w',
      c_jobs = [(login_job ?X uid (RefreshToken resp) ''d'' ''1'' ''x'' Answered)\<lparr>j_old := hash_token ?X ''T''\<rparr>]\<rparr>"
    by blast
  with run r show ?thesis by (intro exI [of _ resp] exI [of _ w'] exI [of _ xs] exI [of _ 0]) simp
qed

section \<open>One login deletes the token of another\<close>

lemma trim_nothing:
  assumes "int (length (sessions_of u d)) \<le> n"
  shows "effect (delete_sessions_beyond u n) i now d = d"
proof -
  have "set (newest_sessions u n d) = set (sessions_of u d)"
    using assms by (simp add: newest_sessions_def)
  then have "filter (\<lambda>s. \<not> (s_user s = u \<and> s_id s \<notin> s_id ` set (newest_sessions u n d))) (sessions d) = sessions d"
    by (auto simp: filter_id_conv sessions_of_def)
  then show ?thesis by (simp add: effect_def delete_sessions_beyond_def)
qed

definition new_login :: "uuid \<Rightarrow> string \<Rightarrow> string \<Rightarrow> string \<Rightarrow> string \<Rightarrow> job" where
  "new_login u h dev ip ua = \<lparr>j_old = [], j_user = u, j_hash = h, j_device = dev, j_ip = ip, j_agent = ua, j_phase = Storing\<rparr>"

definition token_row :: "config \<Rightarrow> job \<Rightarrow> uuid \<Rightarrow> time \<Rightarrow> refresh_token" where
  "token_row cfg j i t = \<lparr>t_id = i, t_user = j_user j, t_hash = j_hash j, t_device = j_device j, t_ip = j_ip j,
     t_expires = pg_time (t + refresh_ttl cfg), t_created = pg_time t\<rparr>"

definition session_row :: "job \<Rightarrow> uuid \<Rightarrow> time \<Rightarrow> session" where
  "session_row j i t = \<lparr>s_id = i, s_user = j_user j, s_hash = j_hash j, s_device = j_device j, s_ip = j_ip j,
     s_agent = j_agent j, s_accessed = pg_time t, s_created = pg_time t\<rparr>"

definition no_orphans :: "uuid \<Rightarrow> time \<Rightarrow> session list \<Rightarrow> refresh_token list \<Rightarrow> refresh_token list" where
  "no_orphans u now ss = filter (\<lambda>t. \<not> (t_user t = u \<and> t_hash t \<notin> s_hash ` set (filter (\<lambda>s. s_user s = u) ss) \<and>
     pg_time now < t_expires t))"

lemma effect_no_orphans:
  "effect (delete_orphan_tokens u) i now d = d\<lparr>refresh_tokens := no_orphans u now (sessions d) (refresh_tokens d)\<rparr>"
  by (simp add: effect_def delete_orphan_tokens_def sessions_of_def no_orphans_def)

lemmas row_defs = new_login_def token_row_def session_row_def

lemma two_arrive:
  assumes "j_phase a \<in> {Looking, Storing}" and "j_phase b \<in> {Looking, Storing}"
  shows "conc_reachable iok cfg \<lparr>c_db = d, c_now = t, c_jobs = []\<rparr> \<lparr>c_db = d, c_now = t, c_jobs = [a, b]\<rparr>"
    (is "conc_reachable iok cfg (?c []) (?c [a, b])")
proof -
  have "conc_step iok cfg (?c []) (?c [a])" "conc_step iok cfg (?c [a]) (?c [a, b])"
    using conc_step.arrive [OF assms(1), of iok cfg "?c []"] conc_step.arrive [OF assms(2), of iok cfg "?c [a]"] by simp_all
  with conc_reachable.start show ?thesis by (metis conc_reachable.step)
qed

text \<open>The schedule, statement by statement.\<close>

lemma losing_schedule:
  assumes "u \<in> u_id ` set (users d0)" and "sessions_of u d0 = []" and "2 \<le> MaxActiveSessions cfg"
    and "h1 \<noteq> h2" and "\<forall>h \<in> {h1, h2}. fits 255 h"
    and "\<forall>h \<in> {h1, h2}. h \<notin> t_hash ` set (refresh_tokens d0) \<and> h \<notin> s_hash ` set (sessions d0)"
    and "i1 \<noteq> i2" and "\<forall>i \<in> {i1, i2}. i \<notin> t_id ` set (refresh_tokens d0) \<and> i \<notin> s_id ` set (sessions d0)"
    and "iok ip" and "fits 255 dev"
    and a: "a = new_login u h1 dev ip ua" and b: "b = new_login u h2 dev ip ua"
    and ts: "ts = refresh_tokens d0 @ [token_row cfg a i1 t0, token_row cfg b i2 t0]"
    and s2: "s2 = sessions d0 @ [session_row b i2 t0]" and s12: "s12 = sessions d0 @ [session_row b i2 t0, session_row a i1 t0]"
  shows "play iok cfg [(0, i1), (1, i2), (1, i2), (1, 0), (1, 0), (0, i1), (0, 0), (0, 0)]
      \<lparr>c_db = d0, c_now = t0, c_jobs = [a, b]\<rparr> =
    \<lparr>c_db = d0\<lparr>refresh_tokens := no_orphans u t0 s12 (no_orphans u t0 s2 ts), sessions := s12\<rparr>, c_now = t0,
      c_jobs = [goto Answered a, goto Answered b]\<rparr>"
proof -
  let ?st = "\<lambda>ts ss p q. \<lparr>c_db = d0\<lparr>refresh_tokens := ts, sessions := ss\<rparr>, c_now = t0, c_jobs = [goto p a, goto q b]\<rparr>"
  have user: "j_user a = u" "j_user b = u" by (simp_all add: a b new_login_def)
  have none: "filter (\<lambda>s. s_user s = u) (sessions d0) = []" using assms(2) by (simp add: sessions_of_def)
  then have few: "int (length (filter (\<lambda>s. s_user s = u) s2)) \<le> MaxActiveSessions cfg"
    "int (length (filter (\<lambda>s. s_user s = u) s12)) \<le> MaxActiveSessions cfg"
    using assms(3) by (simp_all add: s2 s12 session_row_def user)
  have 1: "play iok cfg [(0, i1), (1, i2)] \<lparr>c_db = d0, c_now = t0, c_jobs = [a, b]\<rparr> = ?st ts (sessions d0) Recording Recording"
    using assms(1-10) by (simp add: act_def advance_defs insert_refresh_token_def row_defs a b ts)
  have 2: "act iok cfg 1 i2 (?st ts (sessions d0) Recording Recording) = ?st ts s2 Recording Trimming"
    using assms(1-10) by (simp add: act_def advance_defs effect_def insert_session_def row_defs a b s2)
  have 3: "act iok cfg 1 0 (?st t' s2 p Trimming) = ?st t' s2 p Cleaning" for t' p
    using few(1) by (simp add: act_def advance_defs user trim_nothing sessions_of_def)
  have 4: "act iok cfg 1 0 (?st ts s2 p Cleaning) = ?st (no_orphans u t0 s2 ts) s2 p Answered" for p
    by (simp add: act_def advance_defs user effect_no_orphans)
  have 5: "act iok cfg 0 i1 (?st t' s2 Recording q) = ?st t' s12 Trimming q" for t' q
    using assms(1-10) by (simp add: act_def advance_defs effect_def insert_session_def row_defs a b s2 s12)
  have 6: "act iok cfg 0 0 (?st t' s12 Trimming q) = ?st t' s12 Cleaning q" for t' q
    using few(2) by (simp add: act_def advance_defs user trim_nothing sessions_of_def)
  have 7: "act iok cfg 0 0 (?st t' s12 Cleaning q) = ?st (no_orphans u t0 s12 t') s12 Answered q" for t' q
    by (simp add: act_def advance_defs user effect_no_orphans)
  have "play iok cfg ([(0, i1), (1, i2)] @ [(1, i2), (1, 0), (1, 0), (0, i1), (0, 0), (0, 0)])
      \<lparr>c_db = d0, c_now = t0, c_jobs = [a, b]\<rparr> = ?st (no_orphans u t0 s12 (no_orphans u t0 s2 ts)) s12 Answered Answered"
    unfolding play_append 1 by (simp only: play.simps 2 3 4 5 6 7)
  then show ?thesis by (simp only: append_Cons append_Nil)
qed

text \<open>
  C39: two logins of one user at the same time. The second runs between the two insertions of
  the first: to its clean-up, the token of the first is an orphan, as there is no session
  with its digest yet. Both are answered, both sessions remain, but the refresh token that
  the first was given is not in the table and will be rejected.
\<close>
theorem concurrent_logins_lose_a_token:
  assumes "u \<in> u_id ` set (users d0)" and "sessions_of u d0 = []" and "2 \<le> MaxActiveSessions cfg"
    and "h1 \<noteq> h2" and "\<forall>h \<in> {h1, h2}. fits 255 h"
    and "\<forall>h \<in> {h1, h2}. h \<notin> t_hash ` set (refresh_tokens d0) \<and> h \<notin> s_hash ` set (sessions d0)"
    and "i1 \<noteq> i2" and "\<forall>i \<in> {i1, i2}. i \<notin> t_id ` set (refresh_tokens d0) \<and> i \<notin> s_id ` set (sessions d0)"
    and "iok ip" and "fits 255 dev" and "1000 \<le> refresh_ttl cfg"
  shows "\<exists>c. conc_reachable iok cfg \<lparr>c_db = d0, c_now = t0, c_jobs = []\<rparr> c \<and>
    map j_phase (c_jobs c) = [Answered, Answered] \<and> map j_hash (c_jobs c) = [h1, h2] \<and>
    map s_hash (sessions_of u (c_db c)) = [h2, h1] \<and>
    find_refresh_token h1 (c_db c) = None \<and> find_refresh_token h2 (c_db c) \<noteq> None"
proof -
  define a b where "a = new_login u h1 dev ip ua" and "b = new_login u h2 dev ip ua"
  define s2 s12 where "s2 = sessions d0 @ [session_row b i2 t0]" and
    "s12 = sessions d0 @ [session_row b i2 t0, session_row a i1 t0]"
  define ts where "ts = refresh_tokens d0 @ [token_row cfg a i1 t0, token_row cfg b i2 t0]"
  let ?init = "\<lparr>c_db = d0, c_now = t0, c_jobs = []\<rparr>" and ?kept = "no_orphans u t0 s12 (no_orphans u t0 s2 ts)"
  let ?final = "\<lparr>c_db = d0\<lparr>refresh_tokens := ?kept, sessions := s12\<rparr>, c_now = t0, c_jobs = [goto Answered a, goto Answered b]\<rparr>"
  have "conc_reachable iok cfg ?init \<lparr>c_db = d0, c_now = t0, c_jobs = [a, b]\<rparr>"
    by (rule two_arrive) (simp_all add: a_def b_def new_login_def)
  from play_reachable [OF this, of "[(0, i1), (1, i2), (1, i2), (1, 0), (1, 0), (0, i1), (0, 0), (0, 0)]"]
  have "conc_reachable iok cfg ?init ?final"
    unfolding losing_schedule [where iok = iok and ip = ip, OF assms(1-10) a_def b_def ts_def s2_def s12_def] by simp
  moreover have own: "filter (\<lambda>s. s_user s = u) s2 = [session_row b i2 t0]"
    "filter (\<lambda>s. s_user s = u) s12 = [session_row b i2 t0, session_row a i1 t0]"
    using assms(2) by (simp_all add: sessions_of_def s2_def s12_def a_def b_def row_defs)
  moreover have less: "pg_time t0 < pg_time (t0 + refresh_ttl cfg)" using assms(11) by (simp add: pg_time_def)
  have "t_hash t \<noteq> h1" if t: "t \<in> set (no_orphans u t0 s2 ts)" for t
  proof
    assume h: "t_hash t = h1"
    have "t \<in> set ts" and kept: "\<not> (t_user t = u \<and> t_hash t \<notin> s_hash ` set [session_row b i2 t0] \<and> pg_time t0 < t_expires t)"
      using t unfolding no_orphans_def own set_filter by blast+
    then have "t = token_row cfg a i1 t0" using h assms(4,6) by (auto simp: ts_def b_def row_defs)
    with kept less assms(4) show False by (simp add: a_def b_def row_defs)
  qed
  then have "find_refresh_token h1 (c_db ?final) = None"
    by (auto simp: find_refresh_token_def find_None_iff no_orphans_def)
  moreover have "token_row cfg b i2 t0 \<in> set ?kept"
    unfolding no_orphans_def own set_filter ts_def by (simp add: a_def b_def row_defs)
  then have "find_refresh_token h2 (c_db ?final) \<noteq> None"
    unfolding find_refresh_token_def find_None_iff by (auto simp: b_def row_defs)
  ultimately show ?thesis
    by (intro exI [of _ ?final] conjI) (simp_all add: sessions_of_def a_def b_def row_defs)
qed

theorem concurrent_logins_lose_a_token_witness:
  "\<exists>c. conc_reachable (\<lambda>_. True) demo_config \<lparr>c_db = demo_db, c_now = 0, c_jobs = []\<rparr> c \<and>
    map j_phase (c_jobs c) = [Answered, Answered] \<and> find_refresh_token ''1'' (c_db c) = None"
proof -
  have "(1::uuid) \<in> u_id ` set (users demo_db)" by (simp add: demo_db_def alice_def)
  moreover have "sessions_of 1 demo_db = []" "refresh_tokens demo_db = []" "sessions demo_db = []"
    by (simp_all add: demo_db_def empty_db_def sessions_of_def)
  ultimately show ?thesis
    using concurrent_logins_lose_a_token [of 1 demo_db demo_config "''1''" "''2''" 1 2 "\<lambda>_. True" "[]" "[]" 0]
    by (auto simp: fits_def pg_length_def)
qed

theorem session_limit_under_concurrency_witness:
  "int (length (sessions_of 1 (c_db (play (\<lambda>_. True) demo_config [(0, 1), (1, 2), (0, 3), (1, 4), (1, 5)]
     \<lparr>c_db = demo_db, c_now = 0, c_jobs = [new_login 1 ''1'' [] [] [], new_login 1 ''2'' [] [] []]\<rparr>)))) \<le> 2 + 2"
proof -
  let ?js = "[new_login 1 ''1'' [] [] [], new_login 1 ''2'' [] [] []]"
  let ?xs = "[(0, 1), (1, 2), (0, 3), (1, 4), (1, 5)]"
  define c where "c = play (\<lambda>_. True) demo_config ?xs \<lparr>c_db = demo_db, c_now = 0, c_jobs = ?js\<rparr>"
  have "conc_reachable (\<lambda>_. True) demo_config \<lparr>c_db = demo_db, c_now = 0, c_jobs = []\<rparr>
      \<lparr>c_db = demo_db, c_now = 0, c_jobs = ?js\<rparr>"
    by (rule two_arrive) (simp_all add: new_login_def)
  then have "conc_reachable (\<lambda>_. True) demo_config \<lparr>c_db = demo_db, c_now = 0, c_jobs = []\<rparr> c"
    unfolding c_def by (rule play_reachable) simp
  note limit = session_limit_under_concurrency [OF this demo_db_ok, of 1]
  have "length (c_jobs c) = 2" by (simp add: c_def)
  then obtain a b where "c_jobs c = [a, b]" by (auto simp: numeral_2_eq_2 length_Suc_conv)
  then have "untrimmed 1 (c_jobs c) \<le> 2" by (simp add: owes_def)
  moreover have "sessions_of 1 demo_db = []" by (simp add: demo_db_def empty_db_def sessions_of_def)
  ultimately show ?thesis using limit unfolding c_def by simp
qed

end
