(* ===== verification/Float64.thy ===== *)
theory Float64
  imports Complex_Main
begin

text \<open>
  Go's \<open>float64\<close> as far as the load test needs it: finite values as rational numbers, each
  operation the exact result rounded to the nearest value with 53 significant bits, ties to
  even. The values stay far below the largest \<open>float64\<close>, so overflow is left out.
\<close>

section \<open>Rounding\<close>

fun bit_length :: "nat \<Rightarrow> nat" where
  "bit_length n = (if n = 0 then 0 else Suc (bit_length (n div 2)))"

declare bit_length.simps [simp del]

text \<open>The power of two at or below a positive number.\<close>

definition binade :: "rat \<Rightarrow> int" where
  "binade x =
     (let (a, b) = quotient_of x; k = int (bit_length (nat a)) - int (bit_length (nat b))
      in if 2 powi k \<le> x then k else k - 1)"

definition half_even :: "rat \<Rightarrow> int" where
  "half_even x =
     (let f = \<lfloor>x\<rfloor>; r = x - of_int f
      in if r < 1 / 2 then f else if 1 / 2 < r then f + 1 else if even f then f else f + 1)"

definition round64 :: "rat \<Rightarrow> rat" where
  "round64 x =
     (if x = 0 then 0
      else let e = max (binade \<bar>x\<bar> - 52) (- 1074); m = of_int (half_even (\<bar>x\<bar> * 2 powi (- e))) * 2 powi e
           in if 0 < x then m else - m)"

definition f_add :: "rat \<Rightarrow> rat \<Rightarrow> rat" where "f_add a b = round64 (a + b)"
definition f_mul :: "rat \<Rightarrow> rat \<Rightarrow> rat" where "f_mul a b = round64 (a * b)"
definition f_div :: "rat \<Rightarrow> rat \<Rightarrow> rat" where "f_div a b = round64 (a / b)"
definition f_int :: "int \<Rightarrow> rat" where "f_int n = round64 (of_int n)"

section \<open>Rounding is monotone\<close>

lemma bit_length_bounds: "0 < n \<Longrightarrow> 2 ^ (bit_length n - 1) \<le> n \<and> n < 2 ^ bit_length n \<and> 0 < bit_length n"
proof (induction n rule: bit_length.induct)
  case (1 n)
  show ?case
  proof (cases "n = 1")
    case True
    then show ?thesis by (simp add: bit_length.simps)
  next
    case False
    with 1 have d: "0 < n div 2" by simp
    with 1 have IH: "2 ^ (bit_length (n div 2) - 1) \<le> n div 2" "n div 2 < 2 ^ bit_length (n div 2)" "0 < bit_length (n div 2)"
      by auto
    have b: "bit_length n = Suc (bit_length (n div 2))" using 1(2) by (simp add: bit_length.simps [of n])
    have "2 ^ bit_length (n div 2) = 2 * (2::nat) ^ (bit_length (n div 2) - 1)"
      using IH(3) by (simp add: power_eq_if)
    then have "2 ^ bit_length (n div 2) \<le> n" using IH(1) by linarith
    moreover have "n < 2 * 2 ^ bit_length (n div 2)" using IH(2) by linarith
    ultimately show ?thesis by (simp add: b)
  qed
qed

lemma two_power_int:
  assumes "0 < a"
  shows "2 ^ (l - 1) \<le> nat a \<Longrightarrow> 0 < l \<Longrightarrow> (2::rat) powi (int l - 1) \<le> of_int a"
    "nat a < 2 ^ m \<Longrightarrow> (of_int a :: rat) < 2 powi (int m)"
proof -
  have n: "(of_int a :: rat) = of_nat (nat a)" using assms by simp
  { assume "2 ^ (l - 1) \<le> nat a" "0 < l"
    then have "(of_nat (2 ^ (l - 1)) :: rat) \<le> of_nat (nat a)" by (simp only: of_nat_le_iff)
    moreover have "(2::rat) powi (int l - 1) = of_nat (2 ^ (l - 1))"
      using \<open>0 < l\<close> by (simp add: power_int_def nat_diff_distrib')
    ultimately show "(2::rat) powi (int l - 1) \<le> of_int a" unfolding n by simp }
  { assume "nat a < 2 ^ m"
    then have "(of_nat (nat a) :: rat) < of_nat (2 ^ m)" by (simp only: of_nat_less_iff)
    then show "(of_int a :: rat) < 2 powi (int m)" unfolding n by (simp add: power_int_def) }
qed

lemma binade_bounds:
  assumes "0 < x"
  shows "2 powi (binade x) \<le> x \<and> x < 2 powi (binade x + 1)"
proof -
  obtain a b where q: "quotient_of x = (a, b)" by fastforce
  have b: "0 < b" and x: "x = of_int a / of_int b" using quotient_of_denom_pos [OF q] quotient_of_div [OF q] by simp_all
  with assms have a: "0 < a" by (simp add: zero_less_divide_iff)
  let ?la = "bit_length (nat a)" and ?lb = "bit_length (nat b)"
  let ?k = "int ?la - int ?lb"
  have "0 < nat a" "0 < nat b" using a b by simp_all
  note A = bit_length_bounds [OF this(1)] and B = bit_length_bounds [OF this(2)]
  have A': "2 powi (int ?la - 1) \<le> (of_int a :: rat)" "(of_int a :: rat) < 2 powi (int ?la)"
    using A a by (auto intro: two_power_int)
  have B': "2 powi (int ?lb - 1) \<le> (of_int b :: rat)" "(of_int b :: rat) < 2 powi (int ?lb)"
    using B b by (auto intro: two_power_int)
  have split: "(2::rat) powi (i + j) = 2 powi i * 2 powi j" for i j by (simp add: power_int_add)
  have bp: "0 < (of_int b :: rat)" using b by simp
  have "x < 2 powi (?k + 1)"
  proof -
    have "(?k + 1) + (int ?lb - 1) = int ?la" by simp
    then have "(2::rat) powi (?k + 1) * 2 powi (int ?lb - 1) = 2 powi (int ?la)" by (simp only: split [symmetric])
    with A'(2) have "(of_int a :: rat) < 2 powi (?k + 1) * 2 powi (int ?lb - 1)" by (simp only:)
    also have "\<dots> \<le> 2 powi (?k + 1) * of_int b" using B'(1) by (intro mult_left_mono) simp_all
    finally show ?thesis unfolding x using bp by (simp add: pos_divide_less_eq)
  qed
  moreover have "2 powi (?k - 1) \<le> x"
  proof -
    have "2 powi (?k - 1) * of_int b \<le> 2 powi (?k - 1) * (2::rat) powi (int ?lb)"
      using B'(2) by (intro mult_left_mono) simp_all
    also have "\<dots> = 2 powi (int ?la - 1)"
    proof -
      have "(?k - 1) + int ?lb = int ?la - 1" by simp
      then show ?thesis by (simp only: split [symmetric])
    qed
    also note A'(1)
    finally show ?thesis unfolding x using bp by (simp add: pos_le_divide_eq)
  qed
  ultimately show ?thesis by (auto simp: binade_def q Let_def)
qed

lemma binade_mono: "0 < x \<Longrightarrow> x \<le> y \<Longrightarrow> binade x \<le> binade y"
proof (rule ccontr)
  assume x: "0 < x" "x \<le> y" and "\<not> binade x \<le> binade y"
  then have "(2::rat) powi (binade y + 1) \<le> 2 powi (binade x)" by (intro power_int_increasing) auto
  with binade_bounds [of x] binade_bounds [of y] x show False by auto
qed

lemma half_even_int: "half_even (of_int n) = n"
  by (simp add: half_even_def)

lemma half_even_mono: "x \<le> y \<Longrightarrow> half_even x \<le> half_even y"
proof -
  assume le: "x \<le> y"
  then have f: "\<lfloor>x\<rfloor> \<le> \<lfloor>y\<rfloor>" by (rule floor_mono)
  show ?thesis
  proof (cases "\<lfloor>x\<rfloor> = \<lfloor>y\<rfloor>")
    case True
    with le show ?thesis by (auto simp: half_even_def Let_def)
  next
    case False
    then have "half_even x \<le> \<lfloor>x\<rfloor> + 1" "\<lfloor>y\<rfloor> \<le> half_even y" by (auto simp: half_even_def Let_def)
    with f False show ?thesis by linarith
  qed
qed

definition to_grid :: "int \<Rightarrow> rat \<Rightarrow> rat" where
  "to_grid e x = of_int (half_even (x * 2 powi (- e))) * 2 powi e"

lemma round64_grid: "0 < x \<Longrightarrow> round64 x = to_grid (max (binade x - 52) (- 1074)) x"
  by (simp add: round64_def to_grid_def Let_def)

lemma to_grid_mono: "x \<le> y \<Longrightarrow> to_grid e x \<le> to_grid e y"
proof -
  assume "x \<le> y"
  then have "half_even (x * 2 powi (- e)) \<le> half_even (y * 2 powi (- e))"
    by (intro half_even_mono mult_right_mono) simp_all
  then show ?thesis unfolding to_grid_def by (intro mult_right_mono) simp_all
qed

lemma to_grid_fixed:
  assumes "e \<le> i"
  shows "to_grid e (2 powi i) = 2 powi i"
proof -
  have "(2::rat) powi i * 2 powi (- e) = 2 powi (i - e)" by (simp add: power_int_add [symmetric])
  also have "\<dots> = of_int (2 ^ nat (i - e))" using assms by (simp add: power_int_def)
  finally have "to_grid e (2 powi i) = of_int (2 ^ nat (i - e)) * 2 powi e"
    by (simp only: to_grid_def half_even_int)
  also have "\<dots> = 2 powi (i - e) * 2 powi e" using assms by (simp add: power_int_def)
  finally show ?thesis by (simp add: power_int_add [symmetric])
qed

lemma round64_nonneg: "0 \<le> x \<Longrightarrow> 0 \<le> round64 x"
proof (cases "x = 0")
  case False
  assume "0 \<le> x"
  with False have "0 < x" by simp
  moreover have "to_grid e 0 \<le> to_grid e x" for e using \<open>0 \<le> x\<close> by (rule to_grid_mono)
  moreover have "to_grid e 0 = 0" for e by (simp add: to_grid_def half_even_def)
  ultimately show ?thesis by (simp add: round64_grid)
qed (simp add: round64_def)

lemma round64_mono:
  assumes "0 \<le> x" and "x \<le> y"
  shows "round64 x \<le> round64 y"
proof (cases "x = 0")
  case True
  then show ?thesis using round64_nonneg [of y] assms by (simp add: round64_def)
next
  case False
  with assms have x: "0 < x" "0 < y" by simp_all
  let ?e = "max (binade x - 52) (- 1074)" and ?f = "max (binade y - 52) (- 1074)"
  show ?thesis
  proof (cases "?e = ?f")
    case True
    with assms(2) x show ?thesis by (simp add: round64_grid to_grid_mono)
  next
    case False
    with binade_mono [OF x(1) assms(2)] have lt: "binade x < binade y" "?f = binade y - 52" "?e \<le> binade y" by auto
    let ?B = "(2::rat) powi (binade y)"
    have "x < 2 powi (binade x + 1)" using binade_bounds [OF x(1)] by simp
    also have "\<dots> \<le> ?B" using lt(1) by (intro power_int_increasing) auto
    finally have "to_grid ?e x \<le> to_grid ?e ?B" by (intro to_grid_mono) simp
    also have "\<dots> = ?B" using lt(3) by (rule to_grid_fixed)
    also have "\<dots> = to_grid ?f ?B" using lt(2) by (intro to_grid_fixed [symmetric]) simp
    also have "\<dots> \<le> to_grid ?f y" using binade_bounds [OF x(2)] by (intro to_grid_mono) simp
    finally show ?thesis using x by (simp add: round64_grid)
  qed
qed

section \<open>Computing with it\<close>

lemma half_even_near: "\<bar>x - of_int n\<bar> < 1 / 2 \<Longrightarrow> half_even x = n"
proof -
  assume near: "\<bar>x - of_int n\<bar> < 1 / 2"
  show ?thesis
  proof (cases "of_int n \<le> x")
    case True
    with near have "\<lfloor>x\<rfloor> = n" by (intro floor_unique) auto
    with near True show ?thesis by (simp add: half_even_def)
  next
    case False
    with near have "\<lfloor>x\<rfloor> = n - 1" by (intro floor_unique) auto
    with near False show ?thesis by (simp add: half_even_def Let_def)
  qed
qed

text \<open>The rounded value, when its exponent and significand are known.\<close>

lemma round64_eq:
  assumes "2 powi (e + 52) \<le> x" and "x < 2 powi (e + 53)" and "- 1074 \<le> e"
    and "\<bar>x * 2 powi (- e) - of_int n\<bar> < 1 / 2"
  shows "round64 x = of_int n * 2 powi e"
proof -
  have "0 < x" using assms(1) by (rule less_le_trans [rotated]) simp
  note b = binade_bounds [OF this]
  have "binade x < e + 53"
  proof (rule ccontr)
    assume "\<not> binade x < e + 53"
    then have "(2::rat) powi (e + 53) \<le> 2 powi (binade x)" by (intro power_int_increasing) auto
    with b assms(2) show False by simp
  qed
  moreover have "e + 52 \<le> binade x"
  proof (rule ccontr)
    assume "\<not> e + 52 \<le> binade x"
    then have "(2::rat) powi (binade x + 1) \<le> 2 powi (e + 52)" by (intro power_int_increasing) auto
    with b assms(1) show False by simp
  qed
  ultimately have "binade x = e + 52" by simp
  with \<open>0 < x\<close> assms(3) half_even_near [OF assms(4)] show ?thesis by (simp add: round64_grid to_grid_def)
qed

end
