(* ===== verification/LoadMetrics.thy ===== *)
theory LoadMetrics
  imports Prelude Float64 "HOL-Library.Multiset"
begin

text \<open>
  The measurements of the load test, \<open>cmd/loadtest/main.go\<close>: what \<open>Metrics\<close> counts, and the
  summary of it with rates, averages and percentiles in \<open>float64\<close>.
\<close>

section \<open>Counting\<close>

record metrics =
  latencies :: "rat list"
  total :: int
  success :: int
  failed :: int
  statusCount :: "int \<rightharpoonup> int"

definition new_metrics :: metrics where
  "new_metrics = \<lparr>latencies = [], total = 0, success = 0, failed = 0, statusCount = Map.empty\<rparr>"

text \<open>\<open>Microseconds()\<close> cuts off towards zero. A counter that is missing counts as zero.\<close>

definition micros :: "duration \<Rightarrow> int" where
  "micros d = (if 0 \<le> d then d div 1000 else - (- d div 1000))"

definition latency_ms :: "duration \<Rightarrow> rat" where
  "latency_ms d = f_div (f_int (micros d)) 1000"

definition record_call :: "duration \<Rightarrow> int \<Rightarrow> metrics \<Rightarrow> metrics" where
  "record_call d status m =
     (let m1 = m\<lparr>latencies := latencies m @ [latency_ms d], total := total m + 1\<rparr>;
          m2 = (if 200 \<le> status \<and> status < 500 then m1\<lparr>success := success m1 + 1\<rparr> else m1\<lparr>failed := failed m1 + 1\<rparr>)
      in m2\<lparr>statusCount := (statusCount m2)(status \<mapsto>
           (case statusCount m2 status of None \<Rightarrow> 0 | Some n \<Rightarrow> n) + 1)\<rparr>)"

text \<open>\<open>Record\<close> holds the mutex: the calls of all workers happen one after the other.\<close>

definition record_all :: "(duration \<times> int) list \<Rightarrow> metrics" where
  "record_all rs = fold (\<lambda>(d, status). record_call d status) rs new_metrics"

section \<open>The summary\<close>

definition percentile_index :: "nat \<Rightarrow> rat \<Rightarrow> nat" where
  "percentile_index len p =
     (let idx = \<lceil>f_mul (f_div p 100) (f_int (int len))\<rceil> - 1;
          idx = (if idx < 0 then 0 else idx)
      in nat (if int len \<le> idx then int len - 1 else idx))"

definition percentile :: "rat list \<Rightarrow> rat \<Rightarrow> rat" where
  "percentile xs p = (if xs = [] then 0 else xs ! percentile_index (length xs) p)"

definition avg :: "rat list \<Rightarrow> rat" where
  "avg vals = (if vals = [] then 0 else f_div (foldl f_add 0 vals) (f_int (int (length vals))))"

text \<open>The rate is infinite, \<open>None\<close>, if no time went by. An empty summary has zeros only.\<close>

record summary =
  TotalRequests :: int
  Success :: int
  Failed :: int
  RPS :: "rat option"
  P50 :: rat
  P90 :: rat
  P99 :: rat
  P999 :: rat
  Min :: rat
  Max :: rat
  Avg :: rat
  StatusCount :: "int \<rightharpoonup> int"
  Elapsed :: rat

definition seconds :: "duration \<Rightarrow> rat" where
  "seconds d = f_add (f_int (d div nsSecond)) (f_div (f_int (d mod nsSecond)) 1000000000)"

definition snapshot :: "duration \<Rightarrow> metrics \<Rightarrow> summary" where
  "snapshot since m =
     (if latencies m = [] then
        \<lparr>TotalRequests = 0, Success = 0, Failed = 0, RPS = Some 0, P50 = 0, P90 = 0, P99 = 0, P999 = 0, Min = 0, Max = 0,
         Avg = 0, StatusCount = Map.empty, Elapsed = 0\<rparr>
      else let elapsed = seconds since; xs = sort (latencies m) in
        \<lparr>TotalRequests = total m, Success = success m, Failed = failed m,
         RPS = (if elapsed = 0 then None else Some (f_div (f_int (total m)) elapsed)),
         P50 = percentile xs 50, P90 = percentile xs 90, P99 = percentile xs 99,
         P999 = percentile xs (f_div 999 10), Min = hd xs, Max = last xs, Avg = avg xs,
         StatusCount = statusCount m, Elapsed = elapsed\<rparr>)"

section \<open>What is counted\<close>

lemma record_call_fields:
  "latencies (record_call d st m) = latencies m @ [latency_ms d]" "total (record_call d st m) = total m + 1"
  "success (record_call d st m) = success m + (if 200 \<le> st \<and> st < 500 then 1 else 0)"
  "failed (record_call d st m) = failed m + (if 200 \<le> st \<and> st < 500 then 0 else 1)"
  "statusCount (record_call d st m) = (statusCount m)(st \<mapsto> (case statusCount m st of None \<Rightarrow> 0 | Some n \<Rightarrow> n) + 1)"
  by (simp_all add: record_call_def Let_def)

definition count_of :: "int \<Rightarrow> (duration \<times> int) list \<Rightarrow> int" where
  "count_of c rs = int (length (filter (\<lambda>r. snd r = c) rs))"

definition passed :: "duration \<times> int \<Rightarrow> bool" where
  "passed r \<longleftrightarrow> 200 \<le> snd r \<and> snd r < 500"

lemma record_all_snoc: "record_all (rs @ [(d, st)]) = record_call d st (record_all rs)"
  by (simp add: record_all_def)

lemma record_all_fields:
  "latencies (record_all rs) = map (latency_ms \<circ> fst) rs \<and> total (record_all rs) = int (length rs) \<and>
   success (record_all rs) = int (length (filter passed rs)) \<and>
   failed (record_all rs) = int (length (filter (\<lambda>r. \<not> passed r) rs)) \<and>
   statusCount (record_all rs) = (\<lambda>c. if c \<in> snd ` set rs then Some (count_of c rs) else None)"
proof (induction rs rule: rev_induct)
  case Nil
  then show ?case by (simp add: record_all_def new_metrics_def)
next
  case (snoc r rs)
  obtain d st where r: "r = (d, st)" by (cases r)
  have "count_of st rs = 0" if "st \<notin> snd ` set rs"
    using that by (auto simp: count_of_def filter_empty_conv image_iff)
  with snoc show ?case
    unfolding r record_all_snoc record_call_fields by (auto simp: passed_def count_of_def fun_eq_iff)
qed

lemma count_of_mset: "mset rs = mset rs' \<Longrightarrow> count_of c rs = count_of c rs'"
  unfolding count_of_def by (metis mset_filter size_mset)

lemma sort_mset: "mset xs = mset ys \<Longrightarrow> sort xs = sort ys"
  by (metis properties_for_sort sorted_sort mset_sort)

text \<open>
  The summary of a scenario does not depend on how the workers' measurements interleave,
  only on what was measured; every measurement is counted once, as a success or as a failure
  and under its status.
\<close>
lemma summary_independent_of_interleaving:
  assumes "mset rs = mset rs'"
  shows "snapshot since (record_all rs) = snapshot since (record_all rs') \<and>
    total (record_all rs) = int (size (mset rs)) \<and>
    success (record_all rs) + failed (record_all rs) = total (record_all rs) \<and>
    (\<forall>c. statusCount (record_all rs) c =
       (if c \<in> snd ` set_mset (mset rs) then Some (int (count (image_mset snd (mset rs)) c)) else None))"
proof -
  have "mset (latencies (record_all rs)) = mset (latencies (record_all rs'))"
    using assms by (simp add: record_all_fields)
  then have s: "sort (latencies (record_all rs)) = sort (latencies (record_all rs'))" by (rule sort_mset)
  have e: "latencies (record_all rs) = [] \<longleftrightarrow> latencies (record_all rs') = []"
    using assms by (simp add: record_all_fields) (metis mset_zero_iff_right mset_zero_iff)
  have l: "length rs = length rs'" and st: "set rs = set rs'" using assms by (metis size_mset, metis set_mset_mset)
  have "length (filter P rs) = length (filter P rs')" for P using assms by (metis mset_filter size_mset)
  then have "snapshot since (record_all rs) = snapshot since (record_all rs')"
    unfolding snapshot_def e s using l st count_of_mset [OF assms] by (simp add: record_all_fields Let_def fun_eq_iff)
  moreover have "success (record_all rs) + failed (record_all rs) = total (record_all rs)"
    using sum_length_filter_compl [of passed rs] by (simp add: record_all_fields)
  moreover have "count (image_mset snd (mset rs)) c = length (filter (\<lambda>r. snd r = c) rs)" for c
    by (induction rs) auto
  ultimately show ?thesis by (simp add: record_all_fields count_of_def)
qed

section \<open>Percentiles\<close>

lemma f_int_nonneg: "0 \<le> n \<Longrightarrow> 0 \<le> f_int n"
  unfolding f_int_def by (rule round64_nonneg) simp

lemma percentile_index_bound: "0 < len \<Longrightarrow> percentile_index len p < len"
  by (auto simp: percentile_index_def Let_def)

lemma percentile_index_mono:
  assumes "0 < len" and "0 \<le> p" and "p \<le> q"
  shows "percentile_index len p \<le> percentile_index len q"
proof -
  have "f_div p 100 \<le> f_div q 100" "0 \<le> f_div p 100"
    unfolding f_div_def using assms by (auto intro!: round64_mono round64_nonneg divide_right_mono)
  then have "f_mul (f_div p 100) (f_int (int len)) \<le> f_mul (f_div q 100) (f_int (int len))"
    unfolding f_mul_def using f_int_nonneg [of "int len"] by (intro round64_mono mult_right_mono mult_nonneg_nonneg) simp_all
  then have "\<lceil>f_mul (f_div p 100) (f_int (int len))\<rceil> \<le> \<lceil>f_mul (f_div q 100) (f_int (int len))\<rceil>"
    by (rule ceiling_mono)
  then obtain i j where "i = \<lceil>f_mul (f_div p 100) (f_int (int len))\<rceil>" "j = \<lceil>f_mul (f_div q 100) (f_int (int len))\<rceil>" "i \<le> j"
    by blast
  then show ?thesis unfolding percentile_index_def Let_def by (simp only: flip: \<open>i = _\<close> \<open>j = _\<close>) auto
qed

lemma percentile_mono:
  assumes "0 \<le> p" and "p \<le> q"
  shows "percentile (sort xs) p \<le> percentile (sort xs) q"
proof (cases "xs = []")
  case False
  then have n: "0 < length (sort xs)" by simp
  from False have "sort xs \<noteq> []" by (metis length_0_conv length_sort)
  with percentile_index_mono [OF n assms] percentile_index_bound [OF n] show ?thesis
    by (simp add: percentile_def sorted_nth_mono)
qed (simp add: percentile_def)

lemma percentile_between:
  assumes "xs \<noteq> []"
  shows "hd (sort xs) \<le> percentile (sort xs) p \<and> percentile (sort xs) p \<le> last (sort xs) \<and> percentile (sort xs) p \<in> set xs"
proof -
  have n: "0 < length (sort xs)" and ne: "sort xs \<noteq> []" using assms by (simp, metis length_0_conv length_sort)
  note b = percentile_index_bound [OF n, of p]
  have p: "percentile (sort xs) p = sort xs ! percentile_index (length (sort xs)) p" using ne by (simp add: percentile_def)
  have "sort xs ! percentile_index (length (sort xs)) p \<in> set (sort xs)" using b by (rule nth_mem)
  moreover have "hd (sort xs) = sort xs ! 0" "last (sort xs) = sort xs ! (length (sort xs) - 1)"
    using ne by (simp_all add: hd_conv_nth last_conv_nth)
  ultimately show ?thesis unfolding p using b by (auto intro!: sorted_nth_mono)
qed

lemma p999_value: "f_div 999 10 = 7029837543348634 * 2 powi (- 46)"
  unfolding f_div_def by (subst round64_eq [where e = "-46" and n = 7029837543348634]) simp_all

lemma latencies_in_order:
  assumes "s = snapshot since (record_all rs)"
  shows "Min s \<le> P50 s \<and> P50 s \<le> P90 s \<and> P90 s \<le> P99 s \<and> P99 s \<le> P999 s \<and> P999 s \<le> Max s"
proof (cases "rs = []")
  case False
  let ?xs = "latencies (record_all rs)"
  have ne: "?xs \<noteq> []" using False by (simp add: record_all_fields)
  have "(99::rat) \<le> f_div 999 10" by (simp add: p999_value)
  with percentile_between [OF ne] ne show ?thesis by (simp add: assms snapshot_def Let_def percentile_mono)
qed (simp add: assms snapshot_def record_all_fields)

text \<open>
  The latencies of a summary are in order: the fastest call is at most the median, which
  is at most the 90th percentile, and so on up to the slowest call; each percentile is the
  latency of some call, and the fastest and the slowest are the extremes of all calls.
  Rounding in \<open>float64\<close> does not disturb the order.
\<close>
lemma summary_latencies_ordered:
  assumes "rs \<noteq> []" and "s = snapshot since (record_all rs)"
  shows "Min s \<le> P50 s \<and> P50 s \<le> P90 s \<and> P90 s \<le> P99 s \<and> P99 s \<le> P999 s \<and> P999 s \<le> Max s \<and>
    {P50 s, P90 s, P99 s, P999 s} \<subseteq> (latency_ms \<circ> fst) ` set rs \<and>
    (\<forall>r \<in> set rs. Min s \<le> latency_ms (fst r) \<and> latency_ms (fst r) \<le> Max s)"
proof -
  let ?xs = "latencies (record_all rs)"
  have ne: "?xs \<noteq> []" and st: "set ?xs = (latency_ms \<circ> fst) ` set rs" using assms(1) by (simp_all add: record_all_fields)
  have f: "Min s = hd (sort ?xs)" "P50 s = percentile (sort ?xs) 50" "P90 s = percentile (sort ?xs) 90"
    "P99 s = percentile (sort ?xs) 99" "P999 s = percentile (sort ?xs) (f_div 999 10)" "Max s = last (sort ?xs)"
    using ne by (simp_all add: assms(2) snapshot_def Let_def)
  have ends: "hd (sort ?xs) \<le> x \<and> x \<le> last (sort ?xs)" if "x \<in> set ?xs" for x
  proof -
    from that obtain i where i: "i < length (sort ?xs)" "sort ?xs ! i = x" by (metis in_set_conv_nth set_sort)
    moreover from this have "sort ?xs \<noteq> []" by (metis length_0_conv less_nat_zero_code)
    moreover from this have "hd (sort ?xs) = sort ?xs ! 0" "last (sort ?xs) = sort ?xs ! (length (sort ?xs) - 1)"
      by (simp_all add: hd_conv_nth last_conv_nth)
    ultimately show ?thesis by (auto intro!: sorted_nth_mono)
  qed
  show ?thesis
    using latencies_in_order [OF assms(2)] percentile_between [OF ne] ends st unfolding f by auto
qed

text \<open>
  But it moves one of them: for a thousand calls the 99.9th percentile should be the 999th
  of the sorted latencies; \<open>99.9 / 100.0\<close> is a little more than 0.999, a thousand times that
  is a little more than 999, and \<open>Ceil\<close> makes 1000 of it: the maximum is reported.
\<close>

lemma f_int_1000: "f_int 1000 = 1000"
  unfolding f_int_def by (subst round64_eq [where e = "-43" and n = 8796093022208000]) simp_all

lemma p999_of_thousand: "percentile_index 1000 (f_div 999 10) = 999"
proof -
  have 1: "f_div (7029837543348634 * 2 powi (- 46)) 100 = 8998192055486252 * 2 powi (- 53)"
    unfolding f_div_def by (subst round64_eq [where e = "-53" and n = 8998192055486252]) simp_all
  have 2: "f_mul (8998192055486252 * 2 powi (- 53)) 1000 = 8787296929185793 * 2 powi (- 43)"
    unfolding f_mul_def by (subst round64_eq [where e = "-43" and n = 8787296929185793]) simp_all
  have 3: "f_mul (f_div (f_div 999 10) 100) (f_int (int 1000)) = 8787296929185793 * 2 powi (- 43)"
    unfolding p999_value 1 of_nat_numeral f_int_1000 by (rule 2)
  have "\<lceil>8787296929185793 * 2 powi (- 43) :: rat\<rceil> = 1000" by (rule ceiling_unique) simp_all
  with 3 show ?thesis unfolding percentile_index_def Let_def by (simp only:) simp
qed

lemma p999_reports_the_maximum:
  assumes "length rs = 1000"
  shows "P999 (snapshot since (record_all rs)) = Max (snapshot since (record_all rs))"
proof -
  let ?xs = "sort (latencies (record_all rs))"
  have l: "length ?xs = 1000" "latencies (record_all rs) \<noteq> []" using assms by (auto simp: record_all_fields)
  then have "?xs \<noteq> []" by (metis length_0_conv zero_neq_numeral)
  with l show ?thesis by (simp add: snapshot_def Let_def percentile_def p999_of_thousand last_conv_nth)
qed

end
