(* ===== verification/LoadWorkers.thy ===== *)
theory LoadWorkers
  imports LoadMetrics "HOL-Library.While_Combinator" "HOL-Library.AList"
begin

text \<open>
  The workers of the load test, \<open>cmd/loadtest/main.go\<close>: what each of them asks of the server,
  what it records, and when it stops. The server and the network are a parameter: how the
  \<open>n\<close>-th call of a worker ends and how long it takes. Go code between two calls takes no
  time in the model.
\<close>

section \<open>Calls\<close>

text \<open>
  A worker's \<open>Client\<close>. The settings of \<open>http.Client\<close> bound the time of a call, which the
  parameter for the network decides; the fields of the map of headers are set in any order.
\<close>

record http_client =
  hc_timeout :: duration
  hc_max_idle :: int
  hc_max_idle_per_host :: int
  hc_idle_timeout :: duration
  hc_disable_compression :: bool

record client =
  baseURL :: string
  httpClient :: http_client
  headers :: "(string \<times> string) list"

definition new_client :: "string \<Rightarrow> client" where
  "new_client base =
     \<lparr>baseURL = base,
      httpClient = \<lparr>hc_timeout = 30 * nsSecond, hc_max_idle = 200, hc_max_idle_per_host = 200,
        hc_idle_timeout = 90 * nsSecond, hc_disable_compression = False\<rparr>,
      headers = [(''Content-Type'', ''application/json''), (''X-Device-ID'', ''loadtest'')]\<rparr>"

definition set_header :: "string \<Rightarrow> string \<Rightarrow> client \<Rightarrow> client" where
  "set_header k v cl = cl\<lparr>headers := AList.update k v (headers cl)\<rparr>"

text \<open>A request as it leaves the client; the body is a JSON object of strings, or missing.\<close>

record call =
  c_method :: string
  c_url :: string
  c_headers :: "(string \<times> string) list"
  c_body :: "(string \<times> string) list option"

definition new_request :: "client \<Rightarrow> string \<Rightarrow> string \<Rightarrow> (string \<times> string) list option \<Rightarrow> string \<Rightarrow> call" where
  "new_request cl meth path body token =
     \<lparr>c_method = meth, c_url = baseURL cl @ path,
      c_headers = (let hs = fold (\<lambda>(k, v). AList.update k v) (headers cl) []
                   in if token \<noteq> [] then AList.update ''Authorization'' (''Bearer '' @ token) hs else hs),
      c_body = body\<rparr>"

text \<open>
  Of an answer the workers read the status and, in \<open>getToken\<close> and \<open>getRefreshToken\<close>, the two
  fields of the JSON body, empty where there is none.
\<close>

record reply =
  r_status :: int
  r_access :: string
  r_refresh :: string

text \<open>
  What is outside: which texts \<open>http.NewRequest\<close> accepts as an address, and how the \<open>n\<close>-th
  call that a worker sends ends and how long that takes.
\<close>

record net =
  url_ok :: "string \<Rightarrow> bool"
  answer :: "nat \<Rightarrow> call \<Rightarrow> (go_error + reply) \<times> nat"

text \<open>
  A worker's clock, the number of its calls, what it has recorded, and whether it has called a
  method of a missing request, which ends the whole process.
\<close>

record lt =
  lt_now :: time
  lt_calls :: nat
  recs :: "(duration \<times> int) list"
  lt_panic :: bool

definition send :: "net \<Rightarrow> call \<Rightarrow> lt \<Rightarrow> ((go_error + reply) \<times> duration) \<times> lt" where
  "send net c s =
     (let (r, d) = answer net (lt_calls s) c
      in ((r, int d), s\<lparr>lt_calls := Suc (lt_calls s), lt_now := lt_now s + int d\<rparr>))"

definition client_do :: "net \<Rightarrow> call \<Rightarrow> lt \<Rightarrow> ((go_error + reply) \<times> duration) \<times> lt" where
  "client_do net c s = (if url_ok net (c_url c) then send net c s else ((Inl (Ext ''invalid URL''), 0), s))"

definition note_call :: "duration \<Rightarrow> int \<Rightarrow> lt \<Rightarrow> lt" where
  "note_call d status s = s\<lparr>recs := recs s @ [(d, status)]\<rparr>"

definition pause :: "int \<Rightarrow> lt \<Rightarrow> lt" where
  "pause ms s = s\<lparr>lt_now := lt_now s + ms * 1000000\<rparr>"

text \<open>A call that failed is recorded under the status 0.\<close>

definition status_of :: "go_error + reply \<Rightarrow> int" where
  "status_of r = (case r of Inl _ \<Rightarrow> 0 | Inr rep \<Rightarrow> r_status rep)"

definition do_and_note :: "net \<Rightarrow> call \<Rightarrow> lt \<Rightarrow> lt" where
  "do_and_note net c s = (let ((r, d), s1) = client_do net c s in note_call d (status_of r) s1)"

definition do_and_note_answer :: "net \<Rightarrow> call \<Rightarrow> lt \<Rightarrow> lt" where
  "do_and_note_answer net c s =
     (let ((r, d), s1) = client_do net c s in case r of Inl _ \<Rightarrow> s1 | Inr rep \<Rightarrow> note_call d (r_status rep) s1)"

abbreviation get_call :: "client \<Rightarrow> string \<Rightarrow> string \<Rightarrow> call" where
  "get_call cl path tok \<equiv> new_request cl ''GET'' path None tok"

abbreviation post_call :: "client \<Rightarrow> string \<Rightarrow> (string \<times> string) list \<Rightarrow> string \<Rightarrow> call" where
  "post_call cl path body tok \<equiv> new_request cl ''POST'' path (Some body) tok"

definition login_call :: "client \<Rightarrow> string \<Rightarrow> string \<Rightarrow> call" where
  "login_call cl email password = post_call cl ''/api/v1/auth/login'' [(''email'', email), (''password'', password)] []"

definition register_call :: "client \<Rightarrow> string \<Rightarrow> string \<Rightarrow> string \<Rightarrow> call" where
  "register_call cl email password name =
     post_call cl ''/api/v1/auth/register'' [(''email'', email), (''password'', password), (''full_name'', name)] []"

text \<open>
  A login whose answer is read; it is not recorded. The error of \<open>http.NewRequest\<close> is
  thrown away, and \<open>Header.Set\<close> of the missing request panics.
\<close>

definition read_login :: "net \<Rightarrow> (reply \<Rightarrow> string) \<Rightarrow> call \<Rightarrow> lt \<Rightarrow> string \<times> lt" where
  "read_login net field c s =
     (if \<not> url_ok net (c_url c) then ([], s\<lparr>lt_panic := True\<rparr>)
      else let ((r, _), s1) = send net c s
           in (case r of Inl _ \<Rightarrow> [] | Inr rep \<Rightarrow> if r_status rep \<noteq> 200 then [] else field rep, s1))"

definition get_token :: "net \<Rightarrow> client \<Rightarrow> string \<Rightarrow> string \<Rightarrow> lt \<Rightarrow> string \<times> lt" where
  "get_token net cl email password = read_login net r_access (login_call cl email password)"

definition get_refresh_token :: "net \<Rightarrow> client \<Rightarrow> string \<Rightarrow> string \<Rightarrow> lt \<Rightarrow> string \<times> lt" where
  "get_refresh_token net cl email password = read_login net r_refresh (login_call cl email password)"

section \<open>Workers\<close>

text \<open>What \<open>%d\<close> prints.\<close>

fun digits :: "nat \<Rightarrow> string" where
  "digits n = (if n < 10 then [] else digits (n div 10)) @ [char_of (48 + n mod 10)]"

definition decimal :: "int \<Rightarrow> string" where
  "decimal k = (if k < 0 then ''-'' @ digits (nat (- k)) else digits (nat k))"

text \<open>
  A loop runs until its time is over; it may not end, so its result is an option. \<open>wid\<close> is
  the worker's number: the position in \<open>warmup\<close>, else from the counter \<open>workerID\<close>.
\<close>

definition timed_loop :: "duration \<Rightarrow> ('a \<Rightarrow> lt) \<Rightarrow> ('a \<Rightarrow> 'a) \<Rightarrow> 'a \<Rightarrow> 'a option" where
  "timed_loop D view step s =
     while_option (\<lambda>t. \<not> lt_panic (view t) \<and> lt_now (view t) - lt_now (view s) < D) step s"

text \<open>The warm-up also stops when \<open>warmup\<close> closes the channel \<open>stop\<close>, at the time \<open>stop\<close>.\<close>

definition warmup_worker :: "net \<Rightarrow> client \<Rightarrow> time \<Rightarrow> duration \<Rightarrow> int \<Rightarrow> lt \<Rightarrow> lt option" where
  "warmup_worker net cl stop D wid s =
     timed_loop (min D (stop - lt_now s)) (\<lambda>s. s)
       (\<lambda>s. pause (50 + wid mod 50) (do_and_note_answer net (get_call cl ''/health'' []) s)) s"

definition health_worker :: "net \<Rightarrow> client \<Rightarrow> duration \<Rightarrow> int \<Rightarrow> lt \<Rightarrow> lt option" where
  "health_worker net cl D wid =
     timed_loop D (\<lambda>s. s) (\<lambda>s. pause (50 + wid mod 50) (do_and_note net (get_call cl ''/health'' []) s))"

text \<open>Which endpoint comes next depends on how much of the time is over.\<close>

definition endpoint :: "client \<Rightarrow> string \<Rightarrow> string \<Rightarrow> int \<Rightarrow> call" where
  "endpoint cl num tok k =
     (if k = 0 then get_call cl ''/api/v1/admin/users?limit=10'' tok
      else if k = 1 then get_call cl ''/api/v1/admin/roles?limit=10'' tok
      else if k = 2 then get_call cl ''/api/v1/admin/permissions?limit=10'' tok
      else if k = 3 then get_call cl ''/api/v1/incidents/?limit=10'' tok
      else if k = 4 then get_call cl ''/health'' []
      else post_call cl ''/api/v1/incidents/'' [(''title'', ''Load test incident '' @ num),
             (''description'', ''Generated during load test''), (''severity'', ''low'')] tok)"

definition refresh_part :: "net \<Rightarrow> client \<Rightarrow> string \<Rightarrow> string \<Rightarrow> lt \<Rightarrow> lt" where
  "refresh_part net cl email password s =
     (let (rt, s1) = get_refresh_token net cl email password s
      in if rt = [] then s1
         else do_and_note_answer net (post_call cl ''/api/v1/auth/refresh'' [(''refresh_token'', rt)] []) s1)"

text \<open>
  One round of \<open>mixedWorker\<close>: \<open>num\<close> is the worker's number in decimal, \<open>email\<close> the address
  that it made up, \<open>cl\<close> its client with its own device. With a token it calls an endpoint; it
  looks at the clock once, at the start.
\<close>

definition mixed_hit ::
  "net \<Rightarrow> client \<Rightarrow> rat \<Rightarrow> int \<Rightarrow> string \<Rightarrow> string \<Rightarrow> string \<Rightarrow> lt \<Rightarrow> string \<times> lt" where
  "mixed_hit net cl progress wid num email tok s =
     (let s1 = do_and_note net (endpoint cl num tok (\<lfloor>f_mul progress 100\<rfloor> mod 6)) s;
          s2 = (if f_div 3 10 < progress \<and> progress < f_div 35 100
                then refresh_part net cl email ''LoadTestPass123!'' s1 else s1)
      in if lt_panic s2 then (tok, s2) else (tok, pause (100 + wid mod 200) s2))"

definition mixed_round ::
  "net \<Rightarrow> client \<Rightarrow> duration \<Rightarrow> time \<Rightarrow> int \<Rightarrow> string \<Rightarrow> string \<Rightarrow> string \<times> lt \<Rightarrow> string \<times> lt" where
  "mixed_round net cl D start wid num email ts =
     (let (tok, s) = ts; password = ''LoadTestPass123!'';
          progress = f_div (seconds (lt_now s - start)) (seconds D)
      in if tok = [] then
           (let ((r, d), s1) = client_do net (login_call cl email password) s
            in if status_of r \<noteq> 200 then
                 (let s2 = note_call d 0 s1;
                      s3 = do_and_note net (register_call cl email password (''Load User '' @ num)) s2
                  in ([], pause 200 s3))
               else
                 (let (t, s3) = get_token net cl email password (note_call d (status_of r) s1)
                  in if lt_panic s3 then ([], s3)
                     else if t = [] then ([], pause 200 s3) else mixed_hit net cl progress wid num email t s3))
         else mixed_hit net cl progress wid num email tok s)"

definition mixed_worker :: "net \<Rightarrow> client \<Rightarrow> duration \<Rightarrow> int \<Rightarrow> lt \<Rightarrow> lt option" where
  "mixed_worker net cl D wid s =
     (let num = decimal wid; email = ''load_'' @ num @ ''_'' @ decimal (lt_now s) @ ''@test.com'';
          cl = set_header ''X-Device-ID'' (''device-'' @ num) cl
      in map_option snd (timed_loop D snd (mixed_round net cl D (lt_now s) wid num email) ([], s)))"

text \<open>
  \<open>adminWorker\<close>: the addresses of the users that it creates carry the time as well.
\<close>

definition admin_round :: "net \<Rightarrow> client \<Rightarrow> int \<Rightarrow> string \<Rightarrow> string \<Rightarrow> lt \<Rightarrow> lt" where
  "admin_round net cl wid num tok s =
     (let s1 = do_and_note net (post_call cl ''/api/v1/admin/users''
            [(''email'', ''created_'' @ num @ ''_'' @ decimal (lt_now s) @ ''@test.com''), (''password'', ''CreatedPass123!''),
             (''full_name'', ''Created User '' @ num)] tok) s;
          s2 = do_and_note net (get_call cl ''/api/v1/admin/users?limit=20'' tok) s1;
          s3 = do_and_note net (get_call cl ''/api/v1/admin/roles?limit=20'' tok) s2
      in pause (200 + wid mod 100) s3)"

definition admin_login :: "net \<Rightarrow> client \<Rightarrow> string \<Rightarrow> string \<Rightarrow> lt \<Rightarrow> string \<times> lt" where
  "admin_login net cl email password s =
     (let (tok, s1) = get_token net cl email password s
      in if lt_panic s1 \<or> tok \<noteq> [] then (tok, s1)
         else get_token net cl email password
           (pause 2000 (do_and_note net (register_call cl email password ''Load Test Admin'') s1)))"

definition admin_worker ::
  "net \<Rightarrow> client \<Rightarrow> string \<Rightarrow> string \<Rightarrow> duration \<Rightarrow> int \<Rightarrow> lt \<Rightarrow> lt option" where
  "admin_worker net cl email password D wid s =
     (let (tok, s1) = admin_login net cl email password s
      in if lt_panic s1 \<or> tok = [] then Some s1
         else timed_loop D (\<lambda>s. s) (admin_round net cl wid (decimal wid) tok) s1)"

section \<open>Scenarios and the verdict\<close>

text \<open>
  The workers of a scenario start together, with fresh \<open>Metrics\<close>, and \<open>runScenario\<close> waits for
  the last of them. Their measurements go to the same \<open>Metrics\<close>; by the independence of the
  summary from their order, one worker after the other is as good as any interleaving. The
  outer option says whether they all return, the sum whether one of them panics.
\<close>

abbreviation fresh_worker :: "time \<Rightarrow> lt" where
  "fresh_worker t0 \<equiv> \<lparr>lt_now = t0, lt_calls = 0, recs = [], lt_panic = False\<rparr>"

definition run_scenario :: "time \<Rightarrow> (lt \<Rightarrow> lt option) list \<Rightarrow> (go_error + summary \<times> time) option" where
  "run_scenario t0 ws =
     (case those (map (\<lambda>w. w (fresh_worker t0)) ws) of None \<Rightarrow> None
      | Some ts \<Rightarrow>
          if \<exists>t \<in> set ts. lt_panic t then Some (Inl (Ext ''invalid memory address or nil pointer dereference''))
          else let over = fold (\<lambda>t m. max (lt_now t) m) ts t0
          in Some (Inr (snapshot (over - t0) (record_all (concat (map recs ts))), over)))"

datatype verdict = Stable | Moderate | Saturated

definition verdict_of :: "summary \<Rightarrow> verdict" where
  "verdict_of s =
     (if P99 s < 2000 \<and> Failed s < \<lfloor>f_mul (f_int (TotalRequests s)) (f_div 5 100)\<rfloor> then Stable
      else if P99 s < 5000 then Moderate else Saturated)"

record lt_config =
  Concurrency :: int
  Duration :: duration
  BaseURL :: string
  AdminEmail :: string
  AdminPassword :: string
  WarmupDuration :: duration

text \<open>
  \<open>main\<close>, from the warm-up to the three summaries that the report and the verdict are made
  of. \<open>nets k i\<close> is what the
  \<open>i\<close>-th worker of the \<open>k\<close>-th part meets, \<open>ids k i\<close> the number that it draws from \<open>workerID\<close>:
  that depends on the scheduling, and the health scenario draws 0 only.
\<close>

definition workers :: "lt_config \<Rightarrow> (nat \<Rightarrow> client \<Rightarrow> lt \<Rightarrow> lt option) \<Rightarrow> (lt \<Rightarrow> lt option) list" where
  "workers c w = map (\<lambda>i. w i (new_client (BaseURL c))) [0..<nat (Concurrency c)]"

record results =
  warm :: summary
  health :: summary
  mixed :: summary
  admin :: summary

definition load_test ::
  "(nat \<Rightarrow> nat \<Rightarrow> net) \<Rightarrow> (nat \<Rightarrow> nat \<Rightarrow> int) \<Rightarrow> lt_config \<Rightarrow> time \<Rightarrow> (go_error + results) option" where
  "load_test nets ids c t0 =
     (case run_scenario t0 (workers c (\<lambda>i cl.
          warmup_worker (nets 0 i) cl (t0 + WarmupDuration c) (WarmupDuration c) (int i))) of
        None \<Rightarrow> None | Some (Inl e) \<Rightarrow> Some (Inl e)
      | Some (Inr (w, t1)) \<Rightarrow>
     (case run_scenario t1 (workers c (\<lambda>i cl. health_worker (nets 1 i) cl (Duration c) 0)) of
        None \<Rightarrow> None | Some (Inl e) \<Rightarrow> Some (Inl e)
      | Some (Inr (h, t2)) \<Rightarrow>
     (case run_scenario t2 (workers c (\<lambda>i cl. mixed_worker (nets 2 i) cl (Duration c) (ids 2 i))) of
        None \<Rightarrow> None | Some (Inl e) \<Rightarrow> Some (Inl e)
      | Some (Inr (m, t3)) \<Rightarrow>
     (case run_scenario t3 (workers c (\<lambda>i cl.
          admin_worker (nets 3 i) cl (AdminEmail c) (AdminPassword c) (Duration c) (ids 3 i))) of
        None \<Rightarrow> None | Some (Inl e) \<Rightarrow> Some (Inl e)
      | Some (Inr (a, t4)) \<Rightarrow> Some (Inr \<lparr>warm = w, health = h, mixed = m, admin = a\<rparr>)))))"

section \<open>Every worker stops\<close>

lemma timed_loop_returns:
  assumes "\<And>t. lt_panic (view (step t)) \<or> lt_now (view t) < lt_now (view (step t))"
  shows "\<exists>t. timed_loop D view step s = Some t"
  unfolding timed_loop_def
proof (rule measure_while_option_Some [where P = "\<lambda>_. True"
      and f = "\<lambda>t. if lt_panic (view t) then 0 else Suc (nat (D - (lt_now (view t) - lt_now (view s))))"])
  fix t
  assume "\<not> lt_panic (view t) \<and> lt_now (view t) - lt_now (view s) < D"
  with assms [of t] show "True \<and> (if lt_panic (view (step t)) then 0 else Suc (nat (D - (lt_now (view (step t)) - lt_now (view s)))))
      < (if lt_panic (view t) then 0 else Suc (nat (D - (lt_now (view t) - lt_now (view s)))))"
    by (auto simp: nat_less_eq_zless)
qed simp

lemma timed_loop_inv:
  assumes "timed_loop D view step s = Some t" and "P s" and "\<And>u. P u \<Longrightarrow> P (step u)"
  shows "P t"
  by (rule while_option_rule [where P = P, OF _ assms(1) [unfolded timed_loop_def] assms(2)]) (use assms(3) in blast)

lemma time_of_calls:
  "lt_now s \<le> lt_now (snd (client_do net c s))" "lt_now (note_call d st s) = lt_now s"
  "lt_now (pause ms s) = lt_now s + ms * 1000000" "lt_now s \<le> lt_now (do_and_note net c s)"
  "lt_now s \<le> lt_now (do_and_note_answer net c s)" "lt_now s \<le> lt_now (snd (get_token net cl e p s))"
  "lt_now s \<le> lt_now (snd (get_refresh_token net cl e p s))"
  by (auto simp: client_do_def send_def note_call_def pause_def do_and_note_def do_and_note_answer_def get_token_def
      get_refresh_token_def read_login_def split: prod.splits sum.splits)

lemma pause_advances: "lt_now s \<le> lt_now s' \<Longrightarrow> 0 < ms \<Longrightarrow> lt_now s < lt_now (pause ms s')"
  by (simp add: time_of_calls(3))

lemma pauses: "0 < 50 + (wid::int) mod 50" "0 < 100 + wid mod 200" "0 < 200 + wid mod 100"
  by (rule add_pos_nonneg; simp)+

lemma time_of_refresh: "lt_now s \<le> lt_now (refresh_part net cl e p s)"
proof -
  obtain rt s1 where g: "get_refresh_token net cl e p s = (rt, s1)" by fastforce
  then have "lt_now s \<le> lt_now s1" using time_of_calls(7) [of s net cl e p] by simp
  then show ?thesis using time_of_calls(5) [of s1 net] by (auto simp: refresh_part_def g intro: order_trans)
qed

lemma mixed_hit_advances:
  "lt_panic (snd (mixed_hit net cl progress wid num email t s)) \<or> lt_now s < lt_now (snd (mixed_hit net cl progress wid num email t s))"
proof -
  let ?pw = "''LoadTestPass123!''"
  let ?s1 = "do_and_note net (endpoint cl num t (\<lfloor>f_mul progress 100\<rfloor> mod 6)) s"
  define s2 where "s2 = (if f_div 3 10 < progress \<and> progress < f_div 35 100 then refresh_part net cl email ?pw ?s1 else ?s1)"
  have "lt_now s \<le> lt_now ?s1" by (rule time_of_calls)
  then have "lt_now s \<le> lt_now s2"
    using time_of_refresh [of ?s1 net cl email ?pw] by (auto simp: s2_def)
  then have "lt_now s < lt_now (pause (100 + wid mod 200) s2)" by (rule pause_advances [OF _ pauses(2)])
  then show ?thesis unfolding mixed_hit_def Let_def s2_def [symmetric] by simp
qed

lemma mixed_round_advances:
  "lt_panic (snd (mixed_round net cl D start wid num email ts)) \<or>
   lt_now (snd ts) < lt_now (snd (mixed_round net cl D start wid num email ts))"
proof -
  obtain tok s where ts: "ts = (tok, s)" by fastforce
  let ?pw = "''LoadTestPass123!''"
  show ?thesis
  proof (cases "tok = []")
    case False
    then show ?thesis using mixed_hit_advances by (simp add: mixed_round_def ts)
  next
    case True
    obtain r d s1 where l: "client_do net (login_call cl email ?pw) s = ((r, d), s1)" by (metis prod.exhaust)
    then have s1: "lt_now s \<le> lt_now s1" using time_of_calls(1) [of s net "login_call cl email ?pw"] by simp
    show ?thesis
    proof (cases "status_of r = 200")
      case False
      have "lt_now s1 \<le> lt_now (do_and_note net (register_call cl email ?pw (''Load User '' @ num)) (note_call d 0 s1))"
        using time_of_calls(4) [of "note_call d 0 s1"] by (simp add: time_of_calls(2))
      with False l s1 show ?thesis unfolding mixed_round_def ts True by (simp add: time_of_calls(3))
    next
      case ok: True
      obtain t s3 where g: "get_token net cl email ?pw (note_call d (status_of r) s1) = (t, s3)" by fastforce
      then have s3: "lt_now s1 \<le> lt_now s3"
        using time_of_calls(6) [of "note_call d (status_of r) s1" net cl email ?pw] by (simp add: time_of_calls(2))
      have "lt_panic (snd (mixed_hit net cl p wid num email t s3)) \<or> lt_now s < lt_now (snd (mixed_hit net cl p wid num email t s3))" for p
        using s1 s3 mixed_hit_advances [of net cl p wid num email t s3] by linarith
      with ok l s1 s3 g show ?thesis unfolding mixed_round_def ts True by (simp add: time_of_calls(3))
    qed
  qed
qed

lemma admin_round_advances: "lt_now s < lt_now (admin_round net cl wid num tok s)"
  unfolding admin_round_def Let_def
  by (intro pause_advances pauses order_trans [OF time_of_calls(4) order_trans [OF time_of_calls(4) time_of_calls(4)]])

lemma warmup_worker_stops: "\<exists>t. warmup_worker net cl stop D wid s = Some t"
  unfolding warmup_worker_def by (intro timed_loop_returns disjI2 pause_advances pauses time_of_calls(5))

lemma health_worker_stops: "\<exists>t. health_worker net cl D wid s = Some t"
  unfolding health_worker_def by (intro timed_loop_returns disjI2 pause_advances pauses time_of_calls(4))

lemma mixed_worker_stops: "\<exists>t. mixed_worker net cl D wid s = Some t"
proof -
  let ?num = "decimal wid" and ?s = "([], s)" and ?cl = "set_header ''X-Device-ID'' (''device-'' @ decimal wid) cl"
  let ?email = "''load_'' @ ?num @ ''_'' @ decimal (lt_now s) @ ''@test.com''"
  have "\<exists>t. timed_loop D snd (mixed_round net ?cl D (lt_now s) wid ?num ?email) ?s = Some t"
    by (rule timed_loop_returns, rule mixed_round_advances)
  then show ?thesis unfolding mixed_worker_def Let_def by (metis option.simps(9))
qed

lemma admin_worker_stops: "\<exists>t. admin_worker net cl email password D wid s = Some t"
  unfolding admin_worker_def Let_def
  by (simp only: split: prod.split if_split) (auto intro!: timed_loop_returns admin_round_advances)

section \<open>When a worker panics\<close>

abbreviation login_url :: "string \<Rightarrow> string" where
  "login_url base \<equiv> base @ ''/api/v1/auth/login''"

lemma login_call_url [simp]: "c_url (login_call cl e p) = login_url (baseURL cl)" "baseURL (set_header k v cl) = baseURL cl"
  by (simp_all add: login_call_def new_request_def set_header_def)

lemma panic_of_calls [simp]:
  "lt_panic (snd (client_do net c s)) = lt_panic s" "lt_panic (note_call d st s) = lt_panic s"
  "lt_panic (pause ms s) = lt_panic s" "lt_panic (do_and_note net c s) = lt_panic s"
  "lt_panic (do_and_note_answer net c s) = lt_panic s"
  by (auto simp: client_do_def send_def note_call_def pause_def do_and_note_def do_and_note_answer_def
      split: prod.splits sum.splits)

lemma panic_of_login:
  "url_ok net (login_url (baseURL cl)) \<Longrightarrow> lt_panic (snd (get_token net cl e p s)) = lt_panic s"
  "url_ok net (login_url (baseURL cl)) \<Longrightarrow> lt_panic (snd (get_refresh_token net cl e p s)) = lt_panic s"
  "\<not> url_ok net (login_url (baseURL cl)) \<Longrightarrow> lt_panic (snd (get_token net cl e p s))"
  by (auto simp: get_token_def get_refresh_token_def read_login_def send_def split: prod.splits)

text \<open>With an address that \<open>http.NewRequest\<close> accepts no worker panics.\<close>

lemma refresh_part_panic: "url_ok net (login_url (baseURL cl)) \<Longrightarrow> lt_panic (refresh_part net cl e p s) = lt_panic s"
  using panic_of_login(2) [of net cl e p s] by (auto simp: refresh_part_def split: prod.splits)

lemma mixed_hit_panic:
  "url_ok net (login_url (baseURL cl)) \<Longrightarrow> lt_panic (snd (mixed_hit net cl progress wid num email t s)) = lt_panic s"
  by (simp add: mixed_hit_def Let_def refresh_part_panic)

lemma mixed_round_panic:
  assumes "url_ok net (login_url (baseURL cl))" and "\<not> lt_panic (snd ts)"
  shows "\<not> lt_panic (snd (mixed_round net cl D start wid num email ts))"
proof -
  obtain tok s where ts: "ts = (tok, s)" by fastforce
  let ?pw = "''LoadTestPass123!''"
  obtain r d s1 where l: "client_do net (login_call cl email ?pw) s = ((r, d), s1)" by (metis prod.exhaust)
  with assms(2) panic_of_calls(1) [of net "login_call cl email ?pw" s] have s1: "\<not> lt_panic s1" by (simp add: ts)
  obtain t s3 where g: "get_token net cl email ?pw (note_call d 200 s1) = (t, s3)" by fastforce
  with s1 panic_of_login(1) [OF assms(1), of email ?pw "note_call d 200 s1"] have "\<not> lt_panic s3" by simp
  with assms s1 l g show ?thesis by (simp add: mixed_round_def ts mixed_hit_panic Let_def)
qed

lemma workers_do_not_panic:
  assumes "url_ok net (login_url (baseURL cl))" and "\<not> lt_panic s"
  shows "mixed_worker net cl D wid s = Some t \<Longrightarrow> \<not> lt_panic t"
    and "admin_worker net cl email password D wid s = Some t \<Longrightarrow> \<not> lt_panic t"
proof -
  let ?cl = "set_header ''X-Device-ID'' (''device-'' @ decimal wid) cl"
  { assume "mixed_worker net cl D wid s = Some t"
    then obtain tok where "timed_loop D snd (mixed_round net ?cl D (lt_now s) wid (decimal wid)
        (''load_'' @ decimal wid @ ''_'' @ decimal (lt_now s) @ ''@test.com'')) ([], s) = Some (tok, t)"
      by (auto simp: mixed_worker_def Let_def)
    from timed_loop_inv [where P = "\<lambda>u. \<not> lt_panic (snd u)", OF this] assms show "\<not> lt_panic t"
      by (simp add: mixed_round_panic) }
  { assume w: "admin_worker net cl email password D wid s = Some t"
    obtain tok s1 where l: "admin_login net cl email password s = (tok, s1)" by fastforce
    have "lt_panic (snd (admin_login net cl email password s)) = lt_panic s"
      using assms by (auto simp: admin_login_def panic_of_login split: prod.splits)
        (metis panic_of_login(1) snd_conv)+
    with l assms(2) have s1: "\<not> lt_panic s1" by simp
    show "\<not> lt_panic t"
    proof (cases "tok = []")
      case False
      with w l s1 have "timed_loop D (\<lambda>s. s) (admin_round net cl wid (decimal wid) tok) s1 = Some t"
        by (simp add: admin_worker_def)
      from timed_loop_inv [where P = "\<lambda>u. \<not> lt_panic u", OF this s1] show ?thesis
        by (simp add: admin_round_def Let_def)
    qed (use w l s1 in \<open>simp add: admin_worker_def\<close>) }
qed

lemma health_workers_do_not_panic:
  assumes "\<not> lt_panic s"
  shows "warmup_worker net cl stop D wid s = Some t \<Longrightarrow> \<not> lt_panic t" and "health_worker net cl D wid s = Some t \<Longrightarrow> \<not> lt_panic t"
  unfolding warmup_worker_def health_worker_def
  by (erule timed_loop_inv [where P = "\<lambda>u. \<not> lt_panic u"], use assms in simp_all)+

lemma admin_worker_panics:
  assumes "\<not> url_ok net (login_url (baseURL cl))" and "admin_worker net cl email password D wid s = Some t"
  shows "lt_panic t"
  using assms panic_of_login(3) [OF assms(1), of email password s]
  by (auto simp: admin_worker_def admin_login_def split: prod.splits if_splits)

section \<open>The load test ends\<close>

lemma those_Some: "those xs = Some ys \<longleftrightarrow> xs = map Some ys"
  by (induction xs arbitrary: ys) (auto split: option.splits simp: Cons_eq_map_conv)

lemma scenario_outcome:
  assumes "\<And>i. \<exists>t. w i (new_client (BaseURL c)) (fresh_worker t0) = Some t"
  shows "((\<exists>s t1. run_scenario t0 (workers c w) = Some (Inr (s, t1))) \<and>
      (\<forall>i < nat (Concurrency c). \<forall>t. w i (new_client (BaseURL c)) (fresh_worker t0) = Some t \<longrightarrow> \<not> lt_panic t)) \<or>
    ((\<exists>e. run_scenario t0 (workers c w) = Some (Inl e)) \<and>
      (\<exists>i < nat (Concurrency c). \<exists>t. w i (new_client (BaseURL c)) (fresh_worker t0) = Some t \<and> lt_panic t))"
proof -
  from choice [of "\<lambda>i t. w i (new_client (BaseURL c)) (fresh_worker t0) = Some t"] assms obtain f where
    f: "\<And>i. w i (new_client (BaseURL c)) (fresh_worker t0) = Some (f i)" by blast
  let ?ts = "map f [0..<nat (Concurrency c)]"
  have "map (\<lambda>w. w (fresh_worker t0)) (workers c w) = map Some ?ts" unfolding workers_def by (simp only: map_map o_def f)
  then have t: "those (map (\<lambda>w. w (fresh_worker t0)) (workers c w)) = Some ?ts" by (simp only: those_Some)
  have p: "(\<exists>t \<in> set ?ts. lt_panic t) \<longleftrightarrow> (\<exists>i < nat (Concurrency c). lt_panic (f i))" by auto
  show ?thesis
    by (cases "\<exists>i < nat (Concurrency c). lt_panic (f i)")
      (simp_all only: run_scenario_def t option.case p Let_def f option.inject if_True if_False, blast+)
qed

lemma quiet_scenario:
  assumes "\<And>i. \<exists>t. w i (new_client (BaseURL c)) (fresh_worker t0) = Some t"
    and "\<And>i t. w i (new_client (BaseURL c)) (fresh_worker t0) = Some t \<Longrightarrow> \<not> lt_panic t"
  shows "\<exists>s t1. run_scenario t0 (workers c w) = Some (Inr (s, t1))"
  using scenario_outcome [of w c t0, OF assms(1)] assms(2) by blast

lemma base_of_new_client [simp]: "baseURL (new_client base) = base"
  by (simp add: new_client_def)

lemma load_test_ends:
  assumes "\<And>k i. url_ok (nets k i) = uok"
  shows "\<exists>r. load_test nets ids c t0 = Some r \<and>
    ((\<exists>e. r = Inl e) \<longleftrightarrow> 0 < Concurrency c \<and> \<not> uok (login_url (BaseURL c)))"
proof -
  let ?cl = "new_client (BaseURL c)"
  let ?mixed = "\<lambda>i cl. mixed_worker (nets 2 i) cl (Duration c) (ids 2 i)"
  let ?admin = "\<lambda>i cl. admin_worker (nets 3 i) cl (AdminEmail c) (AdminPassword c) (Duration c) (ids 3 i)"
  have url: "url_ok (nets k i) (login_url (baseURL ?cl)) = uok (login_url (BaseURL c))" for k i using assms by simp
  have "\<exists>w t1. run_scenario t0 (workers c (\<lambda>i cl.
        warmup_worker (nets 0 i) cl (t0 + WarmupDuration c) (WarmupDuration c) (int i))) = Some (Inr (w, t1))"
    by (rule quiet_scenario, rule warmup_worker_stops, erule health_workers_do_not_panic(1) [rotated], simp)
  then obtain w t1 where 1: "run_scenario t0 (workers c (\<lambda>i cl.
        warmup_worker (nets 0 i) cl (t0 + WarmupDuration c) (WarmupDuration c) (int i))) = Some (Inr (w, t1))" by blast
  have "\<exists>h t2. run_scenario t1 (workers c (\<lambda>i cl. health_worker (nets 1 i) cl (Duration c) 0)) = Some (Inr (h, t2))"
    by (rule quiet_scenario, rule health_worker_stops, erule health_workers_do_not_panic(2) [rotated], simp)
  then obtain h t2 where 2: "run_scenario t1 (workers c (\<lambda>i cl. health_worker (nets 1 i) cl (Duration c) 0)) = Some (Inr (h, t2))"
    by blast
  note run = load_test_def 1 2 option.case sum.case prod.case
  note M = scenario_outcome [of ?mixed c t2, OF mixed_worker_stops]
  note A = scenario_outcome [of ?admin c, OF admin_worker_stops]
  show ?thesis
  proof (cases "uok (login_url (BaseURL c))")
    case True
    then have ok: "url_ok (nets k i) (login_url (baseURL ?cl))" for k i by (simp only: url)
    have "\<exists>s t3. run_scenario t2 (workers c ?mixed) = Some (Inr (s, t3))"
      by (rule quiet_scenario, rule mixed_worker_stops, erule workers_do_not_panic(1) [OF ok, rotated], simp)
    then obtain s t3 where m: "run_scenario t2 (workers c ?mixed) = Some (Inr (s, t3))" by blast
    have "\<exists>a t4. run_scenario t3 (workers c ?admin) = Some (Inr (a, t4))"
      by (rule quiet_scenario, rule admin_worker_stops, erule workers_do_not_panic(2) [OF ok, rotated], simp)
    then obtain a t4 where "run_scenario t3 (workers c ?admin) = Some (Inr (a, t4))" by blast
    with True show ?thesis unfolding run m by simp
  next
    case False
    then have bad: "\<not> url_ok (nets k i) (login_url (baseURL ?cl))" for k i by (simp only: url not_False_eq_True)
    have panics: "\<exists>t. ?admin i ?cl (fresh_worker t3) = Some t \<and> lt_panic t" for i t3
      using admin_worker_stops [of "nets 3 i" ?cl "AdminEmail c" "AdminPassword c" "Duration c" "ids 3 i" "fresh_worker t3"]
        admin_worker_panics [OF bad] by blast
    from M show ?thesis
    proof (elim disjE conjE exE)
      fix e i assume "run_scenario t2 (workers c ?mixed) = Some (Inl e)" and "i < nat (Concurrency c)"
      then show ?thesis using False unfolding run by simp
    next
      fix s t3 assume m: "run_scenario t2 (workers c ?mixed) = Some (Inr (s, t3))"
      from A [of t3] show ?thesis
      proof (elim disjE conjE exE)
        fix e i assume "run_scenario t3 (workers c ?admin) = Some (Inl e)" and "i < nat (Concurrency c)"
        then show ?thesis using False unfolding run m by simp
      next
        fix a t4 assume a: "run_scenario t3 (workers c ?admin) = Some (Inr (a, t4))"
          and "\<forall>i < nat (Concurrency c). \<forall>t. ?admin i ?cl (fresh_worker t3) = Some t \<longrightarrow> \<not> lt_panic t"
        then have "\<not> 0 < nat (Concurrency c)" using panics [of 0 t3] by blast
        then have "\<not> 0 < Concurrency c" by simp
        with a show ?thesis unfolding run m by simp
      qed
    qed
  qed
qed

text \<open>
  A worker of the health scenario records each of its calls; with an address that is none it
  sends nothing.
\<close>

lemma health_worker_records:
  "\<exists>t new. health_worker net cl D wid s = Some t \<and> recs t = recs s @ new \<and>
     lt_calls t = lt_calls s + (if url_ok net (baseURL cl @ ''/health'') then length new else 0) \<and>
     (new = [] \<or> (int (length new) - 1) * 50000000 < D)"
proof -
  have p: "0 \<le> wid mod 50" by simp
  let ?c = "get_call cl ''/health'' []"
  let ?k = "\<lambda>new :: (duration \<times> int) list. if url_ok net (baseURL cl @ ''/health'') then length new else 0"
  let ?step = "\<lambda>s. pause (50 + wid mod 50) (do_and_note net ?c s)"
  have url: "c_url ?c = baseURL cl @ ''/health''" by (simp add: new_request_def)
  obtain t where t: "health_worker net cl D wid s = Some t" using health_worker_stops by blast
  let ?P = "\<lambda>t. \<exists>new. recs t = recs s @ new \<and> lt_calls t = lt_calls s + ?k new \<and>
     int (length new) * 50000000 \<le> lt_now t - lt_now s \<and> (new = [] \<or> (int (length new) - 1) * 50000000 < D)"
  have step: "?P (?step u)" if "?P u" "lt_now u - lt_now s < D" for u
  proof -
    from that(1) obtain new where n: "recs u = recs s @ new" "lt_calls u = lt_calls s + ?k new"
      "int (length new) * 50000000 \<le> lt_now u - lt_now s" by blast
    obtain r d s1 where c: "client_do net ?c u = ((r, d), s1)" by (metis prod.exhaust)
    then have s1: "recs s1 = recs u" "0 \<le> d" "lt_now s1 = lt_now u + d"
        "lt_calls s1 = lt_calls u + (if url_ok net (baseURL cl @ ''/health'') then 1 else 0)"
      by (auto simp: client_do_def send_def url split: if_splits prod.splits)
    have "recs (?step u) = recs s @ new @ [(d, status_of r)]" "lt_calls (?step u) = lt_calls s + ?k (new @ [(d, status_of r)])"
      "lt_now (?step u) = lt_now u + d + (50 + wid mod 50) * 1000000"
      using n s1 by (simp_all add: pause_def do_and_note_def note_call_def c)
    with n p s1(2) that(2) show ?thesis by (intro exI [of _ "new @ [(d, status_of r)]"]) auto
  qed
  have "?P t"
    by (rule while_option_rule [where P = ?P, OF _ t [unfolded health_worker_def timed_loop_def]]) (use step in auto)
  with t show ?thesis by blast
qed

text \<open>
  C31: the load test ends, whatever the server answers and however long it takes: the warm-up
  and each worker of the three scenarios stop. It ends with its results, unless the address of
  the server is no URL: then the program crashes if it has a worker at all, for the first
  login of an administrator calls a method of the request that could not be made. A worker of the health
  scenario records each of its calls, exactly once, and as it pauses for at least 50 ms after
  each, it makes at most one call per 50 ms of its time.
\<close>
theorem workers_stop:
  assumes "\<And>k i. url_ok (nets k i) = uok"
  shows "(\<exists>r. load_test nets ids c t0 = Some r \<and>
      ((\<exists>e. r = Inl e) \<longleftrightarrow> 0 < Concurrency c \<and> \<not> uok (BaseURL c @ ''/api/v1/auth/login''))) \<and>
    (\<exists>t new. health_worker net cl D wid s = Some t \<and> recs t = recs s @ new \<and>
      lt_calls t = lt_calls s + (if url_ok net (baseURL cl @ ''/health'') then length new else 0) \<and>
      (new = [] \<or> (int (length new) - 1) * 50000000 < D))"
  by (rule conjI [OF load_test_ends [OF assms] health_worker_records])

definition demo_net :: "(string \<Rightarrow> bool) \<Rightarrow> net" where
  "demo_net uok = \<lparr>url_ok = uok, answer = \<lambda>n c. (Inr \<lparr>r_status = 429, r_access = [], r_refresh = []\<rparr>, 1000)\<rparr>"

definition demo_lt_config :: lt_config where
  "demo_lt_config = \<lparr>Concurrency = 2, Duration = nsSecond, BaseURL = ''http://[::1'', AdminEmail = ''a@b.c'',
     AdminPassword = ''p'', WarmupDuration = nsSecond\<rparr>"

theorem workers_stop_witness:
  "\<exists>e. load_test (\<lambda>_ _. demo_net (\<lambda>u. False)) (\<lambda>_ _. 1) demo_lt_config 5 = Some (Inl e)"
  using conjunct1 [OF workers_stop [of "\<lambda>_ _. demo_net (\<lambda>u. False)" "\<lambda>u. False" "\<lambda>_ _. 1" demo_lt_config 5]]
  by (simp add: demo_net_def demo_lt_config_def) metis

text \<open>
  A scenario in which the server refuses every call, as the rate limiter does with 429 or the
  guards with 401 and 403, counts as one without failures.
\<close>

lemma refused_calls_count_as_success:
  assumes "\<forall>r \<in> set rs. snd r \<in> {401, 403, 429}"
  shows "failed (record_all rs) = 0 \<and> success (record_all rs) = int (length rs)"
proof -
  have "filter passed rs = rs" "filter (\<lambda>r. \<not> passed r) rs = []"
    using assms by (auto simp: filter_id_conv filter_empty_conv passed_def)
  then show ?thesis by (simp only: record_all_fields) simp
qed

section \<open>What the verdict says\<close>

text \<open>The verdicts from good to bad.\<close>

fun severity :: "verdict \<Rightarrow> nat" where
  "severity Stable = 0"
| "severity Moderate = 1"
| "severity Saturated = 2"

instantiation verdict :: linorder
begin

definition less_eq_verdict :: "verdict \<Rightarrow> verdict \<Rightarrow> bool" where
  "less_eq_verdict v w \<longleftrightarrow> severity v \<le> severity w"

definition less_verdict :: "verdict \<Rightarrow> verdict \<Rightarrow> bool" where
  "less_verdict v w \<longleftrightarrow> severity v < severity w"

instance
proof
  fix v w :: verdict
  show "v \<le> w \<Longrightarrow> w \<le> v \<Longrightarrow> v = w" by (cases v; cases w) (simp_all add: less_eq_verdict_def)
qed (auto simp: less_eq_verdict_def less_verdict_def)

end

text \<open>A run that is slower and fails more often never gets a better verdict.\<close>

lemma verdict_mono:
  assumes "TotalRequests s = TotalRequests s'" and "P99 s \<le> P99 s'" and "Failed s \<le> Failed s'"
  shows "verdict_of s \<le> verdict_of s'"
  using assms by (auto simp: verdict_of_def less_eq_verdict_def)

text \<open>
  Fewer than 5 percent of the calls may fail, rounded down: a run with fewer than 20 calls is
  never stable, even if none of them fails.
\<close>

lemma five_percent: "f_div 5 100 = 7205759403792794 * 2 powi (- 57)"
  unfolding f_div_def by (subst round64_eq [where e = "-57" and n = 7205759403792794]) simp_all

lemma f_int_19: "f_int 19 = 19"
  unfolding f_int_def by (subst round64_eq [where e = "-48" and n = 5348024557502464]) simp_all

lemma limit_of_19: "f_mul 19 (f_div 5 100) = 8556839292003943 * 2 powi (- 53)"
  unfolding f_mul_def five_percent by (subst round64_eq [where e = "-53" and n = 8556839292003943]) simp_all

lemma few_calls_are_never_stable:
  assumes "length rs < 20"
  shows "verdict_of (snapshot since (record_all rs)) \<noteq> Stable"
proof -
  let ?s = "snapshot since (record_all rs)"
  have t: "TotalRequests ?s = int (length rs)" "0 \<le> Failed ?s"
    by (simp_all add: snapshot_def record_all_fields Let_def)
  have "f_int (int (length rs)) \<le> f_int 19"
    unfolding f_int_def using assms by (intro round64_mono) simp_all
  then have "f_mul (f_int (int (length rs))) (f_div 5 100) \<le> f_mul 19 (f_div 5 100)"
    unfolding f_mul_def f_int_19 by (intro round64_mono mult_right_mono mult_nonneg_nonneg f_int_nonneg) (simp_all add: five_percent)
  also have "\<dots> < 1" unfolding limit_of_19 by simp
  finally have "\<lfloor>f_mul (f_int (int (length rs))) (f_div 5 100)\<rfloor> < 1" by linarith
  with t(2) have "\<not> Failed ?s < \<lfloor>f_mul (f_int (int (length rs))) (f_div 5 100)\<rfloor>" by linarith
  then show ?thesis by (simp add: verdict_of_def t(1))
qed

end
