(* ===== verification/Text.thy ===== *)
theory Text
  imports Main
begin

text \<open>
  The parts of Go's package \<open>strings\<close> that take a text apart at a character and put it
  together again; the migrations split at semicolons, paths are split at slashes.
\<close>

text \<open>\<open>strings.Split\<close> for a separator of one character, and \<open>strings.Join\<close>.\<close>

fun split_at :: "char \<Rightarrow> string \<Rightarrow> string list" where
  "split_at c [] = [[]]"
| "split_at c (x # xs) =
     (if x = c then [] # split_at c xs
      else case split_at c xs of [] \<Rightarrow> [[x]] | p # ps \<Rightarrow> (x # p) # ps)"

fun join_with :: "char \<Rightarrow> string list \<Rightarrow> string" where
  "join_with c [] = []"
| "join_with c [p] = p"
| "join_with c (p # q # ps) = p @ c # join_with c (q # ps)"

lemma split_at_nonempty [simp]: "split_at c s \<noteq> []"
  by (cases s) (auto split: list.splits)

lemma join_split: "join_with c (split_at c s) = s"
proof (induction s)
  case (Cons x xs)
  then show ?case
    by (cases "split_at c xs"; cases "tl (split_at c xs)") (auto simp: neq_Nil_conv)
qed simp

lemma split_at_free: "c \<notin> set p \<Longrightarrow> split_at c p = [p]"
  by (induction p) auto

lemma split_at_append: "c \<notin> set p \<Longrightarrow> split_at c (p @ c # s) = p # split_at c s"
  by (induction p) auto

lemma split_join: "ps \<noteq> [] \<Longrightarrow> \<forall>p \<in> set ps. c \<notin> set p \<Longrightarrow> split_at c (join_with c ps) = ps"
  by (induction c ps rule: join_with.induct) (auto simp: split_at_append split_at_free)

lemma split_parts_free: "p \<in> set (split_at c s) \<Longrightarrow> c \<notin> set p"
  by (induction s arbitrary: p) (auto split: list.splits if_splits)

end
