(* ===== verification/Disk.thy ===== *)
theory Disk
  imports World Text "HOL-Library.Sublist"
begin

text \<open>
  Paths and files as the storage and the logger see them: Go's package \<open>path/filepath\<close> on
  Unix, and a tree of directories and files under the calls of package \<open>os\<close>. There are no
  symbolic links, and one process at a time uses the tree.
\<close>

section \<open>Paths\<close>

text \<open>
  \<open>filepath.Clean\<close>, on the parts between the slashes; \<open>acc\<close> is what is kept, last part
  first, and \<open>rooted\<close> says that the path starts with a slash.
\<close>

fun clean_from :: "bool \<Rightarrow> string list \<Rightarrow> string list \<Rightarrow> string list" where
  "clean_from rooted acc [] = rev acc"
| "clean_from rooted acc (c # cs) =
     (if c = [] \<or> c = ''.'' then clean_from rooted acc cs
      else if c = ''..'' then
        (case acc of
           [] \<Rightarrow> clean_from rooted (if rooted then [] else [''..'']) cs
         | a # as \<Rightarrow> clean_from rooted (if a = ''..'' then ''..'' # acc else as) cs)
      else clean_from rooted (c # acc) cs)"

definition is_rooted :: "string \<Rightarrow> bool" where
  "is_rooted s \<longleftrightarrow> s \<noteq> [] \<and> hd s = CHR ''/''"

definition slashed :: "string list \<Rightarrow> string" where
  "slashed cs = CHR ''/'' # join_with CHR ''/'' cs"

definition filepath_clean :: "string \<Rightarrow> string" where
  "filepath_clean s =
     (let cs = clean_from (is_rooted s) [] (split_at CHR ''/'' s)
      in if is_rooted s then slashed cs else if cs = [] then ''.'' else join_with CHR ''/'' cs)"

definition filepath_join :: "string \<Rightarrow> string \<Rightarrow> string" where
  "filepath_join a b =
     (if a = [] then if b = [] then [] else filepath_clean b else filepath_clean (a @ CHR ''/'' # b))"

text \<open>\<open>Dir\<close>, \<open>Base\<close> and \<open>Ext\<close>; \<open>Base\<close> ignores slashes at the end.\<close>

definition filepath_dir :: "string \<Rightarrow> string" where
  "filepath_dir s =
     (let ps = butlast (split_at CHR ''/'' s)
      in filepath_clean (if ps = [] then [] else join_with CHR ''/'' ps @ ''/''))"

definition filepath_base :: "string \<Rightarrow> string" where
  "filepath_base s =
     (if s = [] then ''.''
      else let t = rev (dropWhile (\<lambda>c. c = CHR ''/'') (rev s))
           in if t = [] then ''/'' else last (split_at CHR ''/'' t))"

definition filepath_ext :: "string \<Rightarrow> string" where
  "filepath_ext s =
     (let b = last (split_at CHR ''/'' s)
      in if CHR ''.'' \<in> set b then CHR ''.'' # last (split_at CHR ''.'' b) else [])"

definition filepath_abs :: "string list \<Rightarrow> string \<Rightarrow> string" where
  "filepath_abs wd s = (if is_rooted s then filepath_clean s else filepath_join (slashed wd) s)"

section \<open>The tree\<close>

datatype node = Dir | File "byte list"

type_synonym tree = "(string list \<times> node) list"

definition node_at :: "tree \<Rightarrow> string list \<Rightarrow> node option" where
  "node_at f p = (if p = [] then Some Dir else map_of f p)"

definition put_node :: "string list \<Rightarrow> node \<Rightarrow> tree \<Rightarrow> tree" where
  "put_node p n f = AList.update p n f"

definition drop_node :: "string list \<Rightarrow> tree \<Rightarrow> tree" where
  "drop_node p f = AList.delete p f"

abbreviation ENOENT :: go_error where "ENOENT \<equiv> Ext ''ENOENT''"
abbreviation ENOTDIR :: go_error where "ENOTDIR \<equiv> Ext ''ENOTDIR''"
abbreviation EISDIR :: go_error where "EISDIR \<equiv> Ext ''EISDIR''"
abbreviation ENOTEMPTY :: go_error where "ENOTEMPTY \<equiv> Ext ''ENOTEMPTY''"
abbreviation EBUSY :: go_error where "EBUSY \<equiv> Ext ''EBUSY''"
abbreviation EIO :: go_error where "EIO \<equiv> Ext ''EIO''"

text \<open>Going down the tree: \<open>here\<close> is where one stands, the rest is the way to go.\<close>

fun walk :: "tree \<Rightarrow> string list \<Rightarrow> string list \<Rightarrow> go_error + node" where
  "walk f here [] = (case node_at f here of None \<Rightarrow> Inl ENOENT | Some n \<Rightarrow> Inr n)"
| "walk f here (c # cs) =
     (case node_at f here of
        None \<Rightarrow> Inl ENOENT
      | Some (File _) \<Rightarrow> Inl ENOTDIR
      | Some Dir \<Rightarrow> walk f (here @ [c]) cs)"

fun make_dirs :: "tree \<Rightarrow> string list \<Rightarrow> string list \<Rightarrow> (go_error + unit) \<times> tree" where
  "make_dirs f here [] =
     (case node_at f here of
        None \<Rightarrow> (Inr (), put_node here Dir f)
      | Some (File _) \<Rightarrow> (Inl ENOTDIR, f)
      | Some Dir \<Rightarrow> (Inr (), f))"
| "make_dirs f here (c # cs) =
     (case node_at f here of
        None \<Rightarrow> make_dirs (put_node here Dir f) (here @ [c]) cs
      | Some (File _) \<Rightarrow> (Inl ENOTDIR, f)
      | Some Dir \<Rightarrow> make_dirs f (here @ [c]) cs)"

definition create_file :: "tree \<Rightarrow> string list \<Rightarrow> (go_error + unit) \<times> tree" where
  "create_file f p =
     (if p = [] then (Inl EISDIR, f)
      else case walk f [] (butlast p) of
        Inl e \<Rightarrow> (Inl e, f)
      | Inr (File _) \<Rightarrow> (Inl ENOTDIR, f)
      | Inr Dir \<Rightarrow> (if node_at f p = Some Dir then (Inl EISDIR, f) else (Inr (), put_node p (File []) f)))"

definition remove_node :: "tree \<Rightarrow> string list \<Rightarrow> (go_error + unit) \<times> tree" where
  "remove_node f p =
     (if p = [] then (Inl EBUSY, f)
      else case walk f [] p of
        Inl e \<Rightarrow> (Inl e, f)
      | Inr (File _) \<Rightarrow> (Inr (), drop_node p f)
      | Inr Dir \<Rightarrow>
          (if list_ex (\<lambda>(q, _). strict_prefix p q) f then (Inl ENOTEMPTY, f) else (Inr (), drop_node p f)))"

section \<open>The calls\<close>

text \<open>
  The state is the working directory, the tree, and how the coming calls end: \<open>Lost\<close> fails
  without effect, and \<open>Cut n\<close> fails after \<open>n\<close> directories or bytes where the call writes
  several, else without effect (no space, no permission, a broken disk).
\<close>

record disk =
  cwd :: "string list"
  nodes :: tree
  faults :: "outcome list"

definition next_fault :: "disk \<Rightarrow> outcome \<times> disk" where
  "next_fault d = (case faults d of [] \<Rightarrow> (Done, d) | oc # rest \<Rightarrow> (oc, d\<lparr>faults := rest\<rparr>))"

definition os_call ::
  "(tree \<Rightarrow> (go_error + 'a) \<times> tree) \<Rightarrow> (nat \<Rightarrow> tree \<Rightarrow> tree) \<Rightarrow> (disk, go_error + 'a) state" where
  "os_call act part = State (\<lambda>d.
     let (oc, d1) = next_fault d in
     case oc of
       Done \<Rightarrow> (let (r, f) = act (nodes d1) in (r, d1\<lparr>nodes := f\<rparr>))
     | Lost \<Rightarrow> (Inl EIO, d1)
     | Cut n \<Rightarrow> (Inl EIO, d1\<lparr>nodes := part n (nodes d1)\<rparr>))"

text \<open>Where a path leads: without links, taking the parts together is what the kernel does.\<close>

definition locate :: "string list \<Rightarrow> string \<Rightarrow> string list" where
  "locate wd s = clean_from True (if is_rooted s then [] else rev wd) (split_at CHR ''/'' s)"

definition os_mkdir_all :: "string \<Rightarrow> (disk, go_error + unit) state" where
  "os_mkdir_all s = do {
     wd \<leftarrow> read_state cwd;
     os_call (\<lambda>f. make_dirs f [] (locate wd s)) (\<lambda>n f. snd (make_dirs f [] (take n (locate wd s)))) }"

text \<open>
  Names are those that the file system takes: that \<open>open\<close> refuses a path with a NUL byte or one
  longer than the limits of the system is left out.
\<close>

definition os_create :: "string \<Rightarrow> (disk, go_error + unit) state" where
  "os_create s = do { wd \<leftarrow> read_state cwd; os_call (\<lambda>f. create_file f (locate wd s)) (\<lambda>_ f. f) }"

definition os_stat :: "string \<Rightarrow> (disk, go_error + node) state" where
  "os_stat s = do { wd \<leftarrow> read_state cwd; os_call (\<lambda>f. (walk f [] (locate wd s), f)) (\<lambda>_ f. f) }"

definition os_remove :: "string \<Rightarrow> (disk, go_error + unit) state" where
  "os_remove s = do { wd \<leftarrow> read_state cwd; os_call (\<lambda>f. remove_node f (locate wd s)) (\<lambda>_ f. f) }"

text \<open>
  An open file stays at its path, and what is written to it goes to its end: the storage
  writes to a file that it has just created, the logger opens its file with \<open>O_APPEND\<close>.
\<close>

definition file_bytes :: "tree \<Rightarrow> string list \<Rightarrow> byte list" where
  "file_bytes f p = (case node_at f p of Some (File c) \<Rightarrow> c | _ \<Rightarrow> [])"

definition append_bytes :: "string list \<Rightarrow> byte list \<Rightarrow> tree \<Rightarrow> tree" where
  "append_bytes p bs f = put_node p (File (file_bytes f p @ bs)) f"

definition open_append :: "tree \<Rightarrow> string list \<Rightarrow> (go_error + unit) \<times> tree" where
  "open_append f p = (case walk f [] p of Inr (File _) \<Rightarrow> (Inr (), f) | _ \<Rightarrow> create_file f p)"

definition os_open_append :: "string \<Rightarrow> (disk, go_error + unit) state" where
  "os_open_append s = do { wd \<leftarrow> read_state cwd; os_call (\<lambda>f. open_append f (locate wd s)) (\<lambda>_ f. f) }"

definition os_write :: "string \<Rightarrow> byte list \<Rightarrow> (disk, go_error + nat) state" where
  "os_write s bs = do {
     wd \<leftarrow> read_state cwd;
     os_call (\<lambda>f. (Inr (length bs), append_bytes (locate wd s) bs f)) (\<lambda>n f. append_bytes (locate wd s) (take n bs) f) }"

text \<open>What a call does where nothing goes wrong outside, and in general.\<close>

lemma run_os_call_empty [simp]:
  "faults d = [] \<Longrightarrow> run_state (os_call act part) d = (fst (act (nodes d)), d\<lparr>nodes := snd (act (nodes d))\<rparr>)"
  by (simp add: os_call_def next_fault_def split: prod.splits)

lemma os_call_ok:
  assumes "run_state (os_call act part) d = (Inr a, d')"
  shows "fst (act (nodes d)) = Inr a \<and> nodes d' = snd (act (nodes d)) \<and> cwd d' = cwd d"
  using assms by (auto simp: os_call_def next_fault_def split: prod.splits outcome.splits list.splits)

lemmas os_defs = os_mkdir_all_def os_create_def os_stat_def os_remove_def os_open_append_def os_write_def

section \<open>Lemmas\<close>

lemma node_at_put: "p \<noteq> [] \<Longrightarrow> node_at (put_node p n f) q = (if q = p then Some n else node_at f q)"
  by (simp add: node_at_def put_node_def update_conv)

lemma node_at_drop: "p \<noteq> [] \<Longrightarrow> node_at (drop_node p f) q = (if q = p then None else node_at f q)"
  by (simp add: node_at_def drop_node_def delete_conv)

lemma walk_found:
  "walk f here cs = Inr n \<longleftrightarrow> node_at f (here @ cs) = Some n \<and>
     (\<forall>q. strict_prefix q cs \<longrightarrow> node_at f (here @ q) = Some Dir)"
proof (induction cs arbitrary: here)
  case Nil
  then show ?case by (auto split: option.splits)
next
  case (Cons c cs)
  have "(\<forall>q. strict_prefix q (c # cs) \<longrightarrow> node_at f (here @ q) = Some Dir) \<longleftrightarrow>
    node_at f here = Some Dir \<and> (\<forall>q. strict_prefix q cs \<longrightarrow> node_at f (here @ c # q) = Some Dir)" (is "?l \<longleftrightarrow> ?r")
  proof
    assume l: ?l
    then have "node_at f (here @ []) = Some Dir" using spec [OF l, of "[]"] by simp
    moreover have "node_at f (here @ c # q) = Some Dir" if "strict_prefix q cs" for q
      using l that by (auto dest: spec [of _ "c # q"])
    ultimately show ?r by simp
  next
    assume r: ?r
    show ?l
    proof (intro allI impI)
      fix q assume "strict_prefix q (c # cs)"
      with r show "node_at f (here @ q) = Some Dir" by (cases q) auto
    qed
  qed
  with Cons.IH [of "here @ [c]"] show ?case by (auto split: option.splits node.splits)
qed

lemma node_at_fresh: "node_at f p = None \<Longrightarrow> node_at (put_node p n f) q = (if q = p then Some n else node_at f q)"
  by (rule node_at_put) (auto simp: node_at_def)

lemma all_prefixes_Cons: "(\<forall>p. prefix p (c # cs) \<longrightarrow> Q p) \<longleftrightarrow> Q [] \<and> (\<forall>p. prefix p cs \<longrightarrow> Q (c # p))"
  by (auto simp: prefix_Cons)

lemma make_dirs_keeps: "node_at f q = Some n \<Longrightarrow> node_at (snd (make_dirs f here cs)) q = Some n"
proof (induction f here cs rule: make_dirs.induct)
  case (2 f here c cs)
  then show ?case by (cases "q = here") (auto simp: node_at_fresh split: option.splits node.splits)
qed (auto simp: node_at_fresh split: option.splits node.splits)

lemma make_dirs_adds:
  "node_at f q = None \<Longrightarrow> node_at (snd (make_dirs f here cs)) q = None \<or>
     node_at (snd (make_dirs f here cs)) q = Some Dir \<and> (\<exists>p. prefix p cs \<and> q = here @ p)"
proof (induction f here cs rule: make_dirs.induct)
  case (1 f here)
  then show ?case by (auto simp: node_at_fresh split: option.splits node.splits)
next
  case (2 f here c cs)
  show ?case
  proof (cases "node_at f here")
    case None
    show ?thesis
    proof (cases "q = here")
      case True
      have "node_at (snd (make_dirs (put_node here Dir f) (here @ [c]) cs)) here = Some Dir"
        by (rule make_dirs_keeps) (simp add: node_at_fresh None)
      with None True show ?thesis by simp
    next
      case False
      with 2(1) [OF None] 2(3) None show ?thesis by (auto simp: node_at_fresh)
    qed
  next
    case (Some n)
    with 2 show ?thesis by (cases n) (auto simp: all_prefixes_Cons)
  qed
qed

lemma make_dirs_ok:
  "fst (make_dirs f here cs) = Inr () \<longleftrightarrow> (\<forall>p. prefix p cs \<longrightarrow> (\<forall>x. node_at f (here @ p) \<noteq> Some (File x)))"
proof (induction f here cs rule: make_dirs.induct)
  case (1 f here)
  then show ?case by (auto split: option.splits node.splits)
next
  case (2 f here c cs)
  show ?case
  proof (cases "node_at f here")
    case None
    with 2(1) [OF None] show ?thesis by (simp add: all_prefixes_Cons node_at_fresh)
  next
    case (Some n)
    with 2(2) show ?thesis by (cases n) (auto simp: all_prefixes_Cons)
  qed
qed

lemma make_dirs_made:
  "fst (make_dirs f here cs) = Inr () \<Longrightarrow> prefix p cs \<Longrightarrow> node_at (snd (make_dirs f here cs)) (here @ p) = Some Dir"
proof (induction f here cs arbitrary: p rule: make_dirs.induct)
  case (1 f here)
  then show ?case by (auto simp: node_at_fresh split: option.splits node.splits)
next
  case (2 f here c cs)
  have keep: "node_at (snd (make_dirs g (here @ [c]) cs)) here = Some Dir" if "node_at g here = Some Dir" for g
    using that by (rule make_dirs_keeps)
  show ?case
  proof (cases "node_at f here")
    case None
    with 2(1) [OF None] 2(3,4) keep [of "put_node here Dir f"] show ?thesis
      by (cases p) (auto simp: node_at_fresh)
  next
    case (Some n)
    with 2(2) [OF Some] 2(3,4) keep [of f] show ?thesis by (cases n; cases p) auto
  qed
qed

subsection \<open>Plain paths\<close>

text \<open>The parts of a clean absolute path.\<close>

definition plain :: "string \<Rightarrow> bool" where
  "plain c \<longleftrightarrow> c \<noteq> [] \<and> c \<noteq> ''.'' \<and> c \<noteq> ''..'' \<and> CHR ''/'' \<notin> set c"

lemma clean_plain:
  "\<forall>c \<in> set cs. plain c \<Longrightarrow> clean_from rooted acc (cs @ ds) = clean_from rooted (rev cs @ acc) ds"
  by (induction cs arbitrary: acc) (auto simp: plain_def)

lemma clean_plain_id: "\<forall>c \<in> set cs. plain c \<Longrightarrow> clean_from rooted acc cs = rev acc @ cs"
  using clean_plain [of cs rooted acc "[]"] by simp

lemma clean_parts:
  "\<forall>c \<in> set acc. plain c \<Longrightarrow> \<forall>c \<in> set cs. CHR ''/'' \<notin> set c \<Longrightarrow> c \<in> set (clean_from True acc cs) \<Longrightarrow> plain c"
proof (induction cs arbitrary: acc)
  case (Cons d cs)
  consider "d = [] \<or> d = ''.''" | "d = ''..''" "acc = []" | a as where "d = ''..''" "acc = a # as"
    | "plain d" "d \<noteq> []" "d \<noteq> ''.''" "d \<noteq> ''..''"
    using Cons.prems(2) by (cases acc) (auto simp: plain_def)
  then show ?case
  proof cases
    case 1
    with Cons.prems show ?thesis by (intro Cons.IH [of acc]) auto
  next
    case 2
    with Cons.prems show ?thesis by (intro Cons.IH [of "[]"]) auto
  next
    case (3 a as)
    with Cons.prems have "a \<noteq> ''..''" by (auto simp: plain_def)
    with 3 Cons.prems show ?thesis by (intro Cons.IH [of as]) auto
  next
    case 4
    with Cons.prems show ?thesis by (intro Cons.IH [of "d # acc"]) auto
  qed
qed auto

lemma clean_without_up:
  "''..'' \<notin> set cs \<Longrightarrow> clean_from rooted acc cs = rev acc @ filter (\<lambda>c. c \<noteq> [] \<and> c \<noteq> ''.'') cs"
  by (induction cs arbitrary: acc) auto

lemma clean_up:
  "\<forall>c \<in> set acc. plain c \<Longrightarrow> clean_from True acc (replicate (length acc) ''..'' @ cs) = clean_from True [] cs"
  by (induction acc) (auto simp: plain_def)

lemma split_at_concat: "split_at c (a @ c # b) = split_at c a @ split_at c b"
  by (induction a) (auto split: list.splits simp: Cons_eq_append_conv)

lemma split_slashed: "\<forall>c \<in> set p. plain c \<Longrightarrow> split_at CHR ''/'' (slashed p) = [] # (if p = [] then [[]] else p)"
  by (auto simp: slashed_def plain_def intro!: split_join)

lemma slashed_rooted [simp]: "is_rooted (slashed p)" "slashed p \<noteq> []"
  by (simp_all add: is_rooted_def slashed_def)

lemma locate_slashed: "\<forall>c \<in> set p. plain c \<Longrightarrow> locate wd (slashed p) = p"
  by (simp add: locate_def split_slashed clean_plain_id)

lemma join_slashed:
  assumes "\<forall>c \<in> set base. plain c"
  shows "filepath_join (slashed base) key = slashed (clean_from True (rev base) (split_at CHR ''/'' key))"
proof -
  have r: "is_rooted (slashed base @ CHR ''/'' # key)" by (simp add: is_rooted_def slashed_def)
  have "clean_from True [] (split_at CHR ''/'' (slashed base @ CHR ''/'' # key)) =
      clean_from True (rev base) (split_at CHR ''/'' key)"
    using clean_plain [OF assms, of True "[]"] by (simp add: split_at_concat split_slashed [OF assms])
  with r show ?thesis by (simp add: filepath_join_def filepath_clean_def)
qed

lemma split_slash_free: "c \<in> set (split_at CHR ''/'' s) \<Longrightarrow> CHR ''/'' \<notin> set c"
  by (rule split_parts_free)

lemma dir_slashed:
  assumes "\<forall>c \<in> set p. plain c"
  shows "filepath_dir (slashed p) = slashed (butlast p)"
proof (cases "p = []")
  case True
  then show ?thesis by (simp add: filepath_dir_def slashed_def filepath_clean_def is_rooted_def)
next
  case False
  then have s: "butlast (split_at CHR ''/'' (slashed p)) = [] # butlast p" by (simp add: split_slashed [OF assms])
  have b: "\<forall>c \<in> set (butlast p). plain c" using assms by (auto dest: in_set_butlastD)
  have j: "join_with CHR ''/'' ([] # ps) @ ''/'' = slashed ps @ (if ps = [] then [] else ''/'')" for ps
    by (cases ps) (simp_all add: slashed_def)
  have sp: "split_at CHR ''/'' (slashed ps @ ''/'') = split_at CHR ''/'' (slashed ps) @ [[]]" for ps
    using split_at_concat [of "CHR ''/''" "slashed ps" "[]"] by simp
  have r: "is_rooted (slashed ps @ xs)" for ps xs by (simp add: is_rooted_def slashed_def)
  show ?thesis
  proof (cases "butlast p = []")
    case True
    then have "butlast (split_at CHR ''/'' (slashed p)) = [[]]" using s by simp
    with True show ?thesis by (simp add: filepath_dir_def filepath_clean_def is_rooted_def slashed_def)
  next
    case nonempty: False
    then have "filepath_dir (slashed p) = filepath_clean (slashed (butlast p) @ ''/'')"
      unfolding filepath_dir_def s Let_def j by simp
    also have "\<dots> = slashed (butlast p)"
      using clean_plain [OF b, of True "[]" "[[]]"] nonempty
      by (simp add: filepath_clean_def r sp split_slashed [OF b] del: split_at.simps)
    finally show ?thesis .
  qed
qed

subsection \<open>Trees\<close>

text \<open>What is in the tree is in directories.\<close>

definition tree_ok :: "tree \<Rightarrow> bool" where
  "tree_ok f \<longleftrightarrow> (\<forall>q p. node_at f q \<noteq> None \<longrightarrow> strict_prefix p q \<longrightarrow> node_at f p = Some Dir)"

lemma node_at_root [simp]: "node_at f [] = Some Dir"
  by (simp add: node_at_def)

lemma walk_root: "walk f [] p = Inr n \<longleftrightarrow> node_at f p = Some n \<and> (\<forall>q. strict_prefix q p \<longrightarrow> node_at f q = Some Dir)"
  using walk_found [of f "[]" p n] by simp

lemma walk_tree: "tree_ok f \<Longrightarrow> walk f [] p = Inr n \<longleftrightarrow> node_at f p = Some n"
  by (auto simp: walk_root tree_ok_def)

lemma make_dirs_tree:
  assumes "tree_ok f" and "fst (make_dirs f [] cs) = Inr ()"
  shows "tree_ok (snd (make_dirs f [] cs))"
  unfolding tree_ok_def
proof (intro allI impI)
  fix q p assume q: "node_at (snd (make_dirs f [] cs)) q \<noteq> None" "strict_prefix p q"
  show "node_at (snd (make_dirs f [] cs)) p = Some Dir"
  proof (cases "node_at f q = None")
    case True
    then have "prefix q cs" using make_dirs_adds [OF True, of "[]" cs] q(1) by auto
    then have "prefix p cs" using q(2) by (meson prefix_order.less_imp_le prefix_order.trans)
    from make_dirs_made [OF assms(2) this] show ?thesis by simp
  next
    case False
    with assms(1) q(2) have "node_at f p = Some Dir" by (simp add: tree_ok_def)
    then show ?thesis by (rule make_dirs_keeps)
  qed
qed

text \<open>Creating a file below directories that exist, and writing to it.\<close>

lemma create_file_ok:
  assumes "fst (create_file f p) = Inr ()"
  shows "p \<noteq> [] \<and> snd (create_file f p) = put_node p (File []) f \<and> node_at f p \<noteq> Some Dir \<and>
    (\<forall>q. strict_prefix q p \<longrightarrow> node_at f q = Some Dir)"
proof -
  from assms have p: "p \<noteq> []" "walk f [] (butlast p) = Inr Dir" "node_at f p \<noteq> Some Dir"
    "snd (create_file f p) = put_node p (File []) f"
    by (auto simp: create_file_def split: if_splits sum.splits node.splits)
  have "node_at f q = Some Dir" if "strict_prefix q p" for q
  proof -
    from that p(1) have "prefix q (butlast p)"
      by (metis append_butlast_last_id prefix_order.less_le prefix_snoc)
    with p(2) show ?thesis by (cases "q = butlast p") (auto simp: walk_root)
  qed
  with p show ?thesis by blast
qed

lemma put_file_tree:
  assumes "tree_ok f" and "p \<noteq> []" and "\<forall>q. strict_prefix q p \<longrightarrow> node_at f q = Some Dir" and "node_at f p \<noteq> Some Dir"
  shows "tree_ok (put_node p (File c) f)"
  unfolding tree_ok_def
proof (intro allI impI)
  fix q r assume "node_at (put_node p (File c) f) q \<noteq> None" "strict_prefix r q"
  with assms have "node_at f r = Some Dir" by (auto simp: node_at_put tree_ok_def split: if_splits)
  moreover from this assms(4) have "r \<noteq> p" by auto
  ultimately show "node_at (put_node p (File c) f) r = Some Dir" by (simp add: node_at_put assms(2))
qed

lemma drop_file_tree:
  assumes "tree_ok f" and "node_at f p = Some (File c)"
  shows "tree_ok (drop_node p f)"
proof -
  have "p \<noteq> []" using assms(2) by auto
  with assms show ?thesis unfolding tree_ok_def by (auto simp: node_at_drop)
qed

subsection \<open>Cleaning a path does not change where it leads\<close>

lemma clean_append: "clean_from True acc (xs @ ys) = clean_from True (rev (clean_from True acc xs)) ys"
  by (induction xs arbitrary: acc) (auto split: list.split)

lemma clean_down_up: "plain a \<Longrightarrow> clean_from True acc (a # ''..'' # cs) = clean_from True acc cs"
  by (simp add: plain_def)

lemma clean_twice:
  "\<forall>c \<in> set acc. plain c \<or> c = ''..'' \<Longrightarrow> \<forall>c \<in> set cs. CHR ''/'' \<notin> set c \<Longrightarrow>
     clean_from True A (clean_from False acc cs) = clean_from True A (rev acc @ cs)"
proof (induction cs arbitrary: acc)
  case (Cons d cs)
  note IH = Cons.IH
  consider "d = [] \<or> d = ''.''" | "d = ''..''" "acc = []" | as where "d = ''..''" "acc = ''..'' # as"
    | a as where "d = ''..''" "acc = a # as" "plain a" "a \<noteq> ''..''" | "plain d" "d \<noteq> []" "d \<noteq> ''.''" "d \<noteq> ''..''"
    using Cons.prems by (cases acc) (auto simp: plain_def)
  then show ?case
  proof cases
    case 1
    then have "clean_from True A (rev acc @ d # cs) = clean_from True A (rev acc @ cs)"
      by (auto simp: clean_append)
    with 1 IH [of acc] Cons.prems show ?thesis by auto
  next
    case 2
    with IH [of "[''..'']"] Cons.prems show ?thesis by simp
  next
    case (3 as)
    with IH [of "''..'' # acc"] Cons.prems show ?thesis by simp
  next
    case (4 a as)
    have "clean_from True A (rev as @ a # ''..'' # cs) = clean_from True A (rev as @ cs)"
      using 4(3) by (simp only: clean_append clean_down_up)
    with 4 IH [of as] Cons.prems show ?thesis by simp
  next
    case 5
    with IH [of "d # acc"] Cons.prems show ?thesis by simp
  qed
qed simp

lemma clean_relative_parts:
  "\<forall>c \<in> set acc. plain c \<or> c = ''..'' \<Longrightarrow> \<forall>c \<in> set cs. CHR ''/'' \<notin> set c \<Longrightarrow>
     c \<in> set (clean_from False acc cs) \<Longrightarrow> plain c \<or> c = ''..''"
proof (induction cs arbitrary: acc)
  case (Cons d cs)
  consider "d = [] \<or> d = ''.''" | "d = ''..''" "acc = []" | as where "d = ''..''" "acc = ''..'' # as"
    | a as where "d = ''..''" "acc = a # as" "a \<noteq> ''..''" | "plain d" "d \<noteq> []" "d \<noteq> ''.''" "d \<noteq> ''..''"
    using Cons.prems by (cases acc) (auto simp: plain_def)
  then show ?case
  proof cases
    case 1
    with Cons.prems show ?thesis by (intro Cons.IH [of acc]) auto
  next
    case 2
    with Cons.prems show ?thesis by (intro Cons.IH [of "[''..'']"]) auto
  next
    case (3 as)
    with Cons.prems show ?thesis by (intro Cons.IH [of "''..'' # acc"]) auto
  next
    case (4 a as)
    with Cons.prems show ?thesis by (intro Cons.IH [of as]) auto
  next
    case 5
    with Cons.prems show ?thesis by (intro Cons.IH [of "d # acc"]) auto
  qed
qed auto

lemma locate_clean: "locate wd (filepath_clean s) = locate wd s"
proof (cases "is_rooted s")
  case True
  let ?cs = "clean_from True [] (split_at CHR ''/'' s)"
  have "\<forall>c \<in> set ?cs. plain c" by (intro ballI, rule clean_parts [of "[]"]) (auto dest: split_slash_free)
  then have "locate wd (slashed ?cs) = ?cs" by (rule locate_slashed)
  with True show ?thesis by (simp add: filepath_clean_def Let_def locate_def)
next
  case False
  let ?cs = "clean_from False [] (split_at CHR ''/'' s)"
  let ?t = "if ?cs = [] then ''.'' else join_with CHR ''/'' ?cs"
  have parts: "plain c \<or> c = ''..''" if "c \<in> set ?cs" for c
    using that by (intro clean_relative_parts [of "[]" "split_at CHR ''/'' s"]) (auto dest: split_slash_free)
  have free: "\<forall>c \<in> set ?cs. CHR ''/'' \<notin> set c"
  proof
    fix c assume "c \<in> set ?cs"
    from parts [OF this] show "CHR ''/'' \<notin> set c" by (auto simp: plain_def)
  qed
  have "clean_from True A (split_at CHR ''/'' ?t) = clean_from True A (split_at CHR ''/'' s)" for A
  proof -
    have "\<forall>c \<in> set (split_at CHR ''/'' s). CHR ''/'' \<notin> set c" by (auto dest: split_slash_free)
    from clean_twice [OF _ this, of "[]" A] split_join [OF _ free] show ?thesis by auto
  qed
  moreover have "\<not> is_rooted ?t"
  proof (cases ?cs)
    case (Cons c cs)
    then have "c \<noteq> []" using parts [of c] by (auto simp: plain_def)
    moreover from this Cons free have "hd c \<noteq> CHR ''/''" by (metis list.set_intros(1) list.set_sel(1))
    ultimately have "c \<noteq> []" "hd c \<noteq> CHR ''/''" by simp_all
    then show ?thesis unfolding Cons by (cases cs; cases c) (auto simp: is_rooted_def)
  qed (simp add: is_rooted_def)
  ultimately show ?thesis using False by (simp add: filepath_clean_def Let_def locate_def)
qed

text \<open>A plain name in a directory.\<close>

lemma locate_join:
  assumes "dir \<noteq> []" and "plain name"
  shows "locate wd (filepath_join dir name) = locate wd dir @ [name]"
proof -
  have "locate wd (filepath_join dir name) = locate wd (dir @ CHR ''/'' # name)"
    using assms(1) by (simp add: filepath_join_def locate_clean)
  also have "\<dots> = locate wd dir @ [name]"
    using assms by (simp add: locate_def is_rooted_def split_at_concat clean_append split_at_free plain_def)
  finally show ?thesis .
qed

lemma filepath_clean_nonempty: "filepath_clean s \<noteq> []"
proof (cases "is_rooted s")
  case False
  let ?cs = "clean_from False [] (split_at CHR ''/'' s)"
  have parts: "plain c \<or> c = ''..''" if "c \<in> set ?cs" for c
    using that by (intro clean_relative_parts [of "[]" "split_at CHR ''/'' s"]) (auto dest: split_slash_free)
  show ?thesis
  proof (cases ?cs)
    case (Cons c cs)
    with parts [of c] have "c \<noteq> []" by (auto simp: plain_def)
    with False Cons show ?thesis by (cases cs) (simp_all add: filepath_clean_def)
  qed (use False in \<open>simp add: filepath_clean_def\<close>)
qed (simp add: filepath_clean_def slashed_def)

end
