(* ===== verification/LoadReport.thy ===== *)
theory LoadReport
  imports LoadWorkers Disk
begin

text \<open>
  What the load test prints and writes, \<open>cmd/loadtest/main.go\<close>: the formats of \<open>fmt\<close> that it
  uses, the report of a scenario, the report and the verdict of the whole run, its flags, and
  the file of results. The output is a list of lines; a line that the code starts with a
  newline is an empty line and another one. The two notices that an administration worker
  prints while it waits are left out.
\<close>

section \<open>Formats\<close>

definition pad_left :: "nat \<Rightarrow> string \<Rightarrow> string" where
  "pad_left w s = replicate (w - length s) CHR '' '' @ s"

definition pad_right :: "nat \<Rightarrow> string \<Rightarrow> string" where
  "pad_right w s = s @ replicate (w - length s) CHR '' ''"

text \<open>
  \<open>%.pf\<close> prints the decimal nearest to the exact value of the number, a tie to the even digit.
\<close>

definition fixed :: "nat \<Rightarrow> rat \<Rightarrow> string" where
  "fixed p x =
     (let ds = digits (nat (half_even (\<bar>x\<bar> * 10 ^ p))); ds = replicate (Suc p - length ds) CHR ''0'' @ ds;
          k = length ds - p
      in (if x < 0 then ''-'' else []) @ take k ds @ (if p = 0 then [] else CHR ''.'' # drop k ds))"

definition rate_text :: "nat \<Rightarrow> rat option \<Rightarrow> string" where
  "rate_text p r = (case r of None \<Rightarrow> ''+Inf'' | Some x \<Rightarrow> fixed p x)"

text \<open>\<open>%s\<close> of a \<open>time.Duration\<close>: the largest unit that fits, its fraction without trailing zeros.\<close>

definition fraction :: "nat \<Rightarrow> nat \<Rightarrow> string" where
  "fraction p v =
     (let ds = rev (dropWhile (\<lambda>c. c = CHR ''0'') (rev (replicate (p - length (digits v)) CHR ''0'' @ digits v)))
      in if ds = [] then [] else CHR ''.'' # ds)"

definition duration_text :: "duration \<Rightarrow> string" where
  "duration_text d =
     (let u = nat \<bar>d\<bar>; s = u div 1000000000; m = s div 60; h = m div 60
      in if u = 0 then ''0s''
         else (if d < 0 then ''-'' else []) @
           (if u < 1000 then digits u @ ''ns''
            else if u < 1000000 then digits (u div 1000) @ fraction 3 (u mod 1000) @ map char_of [0xC2, 0xB5 :: nat] @ ''s''
            else if u < 1000000000 then digits (u div 1000000) @ fraction 6 (u mod 1000000) @ ''ms''
            else (if h = 0 then [] else digits h @ ''h'') @ (if m = 0 then [] else digits (m mod 60) @ ''m'') @
              digits (s mod 60) @ fraction 9 (u mod 1000000000) @ ''s''))"

section \<open>The report of a scenario\<close>

definition rule_line :: "nat list \<Rightarrow> string" where
  "rule_line c = concat (replicate 60 (map char_of c))"

abbreviation thin :: string where "thin \<equiv> rule_line [0xE2, 0x94, 0x80]"
abbreviation thick :: string where "thick \<equiv> rule_line [0xE2, 0x95, 0x90]"

definition latency_line :: "string \<Rightarrow> rat \<Rightarrow> string" where
  "latency_line label x = ''    '' @ label @ '' = '' @ pad_left 8 (fixed 2 x) @ '' ms''"

text \<open>The codes in ascending order; \<open>append_codes\<close> puts a comma before each but the first.\<close>

definition status_codes :: "summary \<Rightarrow> int list" where
  "status_codes s = sorted_list_of_set (dom (StatusCount s))"

definition code_text :: "summary \<Rightarrow> int \<Rightarrow> string" where
  "code_text s code = decimal code @ '': '' @ decimal (case StatusCount s code of None \<Rightarrow> 0 | Some n \<Rightarrow> n)"

fun append_codes :: "summary \<Rightarrow> int list \<Rightarrow> string" where
  "append_codes s [] = []"
| "append_codes s [c] = code_text s c"
| "append_codes s (c # d # cs) = code_text s c @ '', '' @ append_codes s (d # cs)"

definition print_summary :: "summary \<Rightarrow> string list" where
  "print_summary s =
     [thin,
      ''  Total Requests:  '' @ decimal (TotalRequests s),
      ''  Success:         '' @ decimal (Success s) @ ''  Failed: '' @ decimal (Failed s),
      ''  Throughput:      '' @ rate_text 1 (RPS s) @ '' req/s'',
      ''  Latency:'',
      latency_line ''min '' (Min s), latency_line ''avg '' (Avg s), latency_line ''p50 '' (P50 s),
      latency_line ''p90 '' (P90 s), latency_line ''p99 '' (P99 s), latency_line ''p999'' (P999 s),
      latency_line ''max '' (Max s),
      ''  Status codes:    '' @ append_codes s (status_codes s),
      thin]"

section \<open>The report of the run\<close>

definition scenario_lines :: "string \<Rightarrow> lt_config \<Rightarrow> summary \<Rightarrow> string list" where
  "scenario_lines desc c s =
     [[], map char_of [0xF0, 0x9F, 0x9A, 0x80 :: nat] @ '' '' @ desc @ '' ('' @ decimal (Concurrency c) @ '' concurrent, '' @
        duration_text (Duration c) @ '' duration)''] @ print_summary s"

definition warmup_lines :: "lt_config \<Rightarrow> summary \<Rightarrow> string list" where
  "warmup_lines c s =
     [[], map char_of [0xF0, 0x9F, 0x94, 0xA5 :: nat] @ '' Warmup... ('' @ decimal (Concurrency c) @ '' concurrent, '' @
        duration_text (WarmupDuration c) @ '')'',
      ''  Warmup requests: '' @ decimal (TotalRequests s) @ '' ('' @ rate_text 1 (RPS s) @ '' req/s)'']"

definition banner :: "lt_config \<Rightarrow> string list" where
  "banner c =
     [thick, ''  LOAD TEST'', thick,
      ''  Target:        '' @ BaseURL c, ''  Concurrency:   '' @ decimal (Concurrency c),
      ''  Duration:      '' @ duration_text (Duration c), ''  Warmup:        '' @ duration_text (WarmupDuration c), thick]"

definition table_line :: "string \<Rightarrow> string list \<Rightarrow> string" where
  "table_line name cols = ''  '' @ pad_right 25 name @ concat (map (\<lambda>x. '' '' @ pad_left 12 x) cols)"

definition table_row :: "string \<Rightarrow> summary \<Rightarrow> string" where
  "table_row name s =
     table_line name [decimal (TotalRequests s), rate_text 1 (RPS s), fixed 2 (P50 s), fixed 2 (P99 s), decimal (Failed s)]"

definition final_table :: "results \<Rightarrow> string list" where
  "final_table r =
     [thick, ''  FINAL RESULTS'', thick,
      table_line ''Scenario'' [''Total'', ''RPS'', ''p50(ms)'', ''p99(ms)'', ''Errors''],
      table_row ''Health'' (health r), table_row ''Mixed'' (mixed r), table_row ''Admin'' (admin r), thick]"

definition verdict_lines :: "lt_config \<Rightarrow> summary \<Rightarrow> string list" where
  "verdict_lines c s =
     (case verdict_of s of
        Stable \<Rightarrow>
          [[], map char_of [0xE2, 0x9C, 0x85 :: nat] @ '' System appears stable at '' @ decimal (Concurrency c) @ '' concurrent users'',
           ''   Estimated max throughput: ~'' @ rate_text 0 (map_option (\<lambda>x. f_mul x 2) (RPS s)) @ '' req/s'',
           ''   To find the breaking point, increase -c and -d flags'']
      | Moderate \<Rightarrow>
          [[], map char_of [0xE2, 0x9A, 0xA0 :: nat] @ '' System is under moderate load at '' @ decimal (Concurrency c) @ '' concurrent users'',
           ''   p99='' @ fixed 1 (P99 s) @ ''ms. Consider increasing resources or tuning.'']
      | Saturated \<Rightarrow>
          [[], map char_of [0xE2, 0x9D, 0x8C :: nat] @ '' System is saturated at '' @ decimal (Concurrency c) @ '' concurrent users'',
           ''   p99='' @ fixed 1 (P99 s) @ ''ms, errors='' @ decimal (Failed s) @ ''. This is near the breaking point.''])"

definition report :: "lt_config \<Rightarrow> results \<Rightarrow> string list" where
  "report c r =
     banner c @ warmup_lines c (warm r) @ scenario_lines ''Health endpoint'' c (health r) @
     scenario_lines ''Mixed workload (register + login + API calls)'' c (mixed r) @
     scenario_lines ''Admin operations'' c (admin r) @ final_table r @ verdict_lines c (mixed r)"

section \<open>Flags and the file of results\<close>

text \<open>What \<open>flag.Parse\<close> found on the command line; the defaults are the code's.\<close>

record lt_flags =
  f_url :: "string option"
  f_c :: "int option"
  f_d :: "duration option"
  f_warmup :: "duration option"
  f_admin_email :: "string option"
  f_admin_password :: "string option"
  f_o :: "string option"

definition flag :: "'a option \<Rightarrow> 'a \<Rightarrow> 'a" where
  "flag given dflt = (case given of None \<Rightarrow> dflt | Some v \<Rightarrow> v)"

definition config_of_flags :: "lt_flags \<Rightarrow> lt_config" where
  "config_of_flags f =
     \<lparr>Concurrency = flag (f_c f) 20, Duration = flag (f_d f) (30 * nsSecond),
      BaseURL = flag (f_url f) ''http://localhost:8080'', AdminEmail = flag (f_admin_email f) ''admin@example.com'',
      AdminPassword = flag (f_admin_password f) ''admin123!'', WarmupDuration = flag (f_warmup f) (5 * nsSecond)\<rparr>"

text \<open>
  \<open>enc\<close> is the text that \<open>json.MarshalIndent\<close> makes of summaries under their names, which it
  sorts; it has no text for an infinite rate, and then the file is empty. What becomes of the
  file is not looked at.
\<close>

type_synonym json_encoder = "(string \<times> summary) list \<Rightarrow> byte list"

definition marshal :: "json_encoder \<Rightarrow> results \<Rightarrow> byte list" where
  "marshal enc r =
     (if RPS (admin r) = None \<or> RPS (health r) = None \<or> RPS (mixed r) = None then []
      else enc [(''admin'', admin r), (''health'', health r), (''mixed'', mixed r)])"

definition os_write_file :: "string \<Rightarrow> byte list \<Rightarrow> (disk, go_error + unit) state" where
  "os_write_file path bs =
     on_error (os_create path) (\<lambda>e. ret (Inl e)) (\<lambda>_.
       if bs = [] then ret (Inr ()) else on_error (os_write path bs) (\<lambda>e. ret (Inl e)) (\<lambda>_. ret (Inr ())))"

definition write_results :: "json_encoder \<Rightarrow> string \<Rightarrow> results \<Rightarrow> (disk, string list) state" where
  "write_results enc path r =
     (if path = [] then ret []
      else do {
        _ \<leftarrow> os_write_file path (marshal enc r);
        ret [[], map char_of [0xF0, 0x9F, 0x93, 0x84 :: nat] @ '' Results written to '' @ path] })"

text \<open>
  \<open>main\<close>: the lines that it prints and the files that it leaves, or the panic. A crash prints
  what came before it; only its error is kept here. Of the signals of the keyboard only the
  first one does anything: when \<open>n\<close> lines are out, it has one more line printed.
\<close>

definition on_interrupt :: "nat option \<Rightarrow> string list \<Rightarrow> string list" where
  "on_interrupt sig out =
     (case sig of None \<Rightarrow> out
      | Some n \<Rightarrow> take n out @ [[], map char_of [0xE2, 0x9A, 0xA0 :: nat] @ '' Interrupted, printing results...''] @ drop n out)"

definition load_test_main ::
  "json_encoder \<Rightarrow> (nat \<Rightarrow> nat \<Rightarrow> net) \<Rightarrow> (nat \<Rightarrow> nat \<Rightarrow> int) \<Rightarrow> lt_flags \<Rightarrow> nat option \<Rightarrow> time \<Rightarrow> disk \<Rightarrow>
     ((go_error + string list) \<times> disk) option" where
  "load_test_main enc nets ids f sig t0 d =
     (let c = config_of_flags f
      in case load_test nets ids c t0 of
           None \<Rightarrow> None
         | Some (Inl e) \<Rightarrow> Some (Inl e, d)
         | Some (Inr r) \<Rightarrow>
             (let (ls, d') = run_state (write_results enc (flag (f_o f) []) r) d
              in Some (Inr (on_interrupt sig (report c r @ ls)), d')))"

section \<open>Reading numbers back\<close>

text \<open>The inverse of \<open>digits\<close>, \<open>decimal\<close> and \<open>fixed\<close>, to say what a reader of the report learns.\<close>

definition read_digits :: "string \<Rightarrow> nat" where
  "read_digits s = foldl (\<lambda>n c. 10 * n + (of_char c - 48)) 0 s"

definition read_int :: "string \<Rightarrow> int" where
  "read_int s = (case s of CHR ''-'' # ds \<Rightarrow> - int (read_digits ds) | _ \<Rightarrow> int (read_digits s))"

definition read_fixed :: "string \<Rightarrow> rat" where
  "read_fixed s =
     (case split_at CHR ''.'' s of
        [a, b] \<Rightarrow> of_nat (read_digits (a @ b)) / 10 ^ length b
      | _ \<Rightarrow> of_nat (read_digits s))"

definition numeral_char :: "char \<Rightarrow> bool" where
  "numeral_char c \<longleftrightarrow> 48 \<le> (of_char c :: nat) \<and> (of_char c :: nat) < 58"

declare digits.simps [simp del]

lemma digits_small: "n < 10 \<Longrightarrow> digits n = [char_of (48 + n)]"
  by (simp add: digits.simps)

lemma digits_step: "10 \<le> n \<Longrightarrow> digits n = digits (n div 10) @ [char_of (48 + n mod 10)]"
  by (simp add: digits.simps [of n])

lemma digit_char: "k < 10 \<Longrightarrow> numeral_char (char_of (48 + k)) \<and> of_char (char_of (48 + k) :: char) = (48 + k :: nat)"
  for k :: nat
  by (simp add: numeral_char_def)

lemma read_digits_snoc: "read_digits (s @ [c]) = 10 * read_digits s + (of_char c - 48)"
  by (simp add: read_digits_def)

lemma read_of_digits: "read_digits (digits n) = n \<and> digits n \<noteq> [] \<and> (\<forall>c \<in> set (digits n). numeral_char c)"
proof (induction n rule: digits.induct)
  case (1 n)
  show ?case
  proof (cases "n < 10")
    case True
    with digit_char [OF True] show ?thesis by (simp add: digits_small read_digits_def)
  next
    case False
    with 1 have IH: "read_digits (digits (n div 10)) = n div 10" "\<forall>c \<in> set (digits (n div 10)). numeral_char c" by simp_all
    have "n mod 10 < 10" by simp
    note c = digit_char [OF this]
    from False have s: "digits n = digits (n div 10) @ [char_of (48 + n mod 10)]" by (simp add: digits_step)
    have "read_digits (digits n) = 10 * (n div 10) + n mod 10" unfolding s read_digits_snoc using IH(1) c by simp
    then show ?thesis unfolding s using IH(2) c by simp
  qed
qed

lemma read_leading_zeros: "read_digits (replicate k CHR ''0'' @ s) = read_digits s"
  by (induction k) (simp_all add: read_digits_def)

lemma read_int_decimal: "read_int (decimal k) = k"
proof -
  have "digits n \<noteq> CHR ''-'' # ds" for n ds using read_of_digits [of n] by (auto simp: numeral_char_def)
  then have "read_int (digits n) = int n" for n
    using read_of_digits [of n] by (auto simp: read_int_def split: list.splits char.splits bool.splits)
  then show ?thesis using read_of_digits by (auto simp: decimal_def read_int_def)
qed

lemma decimal_chars: "c \<in> set (decimal k) \<Longrightarrow> numeral_char c \<or> c = CHR ''-''"
  using read_of_digits by (auto simp: decimal_def split: if_splits)

lemma char_facts [simp]:
  "\<not> numeral_char CHR '' ''" "\<not> numeral_char CHR ''.''" "\<not> numeral_char CHR '',''" "\<not> numeral_char CHR '':''"
  "\<not> numeral_char CHR ''-''" "\<not> numeral_char CHR ''=''" "numeral_char CHR ''0''"
  by (simp_all add: numeral_char_def)

text \<open>The digits before and after the point.\<close>

lemma fixed_parts:
  assumes "0 \<le> x" and "0 < p"
  shows "\<exists>a b. fixed p x = a @ CHR ''.'' # b \<and> length b = p \<and> a \<noteq> [] \<and> (\<forall>c \<in> set (a @ b). numeral_char c) \<and>
    read_digits (a @ b) = nat (half_even (x * 10 ^ p))"
proof -
  let ?n = "nat (half_even (x * 10 ^ p))"
  define ds where "ds = replicate (Suc p - length (digits ?n)) CHR ''0'' @ digits ?n"
  have l: "p < length ds" by (simp add: ds_def)
  have f: "fixed p x = take (length ds - p) ds @ CHR ''.'' # drop (length ds - p) ds"
    using assms by (simp add: fixed_def Let_def ds_def)
  have "read_digits ds = ?n" unfolding ds_def read_leading_zeros using read_of_digits by simp
  moreover have "\<forall>c \<in> set ds. numeral_char c" using read_of_digits [of ?n] by (auto simp: ds_def)
  moreover have "take (length ds - p) ds \<noteq> []" using l by auto
  moreover have "length (drop (length ds - p) ds) = p" using l by simp
  ultimately show ?thesis unfolding f
    by (intro exI [of _ "take (length ds - p) ds"] exI [of _ "drop (length ds - p) ds"]) (simp flip: set_append)
qed

lemma half_even_error: "\<bar>of_int (half_even x) - x\<bar> \<le> 1 / 2"
  unfolding half_even_def Let_def using floor_correct [of x] by (auto split: if_split abs_split)

lemma half_even_nonneg: "0 \<le> x \<Longrightarrow> 0 \<le> half_even x"
  using half_even_mono [of 0 x] half_even_int [of 0] by simp

lemma read_fixed:
  assumes "0 \<le> x" and "0 < p"
  shows "read_fixed (fixed p x) = of_int (half_even (x * 10 ^ p)) / 10 ^ p"
proof -
  from fixed_parts [OF assms] obtain a b where
    f: "fixed p x = a @ CHR ''.'' # b" "length b = p" "\<forall>c \<in> set (a @ b). numeral_char c"
      "read_digits (a @ b) = nat (half_even (x * 10 ^ p))" by blast
  have "CHR ''.'' \<notin> set (a @ b)" using f(3) char_facts(2) by blast
  then have "CHR ''.'' \<notin> set a" "CHR ''.'' \<notin> set b" by simp_all
  then have "split_at CHR ''.'' (fixed p x) = [a, b]" by (simp add: f(1) split_at_append split_at_free)
  moreover have "0 \<le> half_even (x * 10 ^ p)" using assms(1) by (intro half_even_nonneg) simp
  ultimately show ?thesis by (simp add: read_fixed_def f(2,4))
qed

lemma read_fixed_near:
  assumes "0 \<le> x"
  shows "\<bar>read_fixed (fixed 2 x) - x\<bar> \<le> 1 / 200"
proof -
  have "\<bar>of_int (half_even (x * 100)) - x * 100\<bar> \<le> 1 / 2" by (rule half_even_error)
  then show ?thesis using read_fixed [OF assms, of 2] by (simp add: field_simps abs_if split: if_splits)
qed

lemma read_fixed_mono: "0 \<le> x \<Longrightarrow> x \<le> y \<Longrightarrow> read_fixed (fixed 2 x) \<le> read_fixed (fixed 2 y)"
  using read_fixed [of x 2] read_fixed [of y 2] half_even_mono [of "x * 100" "y * 100"] by simp

lemma fixed_chars: "0 \<le> x \<Longrightarrow> c \<in> set (fixed 2 x) \<Longrightarrow> numeral_char c \<or> c = CHR ''.''"
  using fixed_parts [of x 2] by fastforce

section \<open>Reading the report back\<close>

definition skip_blanks :: "string \<Rightarrow> string" where
  "skip_blanks = dropWhile (\<lambda>c. c = CHR '' '')"

definition word :: "string \<Rightarrow> string" where
  "word s = takeWhile (\<lambda>c. c \<noteq> CHR '' '') (skip_blanks s)"

text \<open>The number behind the equals sign, behind the title of 19 characters, behind the last colon.\<close>

definition read_latency :: "string \<Rightarrow> rat" where
  "read_latency line = read_fixed (word (last (split_at CHR ''='' line)))"

definition read_title :: "string \<Rightarrow> int" where
  "read_title line = read_int (word (drop 19 line))"

definition read_last :: "string \<Rightarrow> int" where
  "read_last line = read_int (word (last (split_at CHR '':'' line)))"

definition read_pair :: "string \<Rightarrow> int \<times> int" where
  "read_pair s = (let ps = split_at CHR '':'' s in (read_int (word (hd ps)), read_int (word (last ps))))"

definition read_codes :: "string \<Rightarrow> (int \<times> int) list" where
  "read_codes line = (let t = drop 19 line in if t = [] then [] else map read_pair (split_at CHR '','' t))"

lemma word_free: "CHR '' '' \<notin> set s \<Longrightarrow> word s = s"
  by (cases s) (auto simp: word_def skip_blanks_def takeWhile_eq_all_conv)

lemma word_blank: "word (CHR '' '' # s) = word s"
  by (simp add: word_def skip_blanks_def)

lemma word_pad: "word (pad_left w s @ t) = word (s @ t)"
proof -
  have "word (replicate k CHR '' '' @ s @ t) = word (s @ t)" for k by (induction k) (simp_all add: word_blank)
  then show ?thesis by (simp add: pad_left_def)
qed

lemma word_stop: "CHR '' '' \<notin> set s \<Longrightarrow> s \<noteq> [] \<Longrightarrow> word (s @ CHR '' '' # t) = s"
  by (cases s) (auto simp: word_def skip_blanks_def takeWhile_append)

lemma decimal_free: "\<not> numeral_char c \<Longrightarrow> c \<noteq> CHR ''-'' \<Longrightarrow> c \<notin> set (decimal k)"
  using decimal_chars by blast

lemma split_two: "c \<notin> set a \<Longrightarrow> c \<notin> set b \<Longrightarrow> split_at c (a @ c # b) = [a, b]"
  by (simp add: split_at_append split_at_free)

lemma last_two: "last [a, b] = b"
  by simp

lemma read_latency_line:
  assumes "0 \<le> x" and "CHR ''='' \<notin> set label"
  shows "read_latency (latency_line label x) = read_fixed (fixed 2 x)"
proof -
  let ?t = "CHR '' '' # pad_left 8 (fixed 2 x) @ '' ms''"
  have ne: "fixed 2 x \<noteq> []" using fixed_parts [OF assms(1), of 2] by auto
  have free: "CHR ''='' \<notin> set (fixed 2 x)" "CHR '' '' \<notin> set (fixed 2 x)"
    using fixed_chars [OF assms(1)] char_facts(1,6) by blast+
  have "latency_line label x = (''    '' @ label @ '' '') @ CHR ''='' # ?t" by (simp add: latency_line_def)
  moreover have "split_at CHR ''='' ((''    '' @ label @ '' '') @ CHR ''='' # ?t) = [''    '' @ label @ '' '', ?t]"
    using assms(2) free(1) by (intro split_two) (simp_all add: pad_left_def)
  ultimately have "read_latency (latency_line label x) = read_fixed (word ?t)" by (simp only: read_latency_def last_two)
  also have "word ?t = word (fixed 2 x @ CHR '' '' # ''ms'')" by (simp add: word_blank word_pad)
  also have "\<dots> = fixed 2 x" by (rule word_stop [OF free(2) ne])
  finally show ?thesis .
qed

lemma word_decimal: "word (decimal k) = decimal k" "word (decimal k @ CHR '' '' # t) = decimal k" "decimal k \<noteq> []"
proof -
  have b: "CHR '' '' \<notin> set (decimal k)" by (rule decimal_free) simp_all
  show n: "decimal k \<noteq> []" using read_of_digits by (simp add: decimal_def)
  from b show "word (decimal k) = decimal k" by (rule word_free)
  from b n show "word (decimal k @ CHR '' '' # t) = decimal k" by (rule word_stop)
qed

lemma read_failed: "read_last (''  Success:         '' @ decimal a @ CHR '' '' # '' Failed: '' @ decimal b) = b"
proof -
  have free: "CHR '':'' \<notin> set (decimal k)" for k by (rule decimal_free; simp)
  have "split_at CHR '':'' (''  Success'' @ CHR '':'' # (''         '' @ decimal a @ ''  Failed'') @ CHR '':'' # CHR '' '' # decimal b) =
      [''  Success'', ''         '' @ decimal a @ ''  Failed'', CHR '' '' # decimal b]"
    by (subst split_at_append, simp, subst split_two) (simp_all add: free)
  then show ?thesis by (simp add: read_last_def word_blank word_decimal read_int_decimal)
qed

lemma read_code_text:
  "read_pair (code_text s c) = (c, case StatusCount s c of None \<Rightarrow> 0 | Some n \<Rightarrow> n)"
  "read_pair (CHR '' '' # code_text s c) = (c, case StatusCount s c of None \<Rightarrow> 0 | Some n \<Rightarrow> n)"
  "CHR '','' \<notin> set (code_text s c)"
proof -
  let ?n = "case StatusCount s c of None \<Rightarrow> 0 | Some n \<Rightarrow> n"
  have free: "CHR '':'' \<notin> set (decimal k)" "CHR '','' \<notin> set (decimal k)" for k by (rule decimal_free; simp)+
  have t: "code_text s c = decimal c @ CHR '':'' # CHR '' '' # decimal ?n" by (simp add: code_text_def)
  have "split_at CHR '':'' (code_text s c) = [decimal c, CHR '' '' # decimal ?n]"
    unfolding t by (rule split_two) (simp_all add: free)
  moreover have "split_at CHR '':'' (CHR '' '' # code_text s c) = [CHR '' '' # decimal c, CHR '' '' # decimal ?n]"
    unfolding t append_Cons [symmetric] by (rule split_two) (simp_all add: free)
  ultimately show "read_pair (code_text s c) = (c, ?n)" "read_pair (CHR '' '' # code_text s c) = (c, ?n)"
    by (simp_all only: read_pair_def Let_def list.sel last_two word_blank word_decimal read_int_decimal)
  show "CHR '','' \<notin> set (code_text s c)" using free(2) by (simp add: code_text_def)
qed

lemma split_codes: "split_at CHR '','' (append_codes s (c # cs)) = code_text s c # map (\<lambda>d. CHR '' '' # code_text s d) cs"
proof (induction cs arbitrary: c)
  case Nil
  show ?case using read_code_text(3) by (simp add: split_at_free)
next
  case (Cons d cs)
  have "append_codes s (c # d # cs) = code_text s c @ CHR '','' # (CHR '' '' # append_codes s (d # cs))" by simp
  then show ?case by (simp only: split_at_append [OF read_code_text(3)]) (simp add: Cons)
qed

lemma append_codes_empty: "append_codes s cs = [] \<longleftrightarrow> cs = []"
  using word_decimal(3) by (induction s cs rule: append_codes.induct) (auto simp: code_text_def)

lemma read_codes_line:
  assumes "length title = 19"
  shows "read_codes (title @ append_codes s cs) = map (\<lambda>c. (c, case StatusCount s c of None \<Rightarrow> 0 | Some n \<Rightarrow> n)) cs"
proof (cases cs)
  case Nil
  with assms show ?thesis by (simp add: read_codes_def)
next
  case (Cons c cs)
  have ne: "append_codes s (c # cs) \<noteq> []" by (simp only: append_codes_empty) simp
  have d: "drop 19 (title @ append_codes s (c # cs)) = append_codes s (c # cs)" using assms by simp
  show ?thesis unfolding Cons read_codes_def Let_def d using ne by (simp only: split_codes if_False) (simp add: read_code_text)
qed

lemma latency_ms_nonneg: "0 \<le> d \<Longrightarrow> 0 \<le> latency_ms d"
  unfolding latency_ms_def f_div_def f_int_def by (intro round64_nonneg divide_nonneg_nonneg) (simp_all add: micros_def)

lemma avg_nonneg:
  assumes "\<forall>x \<in> set xs. 0 \<le> x"
  shows "0 \<le> avg xs"
proof -
  have "0 \<le> foldl f_add a xs" if "0 \<le> a" for a
    using assms that by (induction xs arbitrary: a) (simp_all add: f_add_def round64_nonneg)
  then show ?thesis
    unfolding avg_def f_div_def using f_int_nonneg by (auto intro!: round64_nonneg divide_nonneg_nonneg)
qed

text \<open>The latencies in the order of the report.\<close>

definition shown_latencies :: "summary \<Rightarrow> rat list" where
  "shown_latencies s = [Min s, Avg s, P50 s, P90 s, P99 s, P999 s, Max s]"

lemma shown_latencies_nonneg:
  assumes "\<forall>r \<in> set rs. 0 \<le> fst r" and "x \<in> set (shown_latencies (snapshot since (record_all rs)))"
  shows "0 \<le> x"
proof (cases "rs = []")
  case True
  with assms show ?thesis by (simp add: shown_latencies_def snapshot_def record_all_fields)
next
  case False
  let ?xs = "latencies (record_all rs)"
  have ne: "?xs \<noteq> []" using False by (simp add: record_all_fields)
  have pos: "\<forall>x \<in> set ?xs. 0 \<le> x" using assms(1) by (auto simp: record_all_fields latency_ms_nonneg)
  have s: "sort ?xs \<noteq> []" using ne by (metis length_0_conv length_sort)
  then have "hd (sort ?xs) \<in> set ?xs" "last (sort ?xs) \<in> set ?xs" by (metis hd_in_set set_sort, metis last_in_set set_sort)
  moreover have "0 \<le> avg (sort ?xs)" using pos by (intro avg_nonneg) simp
  moreover have "percentile (sort ?xs) p \<in> set ?xs" for p using percentile_between [OF ne] by blast
  ultimately show ?thesis using assms(2) ne pos by (auto simp: shown_latencies_def snapshot_def Let_def)
qed

lemma shown_latencies_read:
  assumes "\<forall>x \<in> set (shown_latencies s). 0 \<le> x"
  shows "map read_latency (take 7 (drop 5 (print_summary s))) = map (\<lambda>x. read_fixed (fixed 2 x)) (shown_latencies s)"
proof -
  have lab: "CHR ''='' \<notin> set ''min ''" "CHR ''='' \<notin> set ''avg ''" "CHR ''='' \<notin> set ''p50 ''" "CHR ''='' \<notin> set ''p90 ''"
    "CHR ''='' \<notin> set ''p99 ''" "CHR ''='' \<notin> set ''p999''" "CHR ''='' \<notin> set ''max ''" by simp_all
  have "take 7 (drop 5 (print_summary s)) =
      [latency_line ''min '' (Min s), latency_line ''avg '' (Avg s), latency_line ''p50 '' (P50 s), latency_line ''p90 '' (P90 s),
       latency_line ''p99 '' (P99 s), latency_line ''p999'' (P999 s), latency_line ''max '' (Max s)]"
    by (simp add: print_summary_def numeral_eq_Suc)
  with assms lab show ?thesis unfolding shown_latencies_def
    by (simp only: list.map read_latency_line list.set insert_iff simp_thms ball_simps)
qed

lemma snapshot_codes: "StatusCount (snapshot since (record_all rs)) = (\<lambda>c. if c \<in> snd ` set rs then Some (count_of c rs) else None)"
  by (cases "rs = []") (simp_all add: snapshot_def record_all_fields Let_def fun_eq_iff)

lemma status_codes_sorted: "status_codes (snapshot since (record_all rs)) = sort (remdups (map snd rs))"
proof -
  have "dom (StatusCount (snapshot since (record_all rs))) = set (map snd rs)"
    by (simp add: snapshot_codes dom_def)
  then show ?thesis by (simp only: status_codes_def sorted_list_of_set_sort_remdups)
qed

lemma snapshot_counts:
  "TotalRequests (snapshot since (record_all rs)) = int (length rs)"
  "Success (snapshot since (record_all rs)) = int (length (filter passed rs))"
  "Failed (snapshot since (record_all rs)) = int (length (filter (\<lambda>r. \<not> passed r) rs))"
  by (cases "rs = []"; simp add: snapshot_def record_all_fields Let_def)+

text \<open>
  C32: the report of a scenario says what was measured. Read back from the printed lines, the
  totals are the exact counts of all calls, of those that passed and of those that failed; the
  line of status codes lists each code that occurred, in ascending order, with the number of
  its calls; each latency is within 0.005 ms of the measured one, and rounding keeps the order
  of the minimum, the percentiles and the maximum.
\<close>
theorem report_reads_back:
  assumes "\<forall>r \<in> set rs. 0 \<le> fst r" and "s = snapshot since (record_all rs)"
    and "out = print_summary s" and "shown = map read_latency (take 7 (drop 5 out))"
  shows "read_title (out ! 1) = int (length rs) \<and> read_title (out ! 2) = int (length (filter passed rs)) \<and>
    read_last (out ! 2) = int (length (filter (\<lambda>r. \<not> passed r) rs)) \<and>
    read_codes (out ! 12) = map (\<lambda>c. (c, count_of c rs)) (sort (remdups (map snd rs))) \<and>
    list_all2 (\<lambda>a x. \<bar>a - x\<bar> \<le> 1 / 200) shown (shown_latencies s) \<and>
    sorted [shown ! 0, shown ! 2, shown ! 3, shown ! 4, shown ! 5, shown ! 6]"
proof (intro conjI)
  have pos: "\<forall>x \<in> set (shown_latencies s). 0 \<le> x" using shown_latencies_nonneg [OF assms(1)] assms(2) by blast
  have shown: "shown = map (\<lambda>x. read_fixed (fixed 2 x)) (shown_latencies s)"
    unfolding assms(3,4) by (rule shown_latencies_read [OF pos])
  have 1: "out ! 1 = ''  Total Requests:  '' @ decimal (TotalRequests s)" by (simp add: assms(3) print_summary_def)
  have 2: "out ! 2 = ''  Success:         '' @ decimal (Success s) @ CHR '' '' # '' Failed: '' @ decimal (Failed s)"
    by (simp add: assms(3) print_summary_def)
  have 12: "out ! 12 = ''  Status codes:    '' @ append_codes s (status_codes s)"
    by (simp add: assms(3) print_summary_def numeral_eq_Suc)
  show "read_title (out ! 1) = int (length rs)"
    unfolding 1 read_title_def using word_decimal read_int_decimal by (simp add: assms(2) snapshot_counts)
  show "read_title (out ! 2) = int (length (filter passed rs))"
    unfolding 2 read_title_def using word_decimal read_int_decimal by (simp add: assms(2) snapshot_counts)
  show "read_last (out ! 2) = int (length (filter (\<lambda>r. \<not> passed r) rs))"
    unfolding 2 read_failed by (simp add: assms(2) snapshot_counts)
  have "read_codes (out ! 12) = map (\<lambda>c. (c, case StatusCount s c of None \<Rightarrow> 0 | Some n \<Rightarrow> n)) (status_codes s)"
    unfolding 12 by (rule read_codes_line) simp
  then show "read_codes (out ! 12) = map (\<lambda>c. (c, count_of c rs)) (sort (remdups (map snd rs)))"
    by (simp add: assms(2) status_codes_sorted snapshot_codes)
  show "list_all2 (\<lambda>a x. \<bar>a - x\<bar> \<le> 1 / 200) shown (shown_latencies s)"
    unfolding shown list.rel_map using pos read_fixed_near by (simp add: list.rel_refl_strong)
  show "sorted [shown ! 0, shown ! 2, shown ! 3, shown ! 4, shown ! 5, shown ! 6]"
    using latencies_in_order [OF assms(2)] pos
    by (simp add: shown shown_latencies_def read_fixed_mono)
qed

theorem report_reads_back_witness:
  "read_codes (print_summary (snapshot 5 (record_all [(3000000, 429), (1000000, 200), (7, 429)])) ! 12) = [(200, 1), (429, 2)]"
  using report_reads_back [of "[(3000000, 429), (1000000, 200), (7, 429)]", OF _ refl refl refl, of 5]
  by (simp add: count_of_def)

text \<open>
  \<open>main\<close> returns whatever the server does and whether or not the results can be written; that
  they were lost it does not notice.
\<close>

lemma load_test_main_ends:
  assumes "\<And>k i. url_ok (nets k i) = uok"
  shows "\<exists>out d'. load_test_main enc nets ids f sig t0 d = Some (out, d')"
proof -
  from load_test_ends [of nets uok ids "config_of_flags f" t0, OF assms] obtain r where
    "load_test nets ids (config_of_flags f) t0 = Some r" by blast
  then show ?thesis by (cases r) (simp_all add: load_test_main_def Let_def case_prod_beta)
qed

text \<open>An interrupt does not end the run, nor does it have any results printed that were not coming anyway.\<close>

lemma interrupt_prints_one_line:
  assumes "load_test_main enc nets ids f None t0 d = Some (Inr out, d')"
  shows "load_test_main enc nets ids f (Some n) t0 d = Some (Inr (on_interrupt (Some n) out), d')"
  using assms by (auto simp: load_test_main_def on_interrupt_def Let_def case_prod_beta split: option.splits sum.splits)

lemma lost_results_are_reported_as_written:
  assumes "path \<noteq> []" and "faults d = [Lost]"
  shows "\<exists>line d'. run_state (write_results enc path r) d = ([[], line @ '' Results written to '' @ path], d') \<and> nodes d' = nodes d"
  using assms by (auto simp: write_results_def os_write_file_def os_create_def os_call_def next_fault_def Let_def)

end
