(* ===== verification/LoadServer.thy ===== *)
theory LoadServer
  imports LoadReport ServerProps
begin

text \<open>
  The load test against the server: what the middleware makes of the calls of its workers, which
  run concurrently.
\<close>

section \<open>A call arrives\<close>

text \<open>
  The request that the server receives for a call of a client at the address \<open>ip\<close>; the path is
  what follows the base address. Its query and its body play no part here.
\<close>

definition incoming :: "string \<Rightarrow> client \<Rightarrow> call \<Rightarrow> request" where
  "incoming ip cl c =
     \<lparr>rq_method = c_method c, rq_path = drop (length (baseURL cl)) (c_url c),
      rq_headers = (\<lambda>h. case map_of (c_headers c) h of None \<Rightarrow> [] | Some v \<Rightarrow> v),
      rq_ip = ip, rq_body = [], rq_param = [], rq_query = (\<lambda>_. None)\<rparr>"

definition health_request :: "string \<Rightarrow> client \<Rightarrow> request" where
  "health_request ip cl = incoming ip cl (get_call cl ''/health'' [])"

lemma health_request_fields [simp]:
  "rq_method (health_request ip cl) = ''GET''" "rq_path (health_request ip cl) = ''/health''"
  by (simp_all add: health_request_def incoming_def new_request_def)

text \<open>All workers but those of the mixed scenario share one counter of the rate limiter.\<close>

lemma loadtest_key: "rate_key (health_request ip (new_client base)) = ''rate_limit:'' @ ip @ '':loadtest''"
  by (simp add: rate_key_def GetHeader_def health_request_def incoming_def new_request_def new_client_def)

lemma mixed_workers_have_own_counters:
  assumes "rate_key (health_request ip (set_header ''X-Device-ID'' (''device-'' @ decimal i) (new_client base))) =
    rate_key (health_request ip (set_header ''X-Device-ID'' (''device-'' @ decimal j) (new_client base)))"
  shows "i = j"
proof -
  have "decimal i = decimal j"
    using assms by (simp add: rate_key_def GetHeader_def health_request_def incoming_def new_request_def new_client_def set_header_def)
  then show ?thesis by (metis read_int_decimal)
qed

section \<open>The stages of a call\<close>

text \<open>
  What the server does for a call to \<open>/health\<close> that matters to other calls, in the order of the
  global chain: it asks the throttle, reads the counter, increments it, and answers. Between
  these stages other calls may take theirs. A stage ends the call with a status or passes it on.
\<close>

definition ask_throttle :: "config \<Rightarrow> ('l, 'q) env \<Rightarrow> request \<Rightarrow> (('r, 'l) srv, nat option) state" where
  "ask_throttle cfg E rq = do {
     limiter \<leftarrow> get_limiter (limiters E) (key_for_request rq) (ThrottleBurst cfg) (to_limit E (ThrottleRate cfg));
     now \<leftarrow> read_state (\<lambda>s. clock (world s));
     let (ok, limiter') = rl_allow (limiters E) now limiter;
     put_limiter (key_for_request rq) limiter';
     ret (if ok then None else Some 429)
   }"

definition read_counter :: "'r ext \<Rightarrow> config \<Rightarrow> request \<Rightarrow> (('r, 'l) srv, nat option) state" where
  "read_counter X cfg rq = do {
     r \<leftarrow> in_world (redis_get X (rate_key rq));
     ret (case r of
         Inl e \<Rightarrow> Some 500
       | Inr (Some (RStr x)) \<Rightarrow> Some 500
       | Inr v \<Rightarrow>
           let val = (case v of Some (RInt n) \<Rightarrow> n | _ \<Rightarrow> 0) in
           if RateLimitRequests cfg \<le> val then Some 429 else None)
   }"

definition count_call :: "'r ext \<Rightarrow> config \<Rightarrow> request \<Rightarrow> (('r, 'l) srv, nat option) state" where
  "count_call X cfg rq = do {
     r \<leftarrow> in_world (redis_incr_expire X (rate_key rq) (dur_mul (RateLimitDurationSec cfg) nsSecond));
     ret (case r of Inl e \<Rightarrow> Some 500 | Inr u \<Rightarrow> None)
   }"

definition answer_call :: "('l, 'q) env \<Rightarrow> request \<Rightarrow> (('r, 'l) srv, nat) state" where
  "answer_call E rq = do {
     fresh_context;
     activity_logger rq (handle_health (stats E));
     read_state out_status
   }"

section \<open>The benchmark\<close>

text \<open>
  The health scenario: \<open>par\<close> workers, each with at most one call open at a time. A call is open
  from the throttle to the counter, then in flight until it is counted and answered. The
  codes are those that the workers hand to \<open>Record\<close>, in order. Time may pass as long as the
  counter does not expire.
\<close>

record ('r, 'l) bench =
  bn_srv :: "('r, 'l) srv"
  bn_open :: nat
  bn_flight :: nat
  bn_codes :: "nat list"

definition bench_start :: "('r, 'l) srv \<Rightarrow> ('r, 'l) bench" where
  "bench_start s = \<lparr>bn_srv = s, bn_open = 0, bn_flight = 0, bn_codes = []\<rparr>"

inductive bench_step ::
  "'r ext \<Rightarrow> ('r \<Rightarrow> key_space) \<Rightarrow> config \<Rightarrow> ('l, 'q) env \<Rightarrow> request \<Rightarrow> nat \<Rightarrow> ('r, 'l) bench \<Rightarrow> ('r, 'l) bench \<Rightarrow> bool"
  for X view cfg E rq par where
  throttled: "run_state (ask_throttle cfg E rq) (bn_srv b) = (Some n, s) \<Longrightarrow> bn_open b + bn_flight b < par \<Longrightarrow>
    bench_step X view cfg E rq par b (b\<lparr>bn_srv := s, bn_codes := bn_codes b @ [n]\<rparr>)"
| admitted: "run_state (ask_throttle cfg E rq) (bn_srv b) = (None, s) \<Longrightarrow> bn_open b + bn_flight b < par \<Longrightarrow>
    bench_step X view cfg E rq par b (b\<lparr>bn_srv := s, bn_open := Suc (bn_open b)\<rparr>)"
| refused: "run_state (read_counter X cfg rq) (bn_srv b) = (Some n, s) \<Longrightarrow> bn_open b = Suc k \<Longrightarrow>
    bench_step X view cfg E rq par b (b\<lparr>bn_srv := s, bn_open := k, bn_codes := bn_codes b @ [n]\<rparr>)"
| checked: "run_state (read_counter X cfg rq) (bn_srv b) = (None, s) \<Longrightarrow> bn_open b = Suc k \<Longrightarrow>
    bench_step X view cfg E rq par b (b\<lparr>bn_srv := s, bn_open := k, bn_flight := Suc (bn_flight b)\<rparr>)"
| failed: "run_state (count_call X cfg rq) (bn_srv b) = (Some n, s) \<Longrightarrow> bn_flight b = Suc k \<Longrightarrow>
    bench_step X view cfg E rq par b (b\<lparr>bn_srv := s, bn_flight := k, bn_codes := bn_codes b @ [n]\<rparr>)"
| served: "run_state (count_call X cfg rq) (bn_srv b) = (None, s) \<Longrightarrow> bn_flight b = Suc k \<Longrightarrow>
    run_state (answer_call E rq) s = (n, s') \<Longrightarrow>
    bench_step X view cfg E rq par b (b\<lparr>bn_srv := s', bn_flight := k, bn_codes := bn_codes b @ [n]\<rparr>)"
| tick: "clock (world (bn_srv b)) \<le> t \<Longrightarrow>
    live (view (redis (world (bn_srv b)))) t (rate_key rq) =
      live (view (redis (world (bn_srv b)))) (clock (world (bn_srv b))) (rate_key rq) \<Longrightarrow>
    bench_step X view cfg E rq par b (b\<lparr>bn_srv := (bn_srv b)\<lparr>world := (world (bn_srv b))\<lparr>clock := t\<rparr>\<rparr>\<rparr>)"

inductive bench_reachable ::
  "'r ext \<Rightarrow> ('r \<Rightarrow> key_space) \<Rightarrow> config \<Rightarrow> ('l, 'q) env \<Rightarrow> request \<Rightarrow> nat \<Rightarrow> ('r, 'l) bench \<Rightarrow> ('r, 'l) bench \<Rightarrow> bool"
  for X view cfg E rq par b0 where
  start: "bench_reachable X view cfg E rq par b0 b0"
| step: "bench_reachable X view cfg E rq par b0 b \<Longrightarrow> bench_step X view cfg E rq par b c \<Longrightarrow>
    bench_reachable X view cfg E rq par b0 c"

section \<open>The stages and the chain\<close>

text \<open>The middleware is made of these stages.\<close>

lemma throttle_stage:
  "run_state (throttle (limiters E) (ThrottleBurst cfg) (to_limit E (ThrottleRate cfg)) rq next) s =
     (case run_state (ask_throttle cfg E rq) s of
        (Some n, s1) \<Rightarrow> run_state (respond n (err_body ''server busy, please retry'')) s1
      | (None, s1) \<Rightarrow> run_state next s1)"
  by (simp add: throttle_def ask_throttle_def split: prod.splits)

definition refusal :: "nat \<Rightarrow> json" where
  "refusal n = err_body (if n = 429 then ''too many requests'' else ''rate limiter error'')"

lemma limiter_stages:
  "run_state (rate_limiter X (RateLimitRequests cfg) (RateLimitDurationSec cfg) rq next) s =
     (case run_state (read_counter X cfg rq) s of
        (Some n, s1) \<Rightarrow> run_state (respond n (refusal n)) s1
      | (None, s1) \<Rightarrow>
          (case run_state (count_call X cfg rq) s1 of
             (Some n, s2) \<Rightarrow> run_state (respond n (refusal n)) s2
           | (None, s2) \<Rightarrow> run_state next s2))"
proof -
  obtain r w1 where g: "run_state (redis_get X (rate_key rq)) (world s) = (r, w1)" by fastforce
  obtain r2 w2 where c: "run_state (redis_incr_expire X (rate_key rq) (dur_mul (RateLimitDurationSec cfg) nsSecond)) w1 = (r2, w2)"
    by fastforce
  note stages = rate_limiter_def read_counter_def count_call_def refusal_def g c
  show ?thesis
  proof (cases r)
    case (Inl e)
    then show ?thesis by (simp add: stages)
  next
    case (Inr v)
    then show ?thesis by (cases v; cases r2) (simp_all add: stages split: redis_value.split)
  qed
qed

text \<open>
  Two states of the process that differ at most in the fields of the request that is being served.
\<close>

definition alike :: "('r, 'l) srv \<Rightarrow> ('r, 'l) srv \<Rightarrow> bool" where
  "alike s t \<longleftrightarrow> world s = world t \<and> clients s = clients t \<and> audit_queue s = audit_queue t \<and> request_log s = request_log t"

lemma stages_alike:
  assumes "alike s t"
  shows "fst (run_state (ask_throttle cfg E rq) s) = fst (run_state (ask_throttle cfg E rq) t) \<and>
      alike (snd (run_state (ask_throttle cfg E rq) s)) (snd (run_state (ask_throttle cfg E rq) t))"
    and "fst (run_state (read_counter X cfg rq) s) = fst (run_state (read_counter X cfg rq) t) \<and>
      alike (snd (run_state (read_counter X cfg rq) s)) (snd (run_state (read_counter X cfg rq) t))"
    and "fst (run_state (count_call X cfg rq) s) = fst (run_state (count_call X cfg rq) t) \<and>
      alike (snd (run_state (count_call X cfg rq) s)) (snd (run_state (count_call X cfg rq) t))"
  using assms
  by (simp_all add: alike_def ask_throttle_def get_limiter_def put_limiter_def read_counter_def count_call_def Let_def
      split: prod.splits cong: option.case_cong)

lemma stages_keep_identity:
  "ctx_user (snd (run_state (ask_throttle cfg E rq) s)) = ctx_user s"
  "ctx_user (snd (run_state (read_counter X cfg rq) s)) = ctx_user s"
  "ctx_user (snd (run_state (count_call X cfg rq) s)) = ctx_user s"
  by (simp_all add: ask_throttle_def get_limiter_def put_limiter_def read_counter_def count_call_def Let_def split: prod.splits)

lemma stages_param [simp]:
  "ask_throttle cfg E (rq\<lparr>rq_param := a\<rparr>) = ask_throttle cfg E rq" "read_counter X cfg (rq\<lparr>rq_param := a\<rparr>) = read_counter X cfg rq"
  "count_call X cfg (rq\<lparr>rq_param := a\<rparr>) = count_call X cfg rq"
  by (simp_all add: ask_throttle_def read_counter_def count_call_def key_for_request_def rate_key_def GetHeader_def)

lemma answer_alike:
  assumes "alike s t" and "ctx_user t = None"
  shows "fst (run_state (answer_call E rq) s) = 200 \<and>
    alike (snd (run_state (answer_call E rq) s)) (snd (run_state (activity_logger (rq\<lparr>rq_param := a\<rparr>) (handle_health (stats E))) t)) \<and>
    out_status (snd (run_state (activity_logger (rq\<lparr>rq_param := a\<rparr>) (handle_health (stats E))) t)) = 200"
  using assms
  by (simp add: alike_def answer_call_def run_activity_logger fresh_context_def handle_health_def audited_def submit_audit_def
      UserAgent_def GetHeader_def Let_def)

lemma serve_health_run:
  assumes "gin_match E (map pattern_of (engine_routes X cfg E rq)) ''GET'' (rq_path rq) = Matched 0 a" and "rq_method rq = ''GET''"
  shows "\<exists>s1. alike s s1 \<and> ctx_user s1 = None \<and>
    run_state (serve X cfg E rq) s = run_state (throttle (limiters E) (ThrottleBurst cfg) (to_limit E (ThrottleRate cfg)) (rq\<lparr>rq_param := a\<rparr>)
      (rate_limiter X (RateLimitRequests cfg) (RateLimitDurationSec cfg) (rq\<lparr>rq_param := a\<rparr>)
        (activity_logger (rq\<lparr>rq_param := a\<rparr>) (handle_health (stats E))))) s1"
proof -
  let ?rq = "rq\<lparr>rq_param := a\<rparr>"
  define inner where "inner = throttle (limiters E) (ThrottleBurst cfg) (to_limit E (ThrottleRate cfg)) ?rq
    (rate_limiter X (RateLimitRequests cfg) (RateLimitDurationSec cfg) ?rq (activity_logger ?rq (handle_health (stats E))))"
  have "snd (snd (engine_routes X cfg E ?rq ! 0)) = handle_health (stats E)" by (simp add: engine_routes_def)
  then have r: "run_state (serve X cfg E rq) s = run_state (security_headers (cors ?rq (gzip ?rq inner))) (snd (run_state fresh_context s))"
    using assms by (simp add: serve_def global_chain_def inner_def fresh_context_def Let_def)
  show ?thesis unfolding r inner_def [symmetric] using assms(2)
    by (cases "contains (rq_headers rq ''Accept-Encoding'') ''gzip''")
      (simp_all add: security_headers_def cors_def gzip_def wrap_writer_def fresh_context_def alike_def,
        (rule exI, intro conjI, rule_tac [6] refl, simp_all)+)
qed

text \<open>
  A call that no other comes between is what \<open>serve\<close> makes of its request, with the same status and
  the same effect on the process, whatever becomes of the calls to Redis.
\<close>

lemma lone_health_call:
  fixes b :: "('r, 'l) bench"
  assumes "gin_match E (map pattern_of (engine_routes X cfg E rq)) ''GET'' (rq_path rq) = Matched 0 a" and "rq_method rq = ''GET''"
    and "bn_open b = 0" and "bn_flight b = 0" and "0 < par"
  defines "s' \<equiv> snd (run_state (serve X cfg E rq) (bn_srv b))"
  shows "\<exists>b'. bench_reachable X view cfg E rq par b b' \<and> alike (bn_srv b') s' \<and> bn_codes b' = bn_codes b @ [out_status s'] \<and>
    bn_open b' = 0 \<and> bn_flight b' = 0"
proof -
  let ?answer = "activity_logger (rq\<lparr>rq_param := a\<rparr>) (handle_health (stats E))"
  from serve_health_run [OF assms(1,2), of "bn_srv b"] obtain s1 where s1: "alike (bn_srv b) s1" "ctx_user s1 = None" and
    run: "run_state (serve X cfg E rq) (bn_srv b) = run_state (throttle (limiters E) (ThrottleBurst cfg) (to_limit E (ThrottleRate cfg))
      (rq\<lparr>rq_param := a\<rparr>) (rate_limiter X (RateLimitRequests cfg) (RateLimitDurationSec cfg) (rq\<lparr>rq_param := a\<rparr>) ?answer)) s1" by blast
  note run = run [unfolded throttle_stage limiter_stages stages_param]
  have more: "bench_reachable X view cfg E rq par b c \<Longrightarrow> bench_step X view cfg E rq par c d \<Longrightarrow> bench_reachable X view cfg E rq par b d"
    for c d by (rule bench_reachable.step)
  note start = bench_reachable.start [of X view cfg E rq par b]
  have finish: ?thesis if "bench_reachable X view cfg E rq par b c" "alike (bn_srv c) s'" "bn_codes c = bn_codes b @ [out_status s']"
    "bn_open c = 0" "bn_flight c = 0" for c using that by blast
  obtain r t where t: "run_state (ask_throttle cfg E rq) (bn_srv b) = (r, t)" by fastforce
  with stages_alike(1) [OF s1(1), of cfg E rq] obtain t1 where t1: "run_state (ask_throttle cfg E rq) s1 = (r, t1)" "alike t t1"
    by (metis fst_conv snd_conv surj_pair)
  show ?thesis
  proof (cases r)
    case (Some n)
    then have "s' = t1\<lparr>out_status := n, out_body := Some (err_body ''server busy, please retry'')\<rparr>"
      using run t1 by (simp add: s'_def)
    moreover have step: "bench_step X view cfg E rq par b (b\<lparr>bn_srv := t, bn_codes := bn_codes b @ [n]\<rparr>)"
      using t Some assms(3-5) by (intro bench_step.throttled) simp_all
    ultimately show ?thesis using t1(2) assms(3,4) by (intro finish [OF more [OF start step]]) (simp_all add: alike_def)
  next
    case r: None
    let ?b1 = "b\<lparr>bn_srv := t, bn_open := Suc 0\<rparr>"
    have "bench_step X view cfg E rq par b (b\<lparr>bn_srv := t, bn_open := Suc (bn_open b)\<rparr>)"
      using t r assms(3-5) by (intro bench_step.admitted) simp_all
    then have b1: "bench_reachable X view cfg E rq par b ?b1" using more [OF start] assms(3) by simp
    obtain r2 u where u: "run_state (read_counter X cfg rq) t = (r2, u)" by fastforce
    with stages_alike(2) [OF t1(2), of X cfg rq] obtain u1 where u1: "run_state (read_counter X cfg rq) t1 = (r2, u1)" "alike u u1"
      by (metis fst_conv snd_conv surj_pair)
    show ?thesis
    proof (cases r2)
      case (Some n)
      then have "s' = u1\<lparr>out_status := n, out_body := Some (refusal n)\<rparr>" using run t1 u1 r by (simp add: s'_def)
      moreover have step: "bench_step X view cfg E rq par ?b1 (?b1\<lparr>bn_srv := u, bn_open := 0, bn_codes := bn_codes ?b1 @ [n]\<rparr>)"
        using u Some by (intro bench_step.refused) simp_all
      ultimately show ?thesis using u1(2) assms(4) by (intro finish [OF more [OF b1 step]]) (simp_all add: alike_def)
    next
      case r2: None
      let ?b2 = "?b1\<lparr>bn_srv := u, bn_open := 0, bn_flight := Suc 0\<rparr>"
      have "bench_step X view cfg E rq par ?b1 (?b1\<lparr>bn_srv := u, bn_open := 0, bn_flight := Suc (bn_flight ?b1)\<rparr>)"
        using u r2 by (intro bench_step.checked) simp_all
      then have b2: "bench_reachable X view cfg E rq par b ?b2" using more [OF b1] assms(4) by simp
      obtain r3 v where v: "run_state (count_call X cfg rq) u = (r3, v)" by fastforce
      with stages_alike(3) [OF u1(2), of X cfg rq] obtain v1 where v1: "run_state (count_call X cfg rq) u1 = (r3, v1)" "alike v v1"
        by (metis fst_conv snd_conv surj_pair)
      show ?thesis
      proof (cases r3)
        case (Some n)
        then have "s' = v1\<lparr>out_status := n, out_body := Some (refusal n)\<rparr>" using run t1 u1 v1 r r2 by (simp add: s'_def)
        moreover have step: "bench_step X view cfg E rq par ?b2 (?b2\<lparr>bn_srv := v, bn_flight := 0, bn_codes := bn_codes ?b2 @ [n]\<rparr>)"
          using v Some by (intro bench_step.failed) simp_all
        ultimately show ?thesis using v1(2) by (intro finish [OF more [OF b2 step]]) (simp_all add: alike_def)
      next
        case r3: None
        have s': "s' = snd (run_state ?answer v1)" using run t1 u1 v1 r r2 r3 by (simp add: s'_def)
        have "ctx_user v1 = None"
          using s1(2) stages_keep_identity(1) [of cfg E rq s1] stages_keep_identity(2) [of X cfg rq t1] stages_keep_identity(3) [of X cfg rq u1]
          by (simp add: t1(1) u1(1) v1(1))
        note fin = answer_alike [OF v1(2) this, of E rq a]
        obtain n v' where n: "run_state (answer_call E rq) v = (n, v')" by fastforce
        have step: "bench_step X view cfg E rq par ?b2 (?b2\<lparr>bn_srv := v', bn_flight := 0, bn_codes := bn_codes ?b2 @ [n]\<rparr>)"
          using v r3 n by (intro bench_step.served) simp_all
        show ?thesis using fin n by (intro finish [OF more [OF b2 step]]) (simp_all add: s')
      qed
    qed
  qed
qed

section \<open>The benchmark and the race\<close>

definition race_of :: "('r, 'l) bench \<Rightarrow> 'r race" where
  "race_of b = \<lparr>rc_world = world (bn_srv b), rc_flight = bn_flight b, rc_passed = length (filter (\<lambda>n. n = 200) (bn_codes b))\<rparr>"

definition bench_inv :: "('r \<Rightarrow> key_space) \<Rightarrow> config \<Rightarrow> request \<Rightarrow> nat \<Rightarrow> ('r, 'l) bench \<Rightarrow> bool" where
  "bench_inv view cfg rq par b \<longleftrightarrow> race_inv view (RateLimitRequests cfg) rq par (race_of b) \<and>
     bn_open b + bn_flight b \<le> par \<and> set (bn_codes b) \<subseteq> {200, 429}"

lemma ask_throttle_frame:
  assumes "run_state (ask_throttle cfg E rq) s = (r, s1)"
  shows "world s1 = world s" and "r = Some n \<Longrightarrow> n = 429"
  using assms by (auto simp: ask_throttle_def get_limiter_def put_limiter_def Let_def split: prod.splits if_splits)

lemma answer_call_frame: "run_state (answer_call E rq) s = (n, s1) \<Longrightarrow> world s1 = world s \<and> n = 200"
  by (auto simp: answer_call_def run_activity_logger fresh_context_def handle_health_def)

text \<open>While the counter is a number, reading it and counting are the steps of the race.\<close>

lemma read_counter_run:
  assumes "services X view" and "sched (world s) = []"
    and "counted (view (redis (world s))) (clock (world s)) (rate_key rq) = Some m"
  shows "run_state (read_counter X cfg rq) s = (if RateLimitRequests cfg \<le> m then Some 429 else None, s) \<and>
    (\<exists>v. run_state (redis_get X (rate_key rq)) (world s) = (Inr v, world s) \<and> (case v of Some (RInt n) \<Rightarrow> n | _ \<Rightarrow> 0) = m)"
  using services.get_counted [OF assms(1,3)] assms(2) by (auto simp: read_counter_def redis_get_def)

lemma count_call_run:
  assumes "run_state (count_call X cfg rq) s = (None, s1)"
  shows "run_state (redis_incr_expire X (rate_key rq) (dur_mul (RateLimitDurationSec cfg) nsSecond)) (world s) = (Inr (), world s1)"
  using assms by (auto simp: count_call_def split: prod.splits sum.splits)

lemma count_call_works:
  assumes "services X view" and "sched (world s) = []" and "0 < RateLimitDurationSec cfg" and "RateLimitDurationSec cfg < 2 ^ 33"
    and "counted (view (redis (world s))) (clock (world s)) (rate_key rq) = Some m" and "m < 2 ^ 63 - 1"
  shows "fst (run_state (count_call X cfg rq) s) = None"
  using services.counted_redis_view(2) [OF assms(1,5,6), of "window (RateLimitDurationSec cfg)"] window_positive [OF assms(3,4)] assms(2)
  by (auto simp: count_call_def redis_incr_expire_def Let_def split: prod.splits)

lemma bench_step_inv:
  assumes "services X view" and "0 < RateLimitDurationSec cfg" and "RateLimitDurationSec cfg < 2 ^ 33"
    and "RateLimitRequests cfg + int par < 2 ^ 63 - 1" and "0 \<le> RateLimitRequests cfg"
  shows "bench_step X view cfg E rq par b c \<Longrightarrow> bench_inv view cfg rq par b \<Longrightarrow> bench_inv view cfg rq par c"
proof (induction rule: bench_step.induct)
  case (throttled b n s)
  then show ?case using ask_throttle_frame [OF throttled(1)] by (simp add: bench_inv_def race_of_def)
next
  case (admitted b s)
  then show ?case using ask_throttle_frame(1) [OF admitted(1)] by (simp add: bench_inv_def race_of_def)
next
  case (refused b n s k)
  have "sched (world (bn_srv b)) = []" "counted (view (redis (world (bn_srv b)))) (clock (world (bn_srv b))) (rate_key rq) =
      Some (int (rc_passed (race_of b)))"
    using refused(3) by (simp_all add: bench_inv_def race_inv_def race_of_def)
  from read_counter_run [OF assms(1) this, of cfg] refused(1) have "s = bn_srv b" "n = 429" by (auto split: if_splits)
  with refused(2,3) show ?case by (simp add: bench_inv_def race_of_def)
next
  case (checked b s k)
  let ?m = "int (rc_passed (race_of b))"
  have c: "sched (world (bn_srv b)) = []" "counted (view (redis (world (bn_srv b)))) (clock (world (bn_srv b))) (rate_key rq) = Some ?m"
    using checked(3) by (simp_all add: bench_inv_def race_inv_def race_of_def)
  from read_counter_run [OF assms(1) c, of cfg] checked(1) obtain v where
    s: "s = bn_srv b" and v: "run_state (redis_get X (rate_key rq)) (rc_world (race_of b)) = (Inr v, world (bn_srv b))"
    and lt: "(case v of Some (RInt n) \<Rightarrow> n | _ \<Rightarrow> 0) < RateLimitRequests cfg"
    by (auto simp: race_of_def split: if_splits)
  have free: "rc_flight (race_of b) < par" using checked(2,3) by (simp add: bench_inv_def race_of_def)
  from race_step_inv [OF assms race_step.check [OF v lt free]] checked(2,3) s show ?case
    by (simp add: bench_inv_def race_of_def)
next
  case (failed b n s k)
  let ?m = "int (rc_passed (race_of b))"
  have i: "race_inv view (RateLimitRequests cfg) rq par (race_of b)" using failed(3) by (simp add: bench_inv_def)
  then have c: "sched (world (bn_srv b)) = []" "counted (view (redis (world (bn_srv b)))) (clock (world (bn_srv b))) (rate_key rq) = Some ?m"
    by (simp_all add: race_inv_def race_of_def)
  moreover have "?m < 2 ^ 63 - 1" using i assms(4,5) by (auto simp: race_inv_def max_def split: if_splits)
  ultimately show ?case using count_call_works [OF assms(1) _ assms(2,3), of "bn_srv b" rq ?m] failed(1) by simp
next
  case (served b s k n s')
  have "run_state (redis_incr_expire X (rate_key rq) (dur_mul (RateLimitDurationSec cfg) nsSecond)) (rc_world (race_of b)) =
      (Inr (), world s)"
    using count_call_run [OF served(1)] by (simp add: race_of_def)
  from race_step_inv [OF assms race_step.count [OF this]] served(2,4) answer_call_frame [OF served(3)] show ?case
    by (simp add: bench_inv_def race_of_def)
next
  case (tick b t)
  have "clock (rc_world (race_of b)) \<le> t" "live (view (redis (rc_world (race_of b)))) t (rate_key rq) =
      live (view (redis (rc_world (race_of b)))) (clock (rc_world (race_of b))) (rate_key rq)"
    using tick(1,2) by (simp_all add: race_of_def)
  from race_step_inv [OF assms race_step.tick [where a = "race_of b" and t = t and view = view and rq = rq, OF this]] tick(3) show ?case by (simp add: bench_inv_def race_of_def)
qed

lemma bench_reachable_inv:
  assumes "services X view" and "0 < RateLimitDurationSec cfg" and "RateLimitDurationSec cfg < 2 ^ 33"
    and "RateLimitRequests cfg + int par < 2 ^ 63 - 1" and "0 \<le> RateLimitRequests cfg"
    and "bench_reachable X view cfg E rq par b0 b" and "bench_inv view cfg rq par b0"
  shows "bench_inv view cfg rq par b"
  using assms(6,7) by (induction rule: bench_reachable.induct) (auto intro: bench_step_inv [OF assms(1-5)])

section \<open>Calls that arrive together\<close>

text \<open>All calls read the counter before any of them is counted: then all of them are served.\<close>

lemma admit_all:
  fixes s :: "('r, 'l) srv"
  assumes "\<And>t l. fst (rl_allow (limiters E) t l)"
  shows "n \<le> par \<Longrightarrow> \<exists>c. bench_reachable X view cfg E rq par (bench_start s) c \<and> bn_open c = n \<and> bn_flight c = 0 \<and> bn_codes c = []"
proof (induction n)
  case 0
  show ?case by (intro exI conjI, rule bench_reachable.start) (simp_all add: bench_start_def)
next
  case (Suc n)
  then obtain c where c: "bench_reachable X view cfg E rq par (bench_start s) c" "bn_open c = n" "bn_flight c = 0" "bn_codes c = []"
    by auto
  have "fst (run_state (ask_throttle cfg E rq) (bn_srv c)) = None" using assms by (simp add: ask_throttle_def case_prod_beta)
  then obtain t where t: "run_state (ask_throttle cfg E rq) (bn_srv c) = (None, t)" by (metis prod.collapse)
  have "bench_step X view cfg E rq par c (c\<lparr>bn_srv := t, bn_open := Suc (bn_open c)\<rparr>)"
    using Suc.prems c(2,3) by (intro bench_step.admitted t) simp
  from bench_reachable.step [OF c(1) this] c(2-4) show ?case
    by - (rule exI [of _ "c\<lparr>bn_srv := t, bn_open := Suc (bn_open c)\<rparr>"], simp)
qed

lemma check_all:
  assumes "services X view"
  shows "bench_reachable X view cfg E rq par b0 b \<Longrightarrow> bench_inv view cfg rq par b \<Longrightarrow> bn_codes b = [] \<Longrightarrow> 1 \<le> RateLimitRequests cfg \<Longrightarrow>
    \<exists>c. bench_reachable X view cfg E rq par b0 c \<and> bn_open c = 0 \<and> bn_flight c = bn_open b + bn_flight b \<and> bn_codes c = []"
proof (induction "bn_open b" arbitrary: b)
  case 0
  show ?case using "0.hyps" "0.prems" by - (rule exI [of _ b], simp)
next
  case (Suc k)
  have "sched (world (bn_srv b)) = []" "counted (view (redis (world (bn_srv b)))) (clock (world (bn_srv b))) (rate_key rq) = Some 0"
    using Suc.prems(2,3) by (simp_all add: bench_inv_def race_inv_def race_of_def)
  from read_counter_run [OF assms(1) this, of cfg] Suc.prems(4) have "run_state (read_counter X cfg rq) (bn_srv b) = (None, bn_srv b)" by simp
  from bench_step.checked [OF this Suc.hyps(2) [symmetric], of view E par]
  have r: "bench_reachable X view cfg E rq par b0 (b\<lparr>bn_open := k, bn_flight := Suc (bn_flight b)\<rparr>)"
    using bench_reachable.step [OF Suc.prems(1)] by simp
  have "bench_inv view cfg rq par (b\<lparr>bn_open := k, bn_flight := Suc (bn_flight b)\<rparr>)"
    using Suc.prems(2,3,4) Suc.hyps(2) by (simp add: bench_inv_def race_inv_def race_of_def)
  from Suc.hyps(1) [OF _ r this] Suc.prems(3,4) Suc.hyps(2) [symmetric] show ?case by simp
qed

lemma serve_all:
  assumes "services X view" and "0 < RateLimitDurationSec cfg" and "RateLimitDurationSec cfg < 2 ^ 33"
    and "RateLimitRequests cfg + int par < 2 ^ 63 - 1" and "1 \<le> RateLimitRequests cfg"
  shows "bench_reachable X view cfg E rq par b0 b \<Longrightarrow> bench_inv view cfg rq par b \<Longrightarrow>
    \<exists>c. bench_reachable X view cfg E rq par b0 c \<and> bn_flight c = 0 \<and> bn_codes c = bn_codes b @ replicate (bn_flight b) 200"
proof (induction "bn_flight b" arbitrary: b)
  case 0
  show ?case using "0.hyps" "0.prems" by - (rule exI [of _ b], simp)
next
  case (Suc k)
  let ?m = "int (rc_passed (race_of b))"
  have i: "race_inv view (RateLimitRequests cfg) rq par (race_of b)" using Suc.prems(2) by (simp add: bench_inv_def)
  then have c: "sched (world (bn_srv b)) = []" "counted (view (redis (world (bn_srv b)))) (clock (world (bn_srv b))) (rate_key rq) = Some ?m"
    by (simp_all add: race_inv_def race_of_def)
  moreover have "?m < 2 ^ 63 - 1" using i assms(4,5) by (auto simp: race_inv_def max_def split: if_splits)
  ultimately have "fst (run_state (count_call X cfg rq) (bn_srv b)) = None"
    using count_call_works [OF assms(1) _ assms(2,3), of "bn_srv b" rq ?m] by blast
  then obtain s where s: "run_state (count_call X cfg rq) (bn_srv b) = (None, s)" by (metis prod.collapse)
  obtain n s' where n: "run_state (answer_call E rq) s = (n, s')" by fastforce
  then have 200: "n = 200" using answer_call_frame by blast
  from bench_step.served [OF s Suc.hyps(2) [symmetric] n, of view par]
  have st: "bench_step X view cfg E rq par b (b\<lparr>bn_srv := s', bn_flight := k, bn_codes := bn_codes b @ [200]\<rparr>)" by (simp add: 200)
  have "0 \<le> RateLimitRequests cfg" using assms(5) by simp
  note inv = bench_step_inv [OF assms(1-4) this st Suc.prems(2)]
  from Suc.hyps(1) [OF _ bench_reachable.step [OF Suc.prems(1) st] inv] Suc.hyps(2) [symmetric] show ?case
    by (simp add: replicate_append_same [symmetric])
qed

lemma calls_that_arrive_together_pass:
  fixes s :: "('r, 'l) srv"
  assumes "services X view" and "0 < RateLimitDurationSec cfg" and "RateLimitDurationSec cfg < 2 ^ 33"
    and "RateLimitRequests cfg + int par < 2 ^ 63 - 1" and "1 \<le> RateLimitRequests cfg"
    and "bench_inv view cfg rq par (bench_start s)" and "\<And>t l. fst (rl_allow (limiters E) t l)"
  shows "\<exists>b. bench_reachable X view cfg E rq par (bench_start s) b \<and> bn_codes b = replicate par 200"
proof -
  have z: "0 \<le> RateLimitRequests cfg" using assms(5) by simp
  note inv = bench_reachable_inv [OF assms(1-4) z _ assms(6)]
  from admit_all [OF assms(7) order_refl] obtain c where
    c: "bench_reachable X view cfg E rq par (bench_start s) c" "bn_open c = par" "bn_flight c = 0" "bn_codes c = []" by metis
  from check_all [OF assms(1) c(1) inv [OF c(1)] c(4) assms(5)] c obtain d where
    d: "bench_reachable X view cfg E rq par (bench_start s) d" "bn_flight d = par" "bn_codes d = []" by auto
  from serve_all [OF assms(1-5) d(1) inv [OF d(1)]] d show ?thesis by auto
qed

section \<open>What the health benchmark measures\<close>

text \<open>
  C33: the health scenario of the load test measures the rate limiter. The workers of one
  machine all send the same device, so that their calls share one counter. However the stages
  of concurrent calls are interleaved, at most \<open>RATE_LIMIT_REQUESTS - 1\<close> and one for each worker
  are answered by the health handler while the counter lives, and every other call is refused
  with 429, by the limiter or by the throttle. Yet the metrics count every one of them as a
  success, and none as failed. (Redis answers, and every call reaches the server.)
\<close>
theorem health_benchmark_measures_the_limiter:
  fixes s :: "('r, 'l) srv"
  assumes "services X view" and "sched (world s) = []" and "rq = health_request ip (new_client base)"
    and "1 \<le> RateLimitRequests cfg" and "RateLimitRequests cfg + int par < 2 ^ 63 - 1"
    and "0 < RateLimitDurationSec cfg" and "RateLimitDurationSec cfg < 2 ^ 33"
    and "live (view (redis (world s))) (clock (world s)) (''rate_limit:'' @ ip @ '':loadtest'') = None"
    and "bench_reachable X view cfg E rq par (bench_start s) b" and "length ds = length (bn_codes b)"
  shows "set (bn_codes b) \<subseteq> {200, 429} \<and>
    int (length (filter (\<lambda>n. n = 200) (bn_codes b))) \<le> RateLimitRequests cfg - 1 + int par \<and>
    success (record_all (zip ds (map int (bn_codes b)))) = int (length (bn_codes b)) \<and>
    failed (record_all (zip ds (map int (bn_codes b)))) = 0"
proof -
  have "bench_inv view cfg rq par (bench_start s)"
    using assms(2-4,8) by (simp add: bench_inv_def race_inv_def race_of_def bench_start_def counted_def loadtest_key)
  then have inv: "bench_inv view cfg rq par b"
    using assms(4) by (intro bench_reachable_inv [OF assms(1,6,7,5) _ assms(9)]) simp_all
  then have codes: "set (bn_codes b) \<subseteq> {200, 429}"
    and bound: "int (length (filter (\<lambda>n. n = 200) (bn_codes b))) \<le> RateLimitRequests cfg - 1 + int par"
    using assms(4) by (auto simp: bench_inv_def race_inv_def race_of_def max_def split: if_splits)
  have "passed r" if "r \<in> set (zip ds (map int (bn_codes b)))" for r
  proof -
    from that have "snd r \<in> set (map int (bn_codes b))"
      using set_zip_rightD [of "fst r" "snd r" ds "map int (bn_codes b)"] by simp
    with codes show ?thesis by (auto simp: passed_def)
  qed
  then have "filter passed (zip ds (map int (bn_codes b))) = zip ds (map int (bn_codes b))"
    "filter (\<lambda>r. \<not> passed r) (zip ds (map int (bn_codes b))) = []" by (auto simp: filter_id_conv filter_empty_conv)
  with codes bound assms(10) show ?thesis by (simp add: record_all_fields)
qed

text \<open>With a limit of one and two workers both calls may be served: the bound is reached.\<close>

theorem health_benchmark_measures_the_limiter_witness:
  "\<exists>b. bench_reachable (demo_ext []) map_of (demo_config\<lparr>RateLimitRequests := 1, RateLimitDurationSec := 60\<rparr>) demo_env
      (health_request ''10.0.0.9'' (new_client ''http://localhost:8080'')) 2 (bench_start (demo_srv (demo_world demo_db 0))) b \<and>
    bn_codes b = [200, 200] \<and> int (length (filter (\<lambda>n. n = 200) (bn_codes b))) \<le> 1 - 1 + int 2 \<and>
    failed (record_all (zip [5, 5] (map int (bn_codes b)))) = 0"
proof -
  let ?rq = "health_request ''10.0.0.9'' (new_client ''http://localhost:8080'')"
  let ?cfg = "demo_config\<lparr>RateLimitRequests := 1, RateLimitDurationSec := 60\<rparr>"
  let ?s = "demo_srv (demo_world demo_db 0)"
  have "bench_inv map_of ?cfg ?rq 2 (bench_start ?s)"
    by (simp add: bench_inv_def race_inv_def race_of_def bench_start_def counted_def demo_world_def live_def)
  moreover have "fst (rl_allow (limiters demo_env) t l)" for t l by (simp add: demo_env_def)
  ultimately obtain b where b: "bench_reachable (demo_ext []) map_of ?cfg demo_env ?rq 2 (bench_start ?s) b" "bn_codes b = replicate 2 200"
    using calls_that_arrive_together_pass [OF demo.services_axioms [of "[]"], of ?cfg 2 ?rq ?s demo_env] by auto
  from health_benchmark_measures_the_limiter [OF demo.services_axioms [of "[]"] _ refl _ _ _ _ _ b(1), of "[5, 5]"] b
  show ?thesis by (intro exI [of _ b]) (simp add: live_def numeral_2_eq_2)
qed

end
