(* ===== verification/Migrate.thy ===== *)
theory Migrate
  imports Middleware Text "HOL-Library.Sublist" "HOL-Library.List_Lexorder" "HOL-Library.Char_ord"
begin

text \<open>
  The migrations, \<open>internal/database/migrate.go\<close>. What a migration's SQL text does to the
  schema is PostgreSQL's business, a parameter; the table \<open>schema_migrations\<close>, the
  transactions and the rewriting of the text are modelled. The texts and paths are ASCII, as
  the files under \<open>migrations/\<close> are.
\<close>

section \<open>Texts\<close>

definition trim_suffix :: "string \<Rightarrow> string \<Rightarrow> string" where
  "trim_suffix s suf =
     (if length suf \<le> length s \<and> drop (length s - length suf) s = suf then take (length s - length suf) s else s)"

definition is_space :: "char \<Rightarrow> bool" where
  "is_space c \<longleftrightarrow> (of_char c :: nat) \<in> {9, 10, 11, 12, 13, 32}"

definition trim_space :: "string \<Rightarrow> string" where
  "trim_space s = rev (dropWhile is_space (rev (dropWhile is_space s)))"

definition to_upper_char :: "char \<Rightarrow> char" where
  "to_upper_char c = (if 97 \<le> (of_char c :: nat) \<and> (of_char c :: nat) \<le> 122 then char_of ((of_char c :: nat) - 32) else c)"

definition to_upper :: "string \<Rightarrow> string" where
  "to_upper s = map to_upper_char s"

text \<open>\<open>strings.Replace\<close> with a limit of one.\<close>

fun replace_first :: "string \<Rightarrow> string \<Rightarrow> string \<Rightarrow> string" where
  "replace_first [] old by = (if old = [] then by else [])"
| "replace_first (x # xs) old by =
     (if has_prefix (x # xs) old then by @ drop (length old) (x # xs) else x # replace_first xs old by)"

section \<open>Paths\<close>

definition file_name :: "string \<Rightarrow> string" where
  "file_name path = last (split_at CHR ''/'' path)"

definition extract_version :: "string \<Rightarrow> string" where
  "extract_version path = trim_suffix (file_name path) ''.up.sql''"

definition get_migration_name :: "string \<Rightarrow> string" where
  "get_migration_name path =
     (let name = trim_suffix (file_name path) ''.up.sql''
      in if CHR ''_'' \<in> set name then tl (dropWhile (\<lambda>c. c \<noteq> CHR ''_'') name) else name)"

section \<open>Rewriting\<close>

definition fix_statement :: "string \<Rightarrow> string" where
  "fix_statement stmt =
     (let trimmed = trim_space stmt; upper = to_upper trimmed
      in if trimmed = [] then stmt
         else if contains upper ''CREATE TABLE'' \<and> \<not> contains upper ''IF NOT EXISTS''
         then replace_first trimmed ''CREATE TABLE'' ''CREATE TABLE IF NOT EXISTS'' else stmt)"

definition fix_create_table :: "string \<Rightarrow> string" where
  "fix_create_table sql = join_with CHR '';'' (map fix_statement (split_at CHR '';'' sql))"

section \<open>The database\<close>

text \<open>
  The rows of \<open>schema_migrations\<close>, version and name, once the table exists; the rest of the
  schema; how the coming calls end.
\<close>

record 's pg =
  migration_rows :: "(string \<times> string) list option"
  schema :: 's
  answers :: "outcome list"

definition next_answer :: "'s pg \<Rightarrow> outcome \<times> 's pg" where
  "next_answer p = (case answers p of [] \<Rightarrow> (Done, p) | oc # rest \<Rightarrow> (oc, p\<lparr>answers := rest\<rparr>))"

definition pg_exec :: "('s pg \<Rightarrow> db_error + 's pg) \<Rightarrow> ('s pg, db_error + unit) state" where
  "pg_exec f = State (\<lambda>p.
     let (oc, p1) = next_answer p in
     case oc of
       Lost \<Rightarrow> (Inl ConnLost, p1)
     | _ \<Rightarrow> (case f p1 of Inl e \<Rightarrow> (Inl e, p1) | Inr p2 \<Rightarrow> (if oc = Done then Inr () else Inl ConnLost, p2)))"

definition create_migrations_table :: "('s pg, db_error + unit) state" where
  "create_migrations_table = pg_exec (\<lambda>p. Inr (p\<lparr>migration_rows :=
     (case migration_rows p of None \<Rightarrow> Some [] | Some rows \<Rightarrow> Some rows)\<rparr>))"

text \<open>A result that is cut off looks like a shorter one: \<open>rows.Err()\<close> is not asked.\<close>

definition get_applied_migrations :: "('s pg, db_error + string list) state" where
  "get_applied_migrations = State (\<lambda>p.
     let (oc, p1) = next_answer p in
     (case migration_rows p1 of
        None \<Rightarrow> (case oc of Lost \<Rightarrow> Inl ConnLost | _ \<Rightarrow> Inl (UndefinedTable ''schema_migrations''))
      | Some rows \<Rightarrow> (case oc of Done \<Rightarrow> Inr (map fst rows) | Lost \<Rightarrow> Inl ConnLost | Cut n \<Rightarrow> Inr (map fst (take n rows))), p1))"

definition pg_begin :: "('s pg, db_error + 's pg) state" where
  "pg_begin = State (\<lambda>p. let (oc, p1) = next_answer p in (if oc = Done then Inr p1 else Inl ConnLost, p1))"

definition pg_restore :: "'s pg \<Rightarrow> 's pg \<Rightarrow> 's pg" where
  "pg_restore p0 p = p\<lparr>migration_rows := migration_rows p0, schema := schema p0\<rparr>"

definition pg_rollback :: "'s pg \<Rightarrow> ('s pg, unit) state" where
  "pg_rollback p0 = State (\<lambda>p. ((), pg_restore p0 p))"

definition pg_commit :: "'s pg \<Rightarrow> ('s pg, db_error + unit) state" where
  "pg_commit p0 = State (\<lambda>p.
     let (oc, p1) = next_answer p in
     case oc of Done \<Rightarrow> (Inr (), p1) | Lost \<Rightarrow> (Inl ConnLost, pg_restore p0 p1) | Cut n \<Rightarrow> (Inl ConnLost, p1))"

definition insert_migration :: "string \<Rightarrow> string \<Rightarrow> 's pg \<Rightarrow> db_error + 's pg" where
  "insert_migration version name p =
     (case migration_rows p of
        None \<Rightarrow> Inl (UndefinedTable ''schema_migrations'')
      | Some rows \<Rightarrow>
          if \<not> (fits 255 version \<and> fits 255 name) then Inl (ValueTooLong ''schema_migrations'')
          else if version \<in> fst ` set rows then Inl (UniqueViolation ''schema_migrations_version_key'')
          else Inr (p\<lparr>migration_rows := Some (rows @ [(version, name)])\<rparr>))"

section \<open>\<open>RunMigrations\<close>\<close>

text \<open>
  A file is its path and its text; the loop goes over the files in the order of their paths.
  \<open>exec_sql\<close> says what a text does to the schema.
\<close>

definition run_file ::
  "(string \<Rightarrow> 's \<Rightarrow> db_error + 's) \<Rightarrow> string \<times> string \<Rightarrow> ('s pg, go_error + unit) state" where
  "run_file exec_sql file =
     (let version = extract_version (fst file); sql = fix_create_table (snd file) in
      on_error pg_begin (\<lambda>e. ret (Inl (Db e))) (\<lambda>p0.
      on_error (pg_exec (\<lambda>p. map_sum (\<lambda>e. e) (\<lambda>s. p\<lparr>schema := s\<rparr>) (exec_sql sql (schema p))))
        (\<lambda>e. do { pg_rollback p0; ret (Inl (Wrap (''migration '' @ fst file @ '' failed: '') (Db e))) }) (\<lambda>_.
      on_error (pg_exec (insert_migration version (get_migration_name (fst file))))
        (\<lambda>e. do { pg_rollback p0; ret (Inl (Wrap (''failed to record migration '' @ version @ '': '') (Db e))) }) (\<lambda>_.
      on_error (pg_commit p0) (\<lambda>e. ret (Inl (Db e))) (\<lambda>_. ret (Inr ()))))))"

definition run_migrations ::
  "(string \<Rightarrow> 's \<Rightarrow> db_error + 's) \<Rightarrow> (string \<times> string) list \<Rightarrow> ('s pg, go_error + unit) state" where
  "run_migrations exec_sql files =
     on_error create_migrations_table
       (\<lambda>e. ret (Inl (Wrap ''failed to create migrations table: '' (Db e)))) (\<lambda>_.
     on_error get_applied_migrations
       (\<lambda>e. ret (Inl (Wrap ''failed to get applied migrations: '' (Db e)))) (\<lambda>applied.
     try_each (sort_key fst files) (\<lambda>file.
       if extract_version (fst file) \<in> set applied then ret (Inr ()) else run_file exec_sql file)))"

section \<open>Lemmas on texts\<close>

lemma has_prefix_iff: "has_prefix s p \<longleftrightarrow> (\<exists>b. s = p @ b)"
  by (auto simp: has_prefix_def intro: exI [of _ "drop (length p) s"]) (metis append_take_drop_id)

lemma contains_iff: "contains s p \<longleftrightarrow> (\<exists>a b. s = a @ p @ b)"
proof
  assume "contains s p"
  then obtain n where "has_prefix (drop n s) p" unfolding contains_def list_ex_iff by blast
  then obtain b where "drop n s = p @ b" by (auto simp: has_prefix_iff)
  then have "s = take n s @ p @ b" by (metis append_take_drop_id)
  then show "\<exists>a b. s = a @ p @ b" by blast
next
  assume "\<exists>a b. s = a @ p @ b"
  then obtain a b where s: "s = a @ p @ b" by blast
  then have "has_prefix (drop (length a) s) p" by (simp add: has_prefix_iff)
  then show "contains s p"
    unfolding contains_def list_ex_iff using s by (intro bexI [of _ "length a"]) auto
qed

lemma replace_first_absent: "\<not> contains s old \<Longrightarrow> replace_first s old by = s"
proof (induction s)
  case (Cons x xs)
  then have "\<not> has_prefix (x # xs) old" "\<not> contains xs old"
    by (auto simp: contains_iff has_prefix_iff) (metis append_Nil, metis append_Cons)
  with Cons.IH show ?case by simp
qed (auto simp: contains_iff)

lemma replace_first_present:
  "contains s old \<Longrightarrow> old \<noteq> [] \<Longrightarrow> \<exists>a b. s = a @ old @ b \<and> replace_first s old by = a @ by @ b"
proof (induction s)
  case (Cons x xs)
  show ?case
  proof (cases "has_prefix (x # xs) old")
    case True
    then obtain b where b: "x # xs = old @ b" by (auto simp: has_prefix_iff)
    then have "drop (length old) (x # xs) = b" by (metis append_eq_conv_conj)
    with True have "replace_first (x # xs) old by = by @ b" by (simp only: replace_first.simps if_True)
    with b show ?thesis by (intro exI [of _ "[]"] exI [of _ b]) simp
  next
    case False
    with Cons.prems(1) have "contains xs old"
      by (auto simp: contains_iff has_prefix_iff) (metis append_eq_Cons_conv)
    with Cons.IH Cons.prems(2) obtain a b where "xs = a @ old @ b" "replace_first xs old by = a @ by @ b" by blast
    with False show ?thesis by (intro exI [of _ "x # a"] exI [of _ b]) simp
  qed
qed (auto simp: contains_iff)

text \<open>A text is trimmed if it is empty or both its ends are no white space.\<close>

definition trimmed :: "string \<Rightarrow> bool" where
  "trimmed s \<longleftrightarrow> s = [] \<or> \<not> is_space (hd s) \<and> \<not> is_space (last s)"

lemma dropWhile_ends:
  "dropWhile P s \<noteq> [] \<Longrightarrow> \<not> P (hd (dropWhile P s)) \<and> last (dropWhile P s) = last s"
  by (induction s) auto

lemma trim_space_trimmed: "trimmed (trim_space s)"
proof -
  let ?d = "dropWhile is_space s"
  let ?e = "dropWhile is_space (rev ?d)"
  have "trimmed (rev ?e)"
  proof (cases "?e = []")
    case False
    then have "?d \<noteq> []" by (metis dropWhile.simps(1) rev.simps(1))
    with dropWhile_ends [OF False] dropWhile_ends [of is_space s]
    have "\<not> is_space (hd ?e)" "last ?e = hd ?d" "\<not> is_space (hd ?d)" by (simp_all add: last_rev)
    with False show ?thesis by (simp add: trimmed_def hd_rev last_rev)
  qed (simp add: trimmed_def)
  then show ?thesis by (simp add: trim_space_def)
qed

lemma trim_space_id: "trimmed s \<Longrightarrow> trim_space s = s"
proof (cases "s = []")
  case False
  assume "trimmed s"
  with False have "dropWhile is_space s = s" "dropWhile is_space (rev s) = rev s"
    by (simp_all add: trimmed_def dropWhile_eq_self_iff hd_rev)
  then show ?thesis by (simp add: trim_space_def)
qed (simp add: trim_space_def)

lemma trim_space_subset: "set (trim_space s) \<subseteq> set s"
  by (auto simp: trim_space_def dest!: set_dropWhileD)

section \<open>The rewriting is idempotent\<close>

lemma to_upper_append [simp]: "to_upper (s @ t) = to_upper s @ to_upper t"
  by (simp add: to_upper_def)

lemma fix_statement_cases:
  "fix_statement s = s \<or> trimmed (fix_statement s) \<and>
     (contains (to_upper (fix_statement s)) ''IF NOT EXISTS'' \<or> fix_statement s = trim_space s \<and>
      \<not> contains (fix_statement s) ''CREATE TABLE'')"
proof (cases "trim_space s \<noteq> [] \<and> contains (to_upper (trim_space s)) ''CREATE TABLE'' \<and>
    \<not> contains (to_upper (trim_space s)) ''IF NOT EXISTS''")
  case True
  let ?t = "trim_space s" and ?f = "''CREATE TABLE IF NOT EXISTS''"
  from True have f: "fix_statement s = replace_first ?t ''CREATE TABLE'' ?f"
    by (simp add: fix_statement_def Let_def)
  show ?thesis
  proof (cases "contains ?t ''CREATE TABLE''")
    case False
    then show ?thesis using trim_space_trimmed [of s] by (simp add: f replace_first_absent)
  next
    case present: True
    from replace_first_present [OF present, of ?f]
    obtain a b where t: "?t = a @ ''CREATE TABLE'' @ b" and r: "fix_statement s = a @ ?f @ b"
      unfolding f by auto
    have "to_upper ?f = ''CREATE TABLE '' @ ''IF NOT EXISTS''" by (simp add: to_upper_def to_upper_char_def)
    then have "contains (to_upper (fix_statement s)) ''IF NOT EXISTS''"
      unfolding contains_iff r to_upper_append
      by (intro exI [of _ "to_upper a @ ''CREATE TABLE ''"] exI [of _ "to_upper b"]) simp
    moreover have "trimmed (fix_statement s)"
      using trim_space_trimmed [of s] unfolding t r
      by (cases a; cases "b = []") (auto simp: trimmed_def is_space_def)
    ultimately show ?thesis by blast
  qed
qed (auto simp: fix_statement_def Let_def)

lemma fix_statement_idem: "fix_statement (fix_statement s) = fix_statement s"
  using fix_statement_cases [of s]
proof
  assume "trimmed (fix_statement s) \<and> (contains (to_upper (fix_statement s)) ''IF NOT EXISTS'' \<or>
      fix_statement s = trim_space s \<and> \<not> contains (fix_statement s) ''CREATE TABLE'')"
  then show ?thesis
    by (auto simp: fix_statement_def [of "fix_statement s"] Let_def trim_space_id replace_first_absent)
qed simp

lemma fix_statement_free: "CHR '';'' \<notin> set s \<Longrightarrow> CHR '';'' \<notin> set (fix_statement s)"
proof -
  assume "CHR '';'' \<notin> set s"
  then have t: "CHR '';'' \<notin> set (trim_space s)" using trim_space_subset by blast
  have "CHR '';'' \<notin> set (replace_first (trim_space s) ''CREATE TABLE'' ''CREATE TABLE IF NOT EXISTS'')"
  proof (cases "contains (trim_space s) ''CREATE TABLE''")
    case True
    from replace_first_present [OF this, of "''CREATE TABLE IF NOT EXISTS''"] t show ?thesis by auto
  qed (simp add: replace_first_absent t)
  with \<open>CHR '';'' \<notin> set s\<close> show ?thesis by (simp add: fix_statement_def Let_def)
qed

text \<open>
  Rewriting a migration twice is rewriting it once, and the rewriting keeps the number
  of statements: it never adds or removes a semicolon.
\<close>
lemma fix_create_table_idempotent:
  "fix_create_table (fix_create_table sql) = fix_create_table sql \<and>
   length (split_at CHR '';'' (fix_create_table sql)) = length (split_at CHR '';'' sql)"
proof -
  let ?ps = "map fix_statement (split_at CHR '';'' sql)"
  have "\<forall>p \<in> set ?ps. CHR '';'' \<notin> set p"
    using split_parts_free [of _ "CHR '';''" sql] by (auto intro!: fix_statement_free)
  then have s: "split_at CHR '';'' (fix_create_table sql) = ?ps"
    unfolding fix_create_table_def by (intro split_join) auto
  then have "fix_create_table (fix_create_table sql) = join_with CHR '';'' (map fix_statement ?ps)"
    by (simp add: fix_create_table_def)
  then show ?thesis using s by (simp add: fix_create_table_def fix_statement_idem comp_def)
qed

section \<open>Migrations and the schema\<close>

definition recorded :: "'s pg \<Rightarrow> string list" where
  "recorded p = (case migration_rows p of None \<Rightarrow> [] | Some rows \<Rightarrow> map fst rows)"

definition text_of :: "(string \<times> string) list \<Rightarrow> string \<rightharpoonup> string" where
  "text_of files = map_of (map (\<lambda>f. (extract_version (fst f), snd f)) files)"

text \<open>Executing the migrations with the given versions, one after the other.\<close>

fun replay :: "(string \<Rightarrow> 's \<Rightarrow> db_error + 's) \<Rightarrow> (string \<rightharpoonup> string) \<Rightarrow> string list \<Rightarrow> 's \<Rightarrow> 's option" where
  "replay exec_sql texts [] s = Some s"
| "replay exec_sql texts (v # vs) s =
     (case texts v of
        None \<Rightarrow> None
      | Some sql \<Rightarrow> (case exec_sql (fix_create_table sql) s of Inl _ \<Rightarrow> None | Inr s' \<Rightarrow> replay exec_sql texts vs s'))"

lemma replay_append:
  "replay ex t (vs @ ws) s = (case replay ex t vs s of None \<Rightarrow> None | Some s' \<Rightarrow> replay ex t ws s')"
  by (induction vs arbitrary: s) (auto split: option.splits sum.splits)

text \<open>The schema is what the recorded migrations make of the one in the beginning.\<close>

definition migrated ::
  "(string \<Rightarrow> 's \<Rightarrow> db_error + 's) \<Rightarrow> (string \<times> string) list \<Rightarrow> 's \<Rightarrow> 's pg \<Rightarrow> bool" where
  "migrated exec_sql files s0 p \<longleftrightarrow> distinct (recorded p) \<and>
     replay exec_sql (text_of files) (recorded p) s0 = Some (schema p)"

lemma next_answer_frame:
  "next_answer p = (oc, p1) \<Longrightarrow> migration_rows p1 = migration_rows p \<and> schema p1 = schema p \<and>
     (answers p = [] \<longrightarrow> oc = Done \<and> p1 = p)"
  by (auto simp: next_answer_def split: list.splits)

lemma pg_run_empty [simp]:
  assumes "answers p = []"
  shows "run_state (pg_exec f) p = (case f p of Inl e \<Rightarrow> (Inl e, p) | Inr p2 \<Rightarrow> (Inr (), p2))"
    "run_state pg_begin p = (Inr p, p)" "run_state (pg_commit p0) p = (Inr (), p)"
    "migration_rows p = Some rows \<Longrightarrow> run_state get_applied_migrations p = (Inr (map fst rows), p)"
  using assms by (simp_all add: pg_exec_def pg_begin_def pg_commit_def get_applied_migrations_def next_answer_def
      split: sum.splits)

lemma pg_exec_outcome:
  assumes "run_state (pg_exec f) p = (r, p1)"
  shows "(\<exists>e. r = Inl e) \<and> migration_rows p1 = migration_rows p \<and> schema p1 = schema p \<or>
    (\<exists>p0. migration_rows p0 = migration_rows p \<and> schema p0 = schema p \<and> f p0 = Inr p1)"
  using assms by (auto simp: pg_exec_def Let_def split: prod.splits outcome.splits sum.splits if_splits
      dest!: next_answer_frame)

lemma run_file_outcome:
  assumes "run_state (run_file ex (path, text)) p = (r, p')"
  shows "(\<exists>e. r = Inl e) \<and> migration_rows p' = migration_rows p \<and> schema p' = schema p \<or>
    (\<exists>rows name. migration_rows p = Some rows \<and> extract_version path \<notin> fst ` set rows \<and>
       ex (fix_create_table text) (schema p) = Inr (schema p') \<and>
       migration_rows p' = Some (rows @ [(extract_version path, name)]))"
proof -
  let ?f = "\<lambda>p :: 'a pg. map_sum (\<lambda>e. e) (\<lambda>s. p\<lparr>schema := s\<rparr>) (ex (fix_create_table text) (schema p)) :: db_error + 'a pg"
  let ?g = "insert_migration (extract_version path) (get_migration_name path)"
  obtain b p1 where b: "run_state pg_begin p = (b, p1)" by fastforce
  then have f1: "migration_rows p1 = migration_rows p" "schema p1 = schema p" and b': "\<And>q. b = Inr q \<Longrightarrow> q = p1"
    by (auto simp: pg_begin_def Let_def split: prod.splits if_splits dest!: next_answer_frame)
  show ?thesis
  proof (cases b)
    case (Inl e)
    then show ?thesis using assms b f1 by (auto simp: run_file_def Let_def)
  next
    case (Inr p0)
    then have p0: "p0 = p1" by (rule b')
    obtain x p2 where x: "run_state (pg_exec ?f) p1 = (x, p2)" by fastforce
    show ?thesis
    proof (cases x)
      case (Inl e)
      then show ?thesis using assms b x f1 p0 \<open>b = Inr p0\<close> by (auto simp: run_file_def Let_def pg_rollback_def pg_restore_def)
    next
      case (Inr u)
      with pg_exec_outcome [OF x] f1 obtain q where "migration_rows q = migration_rows p" "schema q = schema p" "?f q = Inr p2"
        by auto
      then have s2: "ex (fix_create_table text) (schema p) = Inr (schema p2)" "migration_rows p2 = migration_rows p"
        by (cases "ex (fix_create_table text) (schema p)"; auto)+
      obtain y p3 where y: "run_state (pg_exec ?g) p2 = (y, p3)" by fastforce
      show ?thesis
      proof (cases y)
        case (Inl e)
        then show ?thesis using assms b x y f1 p0 \<open>b = Inr p0\<close> \<open>x = Inr u\<close>
          by (auto simp: run_file_def Let_def pg_rollback_def pg_restore_def)
      next
        case (Inr v)
        with pg_exec_outcome [OF y] s2 obtain q where q: "migration_rows q = migration_rows p" "schema q = schema p2"
            and g: "?g q = Inr p3"
          by auto
        then obtain rows where rows: "migration_rows p = Some rows" "extract_version path \<notin> fst ` set rows"
            "p3 = q\<lparr>migration_rows := Some (rows @ [(extract_version path, get_migration_name path)])\<rparr>"
          by (cases "migration_rows p") (auto simp: insert_migration_def split: if_splits)
        have "run_state (on_error (pg_commit p0) (\<lambda>e. ret (Inl (Db e))) (\<lambda>_. ret (Inr ()))) p3 = (r, p')"
          using assms b x y \<open>b = Inr p0\<close> \<open>x = Inr u\<close> \<open>y = Inr v\<close> by (simp add: run_file_def Let_def)
        then have "migration_rows p' = migration_rows p3 \<and> schema p' = schema p3 \<or>
            (\<exists>e. r = Inl e) \<and> migration_rows p' = migration_rows p \<and> schema p' = schema p"
          using f1 p0 by (auto simp: pg_commit_def pg_restore_def Let_def
              split: prod.splits outcome.splits sum.splits dest!: next_answer_frame)
        then show ?thesis using rows q(2) s2 by auto
      qed
    qed
  qed
qed

text \<open>The loop over the files, seen from the rows it adds.\<close>

lemma files_loop:
  assumes "distinct (map (\<lambda>f. extract_version (fst f)) all)" and "set files \<subseteq> set all"
    and "run_state (try_each files (\<lambda>f. if extract_version (fst f) \<in> set applied then ret (Inr ()) else run_file ex f)) p = (r, p')"
    and "migration_rows p = Some rows" and "distinct (map fst rows)"
  shows "\<exists>new. migration_rows p' = Some (rows @ new) \<and> distinct (map fst (rows @ new)) \<and>
    replay ex (text_of all) (map fst new) (schema p) = Some (schema p') \<and>
    subseq (map fst new) (map (\<lambda>f. extract_version (fst f)) files) \<and>
    (r = Inr () \<longrightarrow> (\<forall>f \<in> set files. extract_version (fst f) \<in> set applied \<union> fst ` set new))"
  using assms(2-5)
proof (induction files arbitrary: p rows)
  case Nil
  then show ?case by (intro exI [of _ "[]"]) simp
next
  case (Cons f files)
  let ?v = "extract_version (fst f)" and ?vs = "map (\<lambda>f. extract_version (fst f)) files"
  let ?loop = "try_each files (\<lambda>f. if extract_version (fst f) \<in> set applied then ret (Inr ()) else run_file ex f)"
  show ?case
  proof (cases "?v \<in> set applied")
    case True
    with Cons.prems have "run_state ?loop p = (r, p')" by simp
    from Cons.IH [OF _ this Cons.prems(3,4)] Cons.prems(1) obtain new
      where "migration_rows p' = Some (rows @ new)" "distinct (map fst (rows @ new))"
        "replay ex (text_of all) (map fst new) (schema p) = Some (schema p')" "subseq (map fst new) ?vs"
        "r = Inr () \<longrightarrow> (\<forall>f \<in> set files. extract_version (fst f) \<in> set applied \<union> fst ` set new)"
      by auto
    with True show ?thesis by (intro exI [of _ new]) auto
  next
    case False
    obtain x p1 where x: "run_state (run_file ex f) p = (x, p1)" by fastforce
    have out: "(\<exists>e. x = Inl e) \<and> migration_rows p1 = migration_rows p \<and> schema p1 = schema p \<or>
      (\<exists>name. ?v \<notin> fst ` set rows \<and> ex (fix_create_table (snd f)) (schema p) = Inr (schema p1) \<and>
         migration_rows p1 = Some (rows @ [(?v, name)]))"
      using run_file_outcome [of ex "fst f" "snd f" p x p1] x Cons.prems(3) by simp
    have sql: "text_of all ?v = Some (snd f)"
      unfolding text_of_def using assms(1) Cons.prems(1) by (intro map_of_is_SomeI) (auto simp: comp_def)
    show ?thesis
    proof (cases x)
      case (Inl e)
      with x False Cons.prems(2) have p': "p' = p1" "r = Inl e" by simp_all
      from out show ?thesis
      proof (elim disjE exE conjE)
        fix name
        assume "?v \<notin> fst ` set rows" "ex (fix_create_table (snd f)) (schema p) = Inr (schema p1)"
          "migration_rows p1 = Some (rows @ [(?v, name)])"
        with p' sql Cons.prems(4) show ?thesis by (intro exI [of _ "[(?v, name)]"]) auto
      qed (use p' Cons.prems(3,4) in \<open>auto intro!: exI [of _ "[]"]\<close>)
    next
      case (Inr u)
      with out obtain name where o: "?v \<notin> fst ` set rows" "ex (fix_create_table (snd f)) (schema p) = Inr (schema p1)"
        "migration_rows p1 = Some (rows @ [(?v, name)])" by auto
      have "run_state ?loop p1 = (r, p')" using x Inr False Cons.prems(2) by simp
      moreover have "distinct (map fst (rows @ [(?v, name)]))" using o(1) Cons.prems(4) by simp
      moreover have "set files \<subseteq> set all" using Cons.prems(1) by simp
      ultimately have "\<exists>new. migration_rows p' = Some ((rows @ [(?v, name)]) @ new) \<and>
          distinct (map fst ((rows @ [(?v, name)]) @ new)) \<and>
          replay ex (text_of all) (map fst new) (schema p1) = Some (schema p') \<and> subseq (map fst new) ?vs \<and>
          (r = Inr () \<longrightarrow> (\<forall>f \<in> set files. extract_version (fst f) \<in> set applied \<union> fst ` set new))"
        using o(3) by (intro Cons.IH)
      then obtain new where n: "migration_rows p' = Some ((rows @ [(?v, name)]) @ new)"
          "distinct (map fst ((rows @ [(?v, name)]) @ new))"
          "replay ex (text_of all) (map fst new) (schema p1) = Some (schema p')" "subseq (map fst new) ?vs"
          "r = Inr () \<longrightarrow> (\<forall>f \<in> set files. extract_version (fst f) \<in> set applied \<union> fst ` set new)"
        by blast
      show ?thesis using n sql o(2) by (intro exI [of _ "(?v, name) # new"]) auto
    qed
  qed
qed

lemma calls_before_loop:
  "run_state create_migrations_table p = (r, p1) \<Longrightarrow> recorded p1 = recorded p \<and> schema p1 = schema p \<and>
     (r = Inr () \<longrightarrow> migration_rows p1 \<noteq> None)"
  "run_state get_applied_migrations p = (a, p1) \<Longrightarrow> migration_rows p1 = migration_rows p \<and> schema p1 = schema p \<and>
     (\<forall>vs. a = Inr vs \<longrightarrow> set vs \<subseteq> set (recorded p) \<and> migration_rows p \<noteq> None)"
  by (auto simp: create_migrations_table_def get_applied_migrations_def pg_exec_def recorded_def Let_def
      split: prod.splits outcome.splits option.splits if_splits dest!: next_answer_frame dest: in_set_takeD)
    (metis fst_conv image_eqI in_set_takeD)

lemma run_migrations_outcome:
  assumes "distinct (map (\<lambda>f. extract_version (fst f)) files)" and "migrated exec_sql files s0 p"
    and "run_state (run_migrations exec_sql files) p = (r, p')"
  shows "migrated exec_sql files s0 p' \<and>
    (\<exists>new. recorded p' = recorded p @ new \<and> subseq new (map (\<lambda>f. extract_version (fst f)) (sort_key fst files))) \<and>
    (r = Inr () \<longrightarrow> (\<forall>f \<in> set files. extract_version (fst f) \<in> set (recorded p')))"
proof -
  obtain x p1 where x: "run_state create_migrations_table p = (x, p1)" by fastforce
  note f1 = calls_before_loop(1) [OF x]
  obtain a p2 where a: "run_state get_applied_migrations p1 = (a, p2)" by fastforce
  note f2 = calls_before_loop(2) [OF a]
  have same: ?thesis if "recorded p' = recorded p" "schema p' = schema p" "r \<noteq> Inr ()"
    using that assms(2) by (auto simp: migrated_def)
  show ?thesis
  proof (cases x)
    case (Inl e)
    with assms(3) x have "p' = p1" "r \<noteq> Inr ()" by (auto simp: run_migrations_def)
    with f1 show ?thesis by (intro same) simp_all
  next
    case (Inr u)
    show ?thesis
    proof (cases a)
      case (Inl e)
      with assms(3) x a \<open>x = Inr u\<close> have "p' = p2" "r \<noteq> Inr ()" by (auto simp: run_migrations_def)
      with f1 f2 show ?thesis by (intro same) (simp_all add: recorded_def)
    next
      case (Inr applied)
      with f2 obtain rows where rows: "migration_rows p2 = Some rows" "set applied \<subseteq> fst ` set rows"
        by (auto simp: recorded_def)
      from f1 f2 have "recorded p2 = recorded p" and sch: "schema p2 = schema p" by (simp_all add: recorded_def)
      with rows(1) have rec: "recorded p = map fst rows" by (simp add: recorded_def)
      have run: "run_state (try_each (sort_key fst files) (\<lambda>f. if extract_version (fst f) \<in> set applied then ret (Inr ())
          else run_file exec_sql f)) p2 = (r, p')"
        using assms(3) x a \<open>x = Inr u\<close> Inr by (simp add: run_migrations_def)
      have "distinct (map fst rows)" using assms(2) rec by (simp add: migrated_def)
      from files_loop [OF assms(1) _ run rows(1) this] obtain new
        where n: "migration_rows p' = Some (rows @ new)" "distinct (map fst (rows @ new))"
          "replay exec_sql (text_of files) (map fst new) (schema p2) = Some (schema p')"
          "subseq (map fst new) (map (\<lambda>f. extract_version (fst f)) (sort_key fst files))"
          "r = Inr () \<longrightarrow> (\<forall>f \<in> set files. extract_version (fst f) \<in> set applied \<union> fst ` set new)"
        by auto
      have rec': "recorded p' = recorded p @ map fst new" using n(1) rec by (simp add: recorded_def)
      have "migrated exec_sql files s0 p'"
        using assms(2) n(2,3) rec sch unfolding migrated_def rec' by (simp add: replay_append)
      moreover have "r = Inr () \<longrightarrow> (\<forall>f \<in> set files. extract_version (fst f) \<in> set (recorded p'))"
        using n(5) rows(2) by (auto simp: rec' rec)
      ultimately show ?thesis using n(4) rec' by blast
    qed
  qed
qed

lemma run_migrations_table: "run_state (run_migrations exec_sql files) p = (Inr (), p') \<Longrightarrow> \<exists>rows. migration_rows p' = Some rows"
proof -
  have keep: "state_io_rel (keeps (\<lambda>p. migration_rows p \<noteq> None)) (run_file exec_sql f)" for f
    using run_file_outcome [of exec_sql "fst f" "snd f"]
    by (auto intro!: state_io_relI simp: keeps_def) (metis option.discI)+
  have loop: "state_io_rel (keeps (\<lambda>p. migration_rows p \<noteq> None))
      (try_each fs (\<lambda>f. if extract_version (fst f) \<in> set applied then ret (Inr ()) else run_file exec_sql f))" for applied fs
    by (intro io_intros io_preorder_keeps keep)
  assume "run_state (run_migrations exec_sql files) p = (Inr (), p')"
  then obtain p1 p2 applied where 1: "run_state create_migrations_table p = (Inr (), p1)"
    and 2: "run_state get_applied_migrations p1 = (Inr applied, p2)"
    and 3: "run_state (try_each (sort_key fst files) (\<lambda>f. if extract_version (fst f) \<in> set applied then ret (Inr ())
       else run_file exec_sql f)) p2 = (Inr (), p')"
    by (auto simp: run_migrations_def split: prod.splits sum.splits)
  have "migration_rows p2 \<noteq> None" using calls_before_loop(1) [OF 1] calls_before_loop(2) [OF 2] by simp
  with state_io_relD [OF loop 3] show ?thesis by (simp add: keeps_def)
qed

text \<open>
  Whatever calls fail, and however often the server is started again, the schema is
  exactly what the recorded migrations make of the original one, executed in the order of
  the records; no migration is recorded twice, none that is recorded is ever executed
  again, and those of one run are executed in the order of the files. A run that reports
  success has left every file's migration recorded.
\<close>
lemma migrations_atomic:
  assumes "distinct (map (\<lambda>f. extract_version (fst f)) files)" and "migrated exec_sql files s0 p"
    and "run_state (run_migrations exec_sql files) p = (r, p')"
  shows "migrated exec_sql files s0 p' \<and>
    (\<exists>new. recorded p' = recorded p @ new \<and> subseq new (map (\<lambda>f. extract_version (fst f)) (sort_key fst files))) \<and>
    (r = Inr () \<longrightarrow> (\<forall>f \<in> set files. extract_version (fst f) \<in> set (recorded p')))"
  using assms by (rule run_migrations_outcome)

definition demo_files :: "(string \<times> string) list" where
  "demo_files = [(''migrations/1_a.up.sql'', ''create''), (''migrations/2_b.up.sql'', ''alter'')]"

lemma demo_versions: "map (\<lambda>f. extract_version (fst f)) demo_files = [''1_a'', ''2_b'']"
  by (simp add: demo_files_def extract_version_def file_name_def trim_suffix_def)

text \<open>
  A second start does nothing: where the database answers every call, running the
  migrations after a run that succeeded succeeds again and changes nothing at all.
\<close>
lemma migrations_idempotent:
  assumes "distinct (map (\<lambda>f. extract_version (fst f)) files)" and "migrated exec_sql files s0 p"
    and "run_state (run_migrations exec_sql files) p = (Inr (), p')" and "answers p' = []"
  shows "run_state (run_migrations exec_sql files) p' = (Inr (), p')"
proof -
  have rec: "\<forall>f \<in> set files. extract_version (fst f) \<in> set (recorded p')"
    using run_migrations_outcome [OF assms(1-3)] by blast
  obtain rows where rows: "migration_rows p' = Some rows"
    using run_migrations_table [OF assms(3)] by blast
  have skip: "run_state (try_each fs (\<lambda>f. if extract_version (fst f) \<in> set (map fst rows) then ret (Inr ())
      else run_file exec_sql f)) p' = (Inr (), p')" if "set fs \<subseteq> set files" for fs
    using that rec rows by (induction fs) (auto simp: recorded_def)
  from rows have same: "p'\<lparr>migration_rows := Some rows\<rparr> = p'" by (cases p') simp
  have "run_state create_migrations_table p' = (Inr (), p')"
    using assms(4) by (simp add: create_migrations_table_def rows same)
  moreover have "run_state get_applied_migrations p' = (Inr (map fst rows), p')"
    using assms(4) rows by simp
  ultimately show ?thesis using skip [of "sort_key fst files"] by (simp add: run_migrations_def)
qed

section \<open>The files of the repository\<close>

definition migration_paths :: "string list" where
  "migration_paths = [''migrations/000001_create_users.up.sql'', ''migrations/000002_create_permissions.up.sql'',
     ''migrations/000003_create_roles.up.sql'', ''migrations/000004_create_role_permissions.up.sql'',
     ''migrations/000005_create_user_roles.up.sql'', ''migrations/000006_create_refresh_tokens.up.sql'',
     ''migrations/000007_create_activity_logs.up.sql'', ''migrations/000008_create_sessions.up.sql'']"

text \<open>Their versions differ, which the properties above ask for; a version includes the name.\<close>

lemma repository_versions: "distinct (map extract_version migration_paths)"
  "hd (map extract_version migration_paths) = ''000001_create_users''"
  by (simp_all add: migration_paths_def extract_version_def file_name_def trim_suffix_def)

end
