(* ===== verification/MigrateRace.thy ===== *)
theory MigrateRace
  imports Migrate
begin

text \<open>
  Instances of the server that start at the same time, on one database: each runs the migrations, and
  nothing keeps it from reading the applied ones before another has recorded its own. The steps are the
  calls of \<open>RunMigrations\<close> before its loop, and the transaction of one file.
\<close>

section \<open>Instances\<close>

datatype starter =
  Creating
| Reading
| Running "string list" "(string \<times> string) list"
| Started
| Failed go_error

definition starter_step ::
  "(string \<Rightarrow> 's \<Rightarrow> db_error + 's) \<Rightarrow> (string \<times> string) list \<Rightarrow> starter \<Rightarrow> 's pg \<Rightarrow> starter \<times> 's pg" where
  "starter_step ex files st p =
     (case st of
        Creating \<Rightarrow>
          (case run_state create_migrations_table p of
             (Inl e, p1) \<Rightarrow> (Failed (Wrap ''failed to create migrations table: '' (Db e)), p1)
           | (Inr _, p1) \<Rightarrow> (Reading, p1))
      | Reading \<Rightarrow>
          (case run_state get_applied_migrations p of
             (Inl e, p1) \<Rightarrow> (Failed (Wrap ''failed to get applied migrations: '' (Db e)), p1)
           | (Inr applied, p1) \<Rightarrow> (Running applied (sort_key fst files), p1))
      | Running applied [] \<Rightarrow> (Started, p)
      | Running applied (f # fs) \<Rightarrow>
          if extract_version (fst f) \<in> set applied then (Running applied fs, p)
          else (case run_state (run_file ex f) p of
                  (Inl e, p1) \<Rightarrow> (Failed e, p1)
                | (Inr _, p1) \<Rightarrow> (Running applied fs, p1))
      | _ \<Rightarrow> (st, p))"

record 's fleet =
  fl_pg :: "'s pg"
  fl_starters :: "starter list"

text \<open>An instance may join at any time, or stop between two steps and start again.\<close>

inductive fleet_step ::
  "(string \<Rightarrow> 's \<Rightarrow> db_error + 's) \<Rightarrow> (string \<times> string) list \<Rightarrow> 's fleet \<Rightarrow> 's fleet \<Rightarrow> bool" for ex files where
  act: "n < length (fl_starters c) \<Longrightarrow> starter_step ex files (fl_starters c ! n) (fl_pg c) = (st, p) \<Longrightarrow>
    fleet_step ex files c \<lparr>fl_pg = p, fl_starters = (fl_starters c)[n := st]\<rparr>"
| join: "fleet_step ex files c (c\<lparr>fl_starters := fl_starters c @ [Creating]\<rparr>)"
| crash: "n < length (fl_starters c) \<Longrightarrow> fleet_step ex files c (c\<lparr>fl_starters := (fl_starters c)[n := Creating]\<rparr>)"

abbreviation fleet_steps ::
  "(string \<Rightarrow> 's \<Rightarrow> db_error + 's) \<Rightarrow> (string \<times> string) list \<Rightarrow> 's fleet \<Rightarrow> 's fleet \<Rightarrow> bool" where
  "fleet_steps ex files \<equiv> (fleet_step ex files)\<^sup>*\<^sup>*"

section \<open>What every instance relies on\<close>

text \<open>
  What is not recorded yet is still to be done; an instance that started has nothing left.
\<close>

definition starter_ok :: "(string \<times> string) list \<Rightarrow> string list \<Rightarrow> starter \<Rightarrow> bool" where
  "starter_ok files done st \<longleftrightarrow>
     (case st of
        Running applied fs \<Rightarrow> set applied \<subseteq> set done \<and> set fs \<subseteq> set files \<and>
          (\<forall>f \<in> set files. extract_version (fst f) \<in> set done \<or> f \<in> set fs)
      | Started \<Rightarrow> \<forall>f \<in> set files. extract_version (fst f) \<in> set done
      | _ \<Rightarrow> True)"

lemma starter_ok_mono: "starter_ok files d st \<Longrightarrow> set d \<subseteq> set d' \<Longrightarrow> starter_ok files d' st"
  by (auto simp: starter_ok_def split: starter.splits)

lemma run_file_migrated:
  assumes "distinct (map (\<lambda>f. extract_version (fst f)) files)" and "f \<in> set files" and "migrated ex files s0 p"
    and "run_state (run_file ex f) p = (r, p')"
  shows "migrated ex files s0 p' \<and> set (recorded p) \<subseteq> set (recorded p') \<and> (r = Inr () \<longrightarrow> extract_version (fst f) \<in> set (recorded p'))"
proof -
  have "run_state (run_file ex (fst f, snd f)) p = (r, p')" using assms(4) by simp
  from run_file_outcome [OF this] show ?thesis
  proof (elim disjE conjE exE)
    fix e assume "r = Inl e" "migration_rows p' = migration_rows p" "schema p' = schema p"
    then show ?thesis using assms(3) by (simp add: migrated_def recorded_def)
  next
    fix rows name
    assume o: "migration_rows p = Some rows" "extract_version (fst f) \<notin> fst ` set rows"
      "ex (fix_create_table (snd f)) (schema p) = Inr (schema p')"
      "migration_rows p' = Some (rows @ [(extract_version (fst f), name)])"
    have r: "recorded p' = recorded p @ [extract_version (fst f)]" "recorded p = map fst rows"
      using o(1,4) by (simp_all add: recorded_def)
    have "text_of files (extract_version (fst f)) = Some (snd f)"
      unfolding text_of_def using assms(1,2) by (intro map_of_is_SomeI) (auto simp: comp_def)
    with assms(3) o r show ?thesis by (auto simp: migrated_def replay_append)
  qed
qed

lemma starter_step_ok:
  assumes "distinct (map (\<lambda>f. extract_version (fst f)) files)" and "migrated ex files s0 p" and "starter_ok files (recorded p) st"
    and "starter_step ex files st p = (st', p')"
  shows "migrated ex files s0 p' \<and> set (recorded p) \<subseteq> set (recorded p') \<and> starter_ok files (recorded p') st'"
proof (cases st)
  case Creating
  obtain r p1 where r: "run_state create_migrations_table p = (r, p1)" by fastforce
  from calls_before_loop(1) [OF r] assms r show ?thesis
    by (auto simp: Creating starter_step_def migrated_def starter_ok_def split: sum.splits)
next
  case Reading
  obtain r p1 where r: "run_state get_applied_migrations p = (r, p1)" by fastforce
  note f = calls_before_loop(2) [OF r]
  then have "recorded p1 = recorded p" by (simp add: recorded_def)
  with f assms r show ?thesis
    by (auto simp: Reading starter_step_def migrated_def starter_ok_def split: sum.splits)
next
  case (Running applied fs)
  show ?thesis
  proof (cases fs)
    case Nil
    with assms show ?thesis by (auto simp: Running starter_step_def starter_ok_def)
  next
    case (Cons f fs')
    have i: "set applied \<subseteq> set (recorded p)" "f \<in> set files" "set fs' \<subseteq> set files"
      "\<forall>g \<in> set files. extract_version (fst g) \<in> set (recorded p) \<or> g = f \<or> g \<in> set fs'"
      using assms(3) by (auto simp: Running Cons starter_ok_def)
    show ?thesis
    proof (cases "extract_version (fst f) \<in> set applied")
      case True
      with i have "\<forall>g \<in> set files. extract_version (fst g) \<in> set (recorded p) \<or> g \<in> set fs'" by blast
      moreover have "st' = Running applied fs'" "p' = p" using assms(4) True by (simp_all add: Running Cons starter_step_def)
      ultimately show ?thesis using i(1,3) assms(2) by (simp add: starter_ok_def)
    next
      case False
      obtain r p1 where r: "run_state (run_file ex f) p = (r, p1)" by fastforce
      note m = run_file_migrated [OF assms(1) i(2) assms(2) r]
      show ?thesis
      proof (cases r)
        case (Inl e)
        with False r m assms(4) show ?thesis by (auto simp: Running Cons starter_step_def starter_ok_def)
      next
        case (Inr u)
        have "st' = Running applied fs'" "p' = p1" using assms(4) False r Inr by (simp_all add: Running Cons starter_step_def)
        moreover have grown: "set (recorded p) \<subseteq> set (recorded p1)" "extract_version (fst f) \<in> set (recorded p1)"
          using m Inr by simp_all
        moreover have "set applied \<subseteq> set (recorded p1)" using i(1) grown(1) by (rule order_trans)
        moreover have "\<forall>g \<in> set files. extract_version (fst g) \<in> set (recorded p1) \<or> g \<in> set fs'"
        proof
          fix g assume "g \<in> set files"
          with i(4) consider "extract_version (fst g) \<in> set (recorded p)" | "g = f" | "g \<in> set fs'" by blast
          then show "extract_version (fst g) \<in> set (recorded p1) \<or> g \<in> set fs'"
            using grown by cases (simp_all add: subsetD)
        qed
        ultimately show ?thesis using m i(3) by (simp add: starter_ok_def)
      qed
    qed
  qed
qed (use assms in \<open>auto simp: starter_step_def starter_ok_def\<close>)

definition fleet_ok :: "(string \<Rightarrow> 's \<Rightarrow> db_error + 's) \<Rightarrow> (string \<times> string) list \<Rightarrow> 's \<Rightarrow> 's fleet \<Rightarrow> bool" where
  "fleet_ok ex files s0 c \<longleftrightarrow> migrated ex files s0 (fl_pg c) \<and> list_all (starter_ok files (recorded (fl_pg c))) (fl_starters c)"

lemma fleet_step_ok:
  assumes "distinct (map (\<lambda>f. extract_version (fst f)) files)"
  shows "fleet_step ex files c c' \<Longrightarrow> fleet_ok ex files s0 c \<Longrightarrow> fleet_ok ex files s0 c'"
proof (induction rule: fleet_step.induct)
  case (act n c st p)
  have m: "migrated ex files s0 (fl_pg c)" and a: "\<forall>s \<in> set (fl_starters c). starter_ok files (recorded (fl_pg c)) s"
    using act.prems by (simp_all add: fleet_ok_def list_all_iff)
  with act.hyps(1) have "starter_ok files (recorded (fl_pg c)) (fl_starters c ! n)" by simp
  note s = starter_step_ok [OF assms m this act.hyps(2)]
  then have "starter_ok files (recorded p) s'" if "s' \<in> set ((fl_starters c)[n := st])" for s'
    using a set_update_subset_insert [of "fl_starters c" n st] that starter_ok_mono by blast
  with s show ?case by (simp add: fleet_ok_def list_all_iff)
next
  case (join c)
  then show ?case by (simp add: fleet_ok_def starter_ok_def)
next
  case (crash n c)
  then have "starter_ok files (recorded (fl_pg c)) s'" if "s' \<in> set ((fl_starters c)[n := Creating])" for s'
    using set_update_subset_insert [of "fl_starters c" n Creating] that
    by (auto simp: fleet_ok_def list_all_iff starter_ok_def [of _ _ Creating])
  with crash show ?case by (simp add: fleet_ok_def list_all_iff)
qed

section \<open>An instance alone\<close>

text \<open>
  What \<open>n\<close> steps of one instance do. Undisturbed, an instance does what \<open>run_migrations\<close> does, in
  two steps and one for each file.
\<close>

fun alone :: "(string \<Rightarrow> 's \<Rightarrow> db_error + 's) \<Rightarrow> (string \<times> string) list \<Rightarrow> nat \<Rightarrow> starter \<times> 's pg \<Rightarrow> starter \<times> 's pg" where
  "alone ex files 0 c = c"
| "alone ex files (Suc n) c = alone ex files n (starter_step ex files (fst c) (snd c))"

definition ending_of :: "go_error + unit \<Rightarrow> starter" where
  "ending_of r = (case r of Inl e \<Rightarrow> Failed e | Inr _ \<Rightarrow> Started)"

lemma failed_stays: "alone ex files n (Failed e, p) = (Failed e, p)"
  by (induction n) (simp_all add: starter_step_def)

lemma loop_alone:
  "run_state (try_each fs (\<lambda>f. if extract_version (fst f) \<in> set applied then ret (Inr ()) else run_file ex f)) p = (r, p') \<Longrightarrow>
   alone ex files (Suc (length fs)) (Running applied fs, p) = (ending_of r, p')"
proof (induction fs arbitrary: p)
  case Nil
  then show ?case by (auto simp: starter_step_def ending_of_def)
next
  case (Cons f fs)
  show ?case
  proof (cases "extract_version (fst f) \<in> set applied")
    case True
    with Cons show ?thesis by (simp add: starter_step_def)
  next
    case False
    obtain x p1 where x: "run_state (run_file ex f) p = (x, p1)" by fastforce
    show ?thesis
    proof (cases x)
      case (Inl e)
      with False x Cons.prems have "r = Inl e" "p' = p1" by simp_all
      with Inl False x show ?thesis by (simp add: starter_step_def failed_stays ending_of_def)
    next
      case (Inr u)
      with False x Cons show ?thesis by (simp add: starter_step_def)
    qed
  qed
qed

lemma undisturbed_instance:
  assumes "run_state (run_migrations ex files) p = (r, p')"
  shows "alone ex files (length files + 3) (Creating, p) = (ending_of r, p')"
proof -
  obtain x p1 where x: "run_state create_migrations_table p = (x, p1)" by fastforce
  have n: "length files + 3 = Suc (Suc (Suc (length (sort_key fst files))))" by simp
  show ?thesis
  proof (cases x)
    case (Inl e)
    with assms x have "r = Inl (Wrap ''failed to create migrations table: '' (Db e))" "p' = p1" by (simp_all add: run_migrations_def)
    with x Inl show ?thesis by (simp add: n starter_step_def failed_stays ending_of_def)
  next
    case (Inr u)
    obtain y p2 where y: "run_state get_applied_migrations p1 = (y, p2)" by fastforce
    show ?thesis
    proof (cases y)
      case (Inl e)
      with assms x \<open>x = Inr u\<close> y have "r = Inl (Wrap ''failed to get applied migrations: '' (Db e))" "p' = p2"
        by (simp_all add: run_migrations_def)
      with x y Inl \<open>x = Inr u\<close> show ?thesis by (simp add: n starter_step_def failed_stays ending_of_def)
    next
      case (Inr applied)
      with assms x \<open>x = Inr u\<close> y have "run_state (try_each (sort_key fst files)
          (\<lambda>f. if extract_version (fst f) \<in> set applied then ret (Inr ()) else run_file ex f)) p2 = (r, p')"
        by (simp add: run_migrations_def)
      note loop = loop_alone [OF this, of files]
      have "alone ex files (length files + 3) (Creating, p) = alone ex files (Suc (length (sort_key fst files))) (Running applied (sort_key fst files), p2)"
        using x y Inr \<open>x = Inr u\<close> by (simp add: n starter_step_def del: length_sort)
      with loop show ?thesis by (simp only:)
    qed
  qed
qed

section \<open>Many instances\<close>

text \<open>An instance that comes to a file which another has recorded since it looked fails on it.\<close>

lemma late_instance_fails:
  assumes "extract_version (fst f) \<in> set (recorded p)" and "extract_version (fst f) \<notin> set applied"
  shows "\<exists>e. fst (starter_step ex files (Running applied (f # fs)) p) = Failed e"
proof -
  obtain r p1 where r: "run_state (run_file ex f) p = (r, p1)" by fastforce
  then have "run_state (run_file ex (fst f, snd f)) p = (r, p1)" by simp
  from run_file_outcome [OF this] assms(1) obtain e where "r = Inl e" by (auto simp: recorded_def)
  with r assms(2) show ?thesis by (simp add: starter_step_def)
qed

text \<open>A schedule: whose turn it is, step by step.\<close>

definition fleet_act :: "(string \<Rightarrow> 's \<Rightarrow> db_error + 's) \<Rightarrow> (string \<times> string) list \<Rightarrow> nat \<Rightarrow> 's fleet \<Rightarrow> 's fleet" where
  "fleet_act ex files n c =
     (let (st, p) = starter_step ex files (fl_starters c ! n) (fl_pg c) in \<lparr>fl_pg = p, fl_starters = (fl_starters c)[n := st]\<rparr>)"

lemma fleet_act_step: "n < length (fl_starters c) \<Longrightarrow> fleet_step ex files c (fleet_act ex files n c)"
  by (auto simp: fleet_act_def intro: fleet_step.act split: prod.split)

lemma scheduled_steps:
  "list_all (\<lambda>n. n < length (fl_starters c)) ns \<Longrightarrow> fleet_steps ex files c (fold (fleet_act ex files) ns c)"
proof (induction ns arbitrary: c)
  case (Cons n ns)
  then have "length (fl_starters (fleet_act ex files n c)) = length (fl_starters c)"
    by (simp add: fleet_act_def split: prod.split)
  with Cons have "fleet_steps ex files (fleet_act ex files n c) (fold (fleet_act ex files) (n # ns) c)" by simp
  moreover have "fleet_step ex files c (fleet_act ex files n c)" using Cons.prems by (simp add: fleet_act_step)
  ultimately show ?case by (rule converse_rtranclp_into_rtranclp [rotated])
qed simp

lemma joined_steps:
  "fleet_steps ex files \<lparr>fl_pg = p, fl_starters = []\<rparr> \<lparr>fl_pg = p, fl_starters = replicate k Creating\<rparr>"
proof (induction k)
  case (Suc k)
  from fleet_step.join [of ex files "\<lparr>fl_pg = p, fl_starters = replicate k Creating\<rparr>"]
  show ?case using Suc by (simp add: replicate_append_same)
qed simp

text \<open>Two instances that look before either has recorded anything: one starts, the other does not.\<close>

definition demo_race :: "string list fleet" where
  "demo_race = fold (fleet_act (\<lambda>sql s. Inr (s @ [sql])) demo_files) [0, 1, 0, 1, 0, 1, 0, 0]
     \<lparr>fl_pg = \<lparr>migration_rows = None, schema = [], answers = []\<rparr>, fl_starters = [Creating, Creating]\<rparr>"

lemma demo_race_ends:
  "fl_starters demo_race =
     [Started, Failed (Wrap ''failed to record migration 1_a: '' (Db (UniqueViolation ''schema_migrations_version_key'')))]"
  "schema (fl_pg demo_race) = [''create'', ''alter'']"
  by code_simp+

text \<open>
  C21: any number of instances may start at the same time, stop anywhere and start again, and any of
  their calls may fail: the schema stays what the recorded migrations make of the original
  one, each of them recorded and executed once, and an instance that has started finds the
  migrations of all its files applied. There is no lock, though: an instance that comes to a
  file which another one has recorded since it looked does not start.
\<close>
theorem concurrent_starts_migrate_once:
  assumes "distinct (map (\<lambda>f. extract_version (fst f)) files)" and "migrated ex files s0 p"
    and "fleet_steps ex files \<lparr>fl_pg = p, fl_starters = []\<rparr> c"
  shows "migrated ex files s0 (fl_pg c) \<and>
    (Started \<in> set (fl_starters c) \<longrightarrow> (\<forall>f \<in> set files. extract_version (fst f) \<in> set (recorded (fl_pg c)))) \<and>
    (\<forall>applied f fs. extract_version (fst f) \<in> set (recorded (fl_pg c)) \<and> extract_version (fst f) \<notin> set applied \<longrightarrow>
       (\<exists>e. fst (starter_step ex files (Running applied (f # fs)) (fl_pg c)) = Failed e))"
proof -
  have "fleet_ok ex files s0 c"
    using assms(3)
  proof (induction rule: rtranclp_induct)
    case base
    then show ?case by (simp add: fleet_ok_def assms(2))
  next
    case (step c c')
    from fleet_step_ok [OF assms(1) step(2,3)] show ?case .
  qed
  then show ?thesis using late_instance_fails
    by (fastforce simp: fleet_ok_def list_all_iff starter_ok_def split: starter.splits)
qed

theorem concurrent_starts_migrate_once_witness:
  "Started \<in> set (fl_starters demo_race) \<and>
   (\<lambda>f. extract_version (fst f)) ` set demo_files \<subseteq> set (recorded (fl_pg demo_race)) \<and>
   migrated (\<lambda>sql s. Inr (s @ [sql])) demo_files [] (fl_pg demo_race)"
proof -
  let ?ex = "\<lambda>sql s. Inr (s @ [sql]) :: db_error + string list"
  let ?p = "\<lparr>migration_rows = None, schema = [], answers = []\<rparr> :: string list pg"
  have "fleet_steps ?ex demo_files \<lparr>fl_pg = ?p, fl_starters = []\<rparr> \<lparr>fl_pg = ?p, fl_starters = [Creating, Creating]\<rparr>"
    using joined_steps [of ?ex demo_files ?p 2] by (simp add: numeral_2_eq_2)
  also have "fleet_steps ?ex demo_files \<lparr>fl_pg = ?p, fl_starters = [Creating, Creating]\<rparr> demo_race"
    unfolding demo_race_def by (rule scheduled_steps) simp
  finally have run: "fleet_steps ?ex demo_files \<lparr>fl_pg = ?p, fl_starters = []\<rparr> demo_race" .
  have "migrated ?ex demo_files [] ?p" by (simp add: migrated_def recorded_def)
  moreover have "distinct (map (\<lambda>f. extract_version (fst f)) demo_files)" by (simp add: demo_versions)
  moreover have "Started \<in> set (fl_starters demo_race)" by (simp add: demo_race_ends)
  ultimately show ?thesis using concurrent_starts_migrate_once [OF _ _ run, of "[]"] by (simp only: simp_thms) blast
qed

end
