(* ===== verification/RevokeRace.thy ===== *)
theory RevokeRace
  imports AuthGuard AuthProps
begin

text \<open>
  Requests and logouts that run at the same time: \<open>AuthRequired\<close> of \<open>internal/middleware/auth.go\<close> and
  the black-listing half of \<open>Logout\<close>, one access to the cache, the clock or Redis after the other.
  A request that asked the black list before a logout may store its token in the cache after it;
  how long a revoked token can still be used is the subject of this theory.
\<close>

section \<open>Requests and logouts\<close>

text \<open>
  A request has not begun; has read the cache; is about to validate, to ask the black list, to
  store the claims; or is decided. A logout is about to validate its token, to ask how long it
  is still valid, to black-list it for so long; or is over, with the claims of the token if it
  was black-listed.
\<close>

datatype guard_phase =
  Asking
| Found "access_claims cache_entry option"
| Validating
| Listing access_claims
| Storing access_claims
| Passed access_claims
| Refused
| Leaving
| Expiring access_claims
| Blocking access_claims duration
| Gone "access_claims option"

record guard_job =
  gj_token :: string
  gj_began :: time
  gj_ended :: time
  gj_phase :: guard_phase

text \<open>
  The clock, Redis and the cache; the jobs; and, for the proofs, when the black list was asked and
  did not have the digest, and when Redis did not answer.
\<close>

record 'r guard =
  g_now :: time
  g_redis :: 'r
  g_cache :: "access_claims token_cache"
  g_jobs :: "guard_job list"
  g_clean :: "(string \<times> time) list"
  g_silent :: "time list"

definition guard_start :: "duration \<Rightarrow> int \<Rightarrow> time \<Rightarrow> 'r \<Rightarrow> 'r guard" where
  "guard_start ttl maxSize now r =
     \<lparr>g_now = now, g_redis = r, g_cache = new_token_cache ttl maxSize, g_jobs = [], g_clean = [], g_silent = []\<rparr>"

definition set_job :: "nat \<Rightarrow> guard_phase \<Rightarrow> 'r guard \<Rightarrow> 'r guard" where
  "set_job n ph g = g\<lparr>g_jobs := (g_jobs g)[n := (g_jobs g ! n)\<lparr>gj_phase := ph\<rparr>]\<rparr>"

definition end_job :: "nat \<Rightarrow> guard_phase \<Rightarrow> 'r guard \<Rightarrow> 'r guard" where
  "end_job n ph g = g\<lparr>g_jobs := (g_jobs g)[n := (g_jobs g ! n)\<lparr>gj_phase := ph, gj_ended := g_now g\<rparr>]\<rparr>"

text \<open>
  The next step of job \<open>n\<close>; \<open>answers\<close> says whether Redis does, where it is asked. The request goes on
  without an answer, and the logout ends without an error.
\<close>

definition guard_act :: "'r ext \<Rightarrow> string option \<Rightarrow> bool \<Rightarrow> nat \<Rightarrow> 'r guard \<Rightarrow> 'r guard" where
  "guard_act X pk answers n g =
     (let j = g_jobs g ! n; h = hash_token X (gj_token j); now = g_now g in
      case gj_phase j of
        Asking \<Rightarrow> set_job n (Found (cache_read h (g_cache g))) g
      | Found e \<Rightarrow>
          (case cache_finish now h e (g_cache g) of
             (Some c, cache) \<Rightarrow> end_job n (Passed c) (g\<lparr>g_cache := cache\<rparr>)
           | (None, cache) \<Rightarrow> set_job n Validating (g\<lparr>g_cache := cache\<rparr>))
      | Validating \<Rightarrow>
          (case validate_at X pk now (gj_token j) of
             Inl _ \<Rightarrow> end_job n Refused g
           | Inr c \<Rightarrow> set_job n (Listing c) g)
      | Listing c \<Rightarrow>
          if \<not> answers then set_job n (Storing c) (g\<lparr>g_silent := now # g_silent g\<rparr>)
          else if rd_get (redis_ops X) now (blacklist_key h) (g_redis g) \<noteq> None then end_job n Refused g
          else set_job n (Storing c) (g\<lparr>g_clean := (h, now) # g_clean g\<rparr>)
      | Storing c \<Rightarrow>
          end_job n (Passed c) (g\<lparr>g_cache := cache_set (go_range X (cache_keys (g_cache g))) now h c (g_cache g)\<rparr>)
      | Leaving \<Rightarrow>
          (case validate_at X pk now (gj_token j) of
             Inl _ \<Rightarrow> end_job n (Gone None) g
           | Inr c \<Rightarrow> set_job n (Expiring c) g)
      | Expiring c \<Rightarrow>
          if 0 < ac_exp c - now then set_job n (Blocking c (ac_exp c - now)) g else end_job n (Gone None) g
      | Blocking c d \<Rightarrow>
          if answers
          then end_job n (Gone (Some c)) (g\<lparr>g_redis := rd_set (redis_ops X) now (blacklist_key h) (RStr ''revoked'') d (g_redis g)\<rparr>)
          else end_job n (Gone None) g
      | _ \<Rightarrow> g)"

text \<open>A request that has not been decided.\<close>

definition in_flight :: "guard_phase \<Rightarrow> bool" where
  "in_flight ph = (case ph of Asking \<Rightarrow> True | Found _ \<Rightarrow> True | Validating \<Rightarrow> True | Listing _ \<Rightarrow> True | Storing _ \<Rightarrow> True | _ \<Rightarrow> False)"

text \<open>
  Time passes as long as no request takes longer than \<open>lat\<close>. Other commands may change Redis, but
  not the keys of the black list; the clean-up of the cache may run at any time.
\<close>

inductive guard_step ::
  "'r ext \<Rightarrow> ('r \<Rightarrow> key_space) \<Rightarrow> string option \<Rightarrow> duration \<Rightarrow> 'r guard \<Rightarrow> 'r guard \<Rightarrow> bool" for X view pk lat where
  arrive: "ph \<in> {Asking, Leaving} \<Longrightarrow> guard_step X view pk lat g
    (g\<lparr>g_jobs := g_jobs g @ [\<lparr>gj_token = tok, gj_began = g_now g, gj_ended = g_now g, gj_phase = ph\<rparr>]\<rparr>)"
| act: "n < length (g_jobs g) \<Longrightarrow> guard_step X view pk lat g (guard_act X pk answers n g)"
| tick: "g_now g \<le> t \<Longrightarrow> \<forall>j \<in> set (g_jobs g). in_flight (gj_phase j) \<longrightarrow> t \<le> gj_began j + lat \<Longrightarrow>
    guard_step X view pk lat g (g\<lparr>g_now := t\<rparr>)"
| other: "\<forall>h t. live (view r) t (blacklist_key h) = live (view (g_redis g)) t (blacklist_key h) \<Longrightarrow>
    guard_step X view pk lat g (g\<lparr>g_redis := r\<rparr>)"
| sweep: "guard_step X view pk lat g (g\<lparr>g_cache := cache_sweep (g_now g) (g_cache g)\<rparr>)"

abbreviation guard_steps ::
  "'r ext \<Rightarrow> ('r \<Rightarrow> key_space) \<Rightarrow> string option \<Rightarrow> duration \<Rightarrow> 'r guard \<Rightarrow> 'r guard \<Rightarrow> bool" where
  "guard_steps X view pk lat \<equiv> (guard_step X view pk lat)\<^sup>*\<^sup>*"

section \<open>Every pass goes back to a look at the black list\<close>

text \<open>
  The black list was asked for the digest \<open>h\<close> at \<open>t0\<close> without a hit, or Redis did not answer then.
\<close>

definition asked :: "'r guard \<Rightarrow> string \<Rightarrow> time \<Rightarrow> bool" where
  "asked g h t0 \<longleftrightarrow> (h, t0) \<in> set (g_clean g) \<or> t0 \<in> set (g_silent g)"

definition entry_ok :: "duration \<Rightarrow> duration \<Rightarrow> 'r guard \<Rightarrow> string \<Rightarrow> access_claims cache_entry \<Rightarrow> bool" where
  "entry_ok lat ttl g h e \<longleftrightarrow>
     (\<exists>t0. asked g h t0 \<and> t0 \<le> g_now g \<and> ce_expires e \<le> t0 + lat + ttl)"

definition looked :: "'r guard \<Rightarrow> string \<Rightarrow> time \<Rightarrow> bool" where
  "looked g h began \<longleftrightarrow> (\<exists>t0. asked g h t0 \<and> began \<le> t0 \<and> t0 \<le> g_now g)"

definition covered :: "duration \<Rightarrow> duration \<Rightarrow> 'r guard \<Rightarrow> string \<Rightarrow> time \<Rightarrow> bool" where
  "covered lat ttl g h t \<longleftrightarrow> (\<exists>t0. asked g h t0 \<and> t0 \<le> t \<and> t \<le> t0 + lat + ttl)"

definition job_ok :: "duration \<Rightarrow> duration \<Rightarrow> 'r guard \<Rightarrow> (string \<Rightarrow> string) \<Rightarrow> guard_job \<Rightarrow> bool" where
  "job_ok lat ttl g hash j \<longleftrightarrow> gj_began j \<le> g_now g \<and> (in_flight (gj_phase j) \<longrightarrow> g_now g \<le> gj_began j + lat) \<and>
     (case gj_phase j of
        Found (Some e) \<Rightarrow> entry_ok lat ttl g (hash (gj_token j)) e
      | Storing c \<Rightarrow> looked g (hash (gj_token j)) (gj_began j)
      | Passed c \<Rightarrow> covered lat ttl g (hash (gj_token j)) (gj_ended j)
      | _ \<Rightarrow> True)"

definition guard_ok :: "'r ext \<Rightarrow> duration \<Rightarrow> duration \<Rightarrow> 'r guard \<Rightarrow> bool" where
  "guard_ok X lat ttl g \<longleftrightarrow> tc_ttl (g_cache g) = ttl \<and>
     (\<forall>(h, e) \<in> set (tc_entries (g_cache g)). entry_ok lat ttl g h e) \<and>
     (\<forall>j \<in> set (g_jobs g). job_ok lat ttl g (hash_token X) j)"

lemma entries_subset:
  "set (tc_entries (cache_delete k c)) \<subseteq> set (tc_entries c)"
  "set (tc_entries (cache_sweep t c)) \<subseteq> set (tc_entries c)"
  "set (tc_entries (cache_evict order c)) \<subseteq> set (tc_entries c)"
  "set (tc_entries (snd (cache_finish t k e c))) \<subseteq> set (tc_entries c)"
  by (auto simp: cache_defs AList.delete_eq split: option.splits if_splits)

lemma update_subset: "set (AList.update k v al) \<subseteq> insert (k, v) (set al)"
  by (induction al) auto

lemma entries_set:
  "set (tc_entries (cache_set order t k d c)) \<subseteq> insert (k, \<lparr>ce_data = d, ce_expires = t + tc_ttl c\<rparr>) (set (tc_entries c))"
  using update_subset entries_subset(3) [of order c] by (fastforce simp: cache_set_def Let_def)

text \<open>What a job says stays true while others go on.\<close>

definition goes_on :: "'r guard \<Rightarrow> 'r guard \<Rightarrow> bool" where
  "goes_on g g' \<longleftrightarrow> g_now g \<le> g_now g' \<and> (\<forall>h t0. asked g h t0 \<longrightarrow> asked g' h t0)"

lemma goes_on_mono:
  assumes "goes_on g g'"
  shows "entry_ok lat ttl g h e \<Longrightarrow> entry_ok lat ttl g' h e"
    and "looked g h b \<Longrightarrow> looked g' h b"
    and "covered lat ttl g h t \<Longrightarrow> covered lat ttl g' h t"
  using assms unfolding goes_on_def entry_ok_def looked_def covered_def
  by (meson order_trans)+

lemma job_ok_mono:
  assumes "job_ok lat ttl g hash j" and "goes_on g g'" and "in_flight (gj_phase j) \<longrightarrow> g_now g' \<le> gj_began j + lat"
  shows "job_ok lat ttl g' hash j"
proof -
  have "gj_began j \<le> g_now g'" using assms(1,2) by (auto simp: job_ok_def goes_on_def)
  then show ?thesis
    using assms(1,3) goes_on_mono [OF assms(2)] unfolding job_ok_def
    by (auto split: guard_phase.splits option.splits)
qed

text \<open>What a step changes: the entries of the cache, Redis, the looks at the black list, or one job.\<close>

lemma fields_ok [simp]:
  "job_ok lat ttl (g\<lparr>g_cache := c\<rparr>) = job_ok lat ttl g" "job_ok lat ttl (g\<lparr>g_redis := r\<rparr>) = job_ok lat ttl g"
  "job_ok lat ttl (g\<lparr>g_jobs := js\<rparr>) = job_ok lat ttl g"
  "entry_ok lat ttl (g\<lparr>g_cache := c\<rparr>) = entry_ok lat ttl g" "entry_ok lat ttl (g\<lparr>g_redis := r\<rparr>) = entry_ok lat ttl g"
  "entry_ok lat ttl (g\<lparr>g_jobs := js\<rparr>) = entry_ok lat ttl g"
  by (auto simp: fun_eq_iff job_ok_def entry_ok_def looked_def covered_def asked_def split: guard_phase.splits option.splits)

lemma redis_guard_ok: "guard_ok X lat ttl (g\<lparr>g_redis := r\<rparr>) = guard_ok X lat ttl g"
  by (simp add: guard_ok_def)

lemma cache_guard_ok:
  assumes "guard_ok X lat ttl g" and "tc_ttl c = tc_ttl (g_cache g)"
    and "\<And>h e. (h, e) \<in> set (tc_entries c) \<Longrightarrow> (h, e) \<in> set (tc_entries (g_cache g)) \<or> entry_ok lat ttl g h e"
  shows "guard_ok X lat ttl (g\<lparr>g_cache := c\<rparr>)"
  using assms by (fastforce simp: guard_ok_def)

lemma goes_on_guard_ok:
  assumes "guard_ok X lat ttl g" and "goes_on g g'" and "g_cache g' = g_cache g" and "g_jobs g' = g_jobs g"
    and "\<And>j. j \<in> set (g_jobs g) \<Longrightarrow> in_flight (gj_phase j) \<Longrightarrow> g_now g' \<le> gj_began j + lat"
  shows "guard_ok X lat ttl g'"
  using assms goes_on_mono(1) [OF assms(2)] job_ok_mono [OF _ assms(2)] by (fastforce simp: guard_ok_def)

lemma look_guard_ok:
  assumes "guard_ok X lat ttl g"
  shows "guard_ok X lat ttl (g\<lparr>g_clean := x # g_clean g\<rparr>)" and "guard_ok X lat ttl (g\<lparr>g_silent := t # g_silent g\<rparr>)"
proof -
  have "g_now g \<le> gj_began j + lat" if "j \<in> set (g_jobs g)" "in_flight (gj_phase j)" for j
    using assms that by (simp add: guard_ok_def job_ok_def)
  then show "guard_ok X lat ttl (g\<lparr>g_clean := x # g_clean g\<rparr>)" "guard_ok X lat ttl (g\<lparr>g_silent := t # g_silent g\<rparr>)"
    by (rule_tac [!] goes_on_guard_ok [OF assms]) (simp_all add: goes_on_def asked_def)
qed

lemma job_guard_ok:
  assumes "guard_ok X lat ttl g" and "job_ok lat ttl g (hash_token X) j"
  shows "guard_ok X lat ttl (g\<lparr>g_jobs := (g_jobs g)[n := j]\<rparr>)"
  using assms set_update_subset_insert [of "g_jobs g" n j] by (auto simp: guard_ok_def)

text \<open>Most phases claim nothing.\<close>

definition claims_nothing :: "guard_phase \<Rightarrow> bool" where
  "claims_nothing ph = (case ph of Found (Some _) \<Rightarrow> False | Storing _ \<Rightarrow> False | Passed _ \<Rightarrow> False | _ \<Rightarrow> True)"

lemma claims_nothing_simps [simp]:
  "claims_nothing Asking" "claims_nothing (Found None)" "claims_nothing Validating" "claims_nothing (Listing c)" "claims_nothing Refused" "claims_nothing Leaving"
  "claims_nothing (Expiring c)" "claims_nothing (Blocking c d)" "claims_nothing (Gone x)"
  by (simp_all add: claims_nothing_def)

lemma in_flight_simps [simp]:
  "in_flight Asking" "in_flight (Found e)" "in_flight Validating" "in_flight (Listing c)" "in_flight (Storing c)"
  "\<not> in_flight (Passed c)" "\<not> in_flight Refused" "\<not> in_flight Leaving" "\<not> in_flight (Expiring c)"
  "\<not> in_flight (Blocking c d)" "\<not> in_flight (Gone x)"
  by (simp_all add: in_flight_def)

lemma quiet_job:
  assumes "guard_ok X lat ttl g" and "job_ok lat ttl g (hash_token X) (g_jobs g ! n)" and "claims_nothing ph"
    and "in_flight ph \<longrightarrow> in_flight (gj_phase (g_jobs g ! n))"
  shows "guard_ok X lat ttl (set_job n ph g)" and "guard_ok X lat ttl (end_job n ph g)"
  using assms by (auto intro!: job_guard_ok [OF assms(1)] simp: set_job_def end_job_def job_ok_def claims_nothing_def
      split: guard_phase.splits option.splits)

lemma claiming_job:
  assumes "guard_ok X lat ttl g" and "job_ok lat ttl g (hash_token X) (g_jobs g ! n)"
  defines "h \<equiv> hash_token X (gj_token (g_jobs g ! n))"
  shows "in_flight (gj_phase (g_jobs g ! n)) \<Longrightarrow> (\<And>x. e = Some x \<Longrightarrow> entry_ok lat ttl g h x) \<Longrightarrow>
      guard_ok X lat ttl (set_job n (Found e) g)"
    and "in_flight (gj_phase (g_jobs g ! n)) \<Longrightarrow> looked g h (gj_began (g_jobs g ! n)) \<Longrightarrow>
      guard_ok X lat ttl (set_job n (Storing c) g)"
    and "covered lat ttl g h (g_now g) \<Longrightarrow> guard_ok X lat ttl (end_job n (Passed c) g)"
  using assms by (auto intro!: job_guard_ok [OF assms(1)] simp: set_job_def end_job_def job_ok_def split: option.splits)

lemma cache_finish_outcome:
  "cache_finish now h e c = (Some d, c') \<Longrightarrow> \<exists>x. e = Some x \<and> now \<le> ce_expires x \<and> c' = c"
  by (auto simp: cache_finish_def split: option.splits if_splits)

text \<open>Reading the cache, and storing what a look at the black list allows.\<close>

lemma finish_ok:
  assumes ok: "guard_ok X lat ttl g" and j: "job_ok lat ttl g (hash_token X) (g_jobs g ! n)"
    and ph: "gj_phase (g_jobs g ! n) = Found e"
  shows "guard_ok X lat ttl (guard_act X pk answers n g)"
proof -
  let ?h = "hash_token X (gj_token (g_jobs g ! n))"
  obtain r cache where f: "cache_finish (g_now g) ?h e (g_cache g) = (r, cache)" by fastforce
  have ok': "guard_ok X lat ttl (g\<lparr>g_cache := cache\<rparr>)"
    using entries_subset(4) [of "g_now g" ?h e "g_cache g"] cache_finish_config(1) [of "g_now g" ?h e "g_cache g"] f
    by (intro cache_guard_ok [OF ok]) auto
  show ?thesis
  proof (cases r)
    case None
    with f ph j show ?thesis by (simp add: guard_act_def Let_def quiet_job(1) [OF ok'])
  next
    case (Some c)
    with f obtain x where x: "e = Some x" "g_now g \<le> ce_expires x" "cache = g_cache g"
      using cache_finish_outcome [of "g_now g" ?h e "g_cache g" c cache] by auto
    with j ph have "entry_ok lat ttl g ?h x" by (simp add: job_ok_def)
    with x(2) have "covered lat ttl g ?h (g_now g)" unfolding entry_ok_def covered_def by (meson order_trans)
    from claiming_job(3) [OF ok j this] f ph Some x(3) show ?thesis by (simp add: guard_act_def Let_def)
  qed
qed

lemma store_ok:
  assumes ok: "guard_ok X lat ttl g" and j: "job_ok lat ttl g (hash_token X) (g_jobs g ! n)"
    and ph: "gj_phase (g_jobs g ! n) = Storing c" and ttl: "0 \<le> ttl"
  shows "guard_ok X lat ttl (guard_act X pk answers n g)"
proof -
  let ?j = "g_jobs g ! n" and ?now = "g_now g"
  let ?h = "hash_token X (gj_token ?j)"
  let ?c = "cache_set (go_range X (cache_keys (g_cache g))) ?now ?h c (g_cache g)"
  from j ph obtain t0 where t0: "asked g ?h t0" "gj_began ?j \<le> t0" "t0 \<le> ?now" "?now \<le> gj_began ?j + lat"
    by (auto simp: job_ok_def looked_def)
  have "tc_ttl (g_cache g) = ttl" using ok by (simp add: guard_ok_def)
  with t0 have "entry_ok lat ttl g ?h \<lparr>ce_data = c, ce_expires = ?now + tc_ttl (g_cache g)\<rparr>"
    unfolding entry_ok_def by (intro exI [of _ t0]) simp
  then have "guard_ok X lat ttl (g\<lparr>g_cache := ?c\<rparr>)"
    using entries_set [of "go_range X (cache_keys (g_cache g))" ?now ?h c "g_cache g"]
    by (intro cache_guard_ok [OF ok]) auto
  moreover have "covered lat ttl g ?h ?now" using t0 ttl unfolding covered_def by (intro exI [of _ t0]) simp
  then have "covered lat ttl (g\<lparr>g_cache := ?c\<rparr>) ?h ?now" by (simp add: covered_def asked_def)
  ultimately show ?thesis using claiming_job(3) [of X lat ttl "g\<lparr>g_cache := ?c\<rparr>" n c] j ph
    by (simp add: guard_act_def Let_def)
qed

lemma list_ok:
  assumes ok: "guard_ok X lat ttl g" and n: "n < length (g_jobs g)" and ph: "gj_phase (g_jobs g ! n) = Listing c"
  shows "guard_ok X lat ttl (guard_act X pk answers n g)"
proof -
  let ?j = "g_jobs g ! n" and ?now = "g_now g"
  let ?h = "hash_token X (gj_token ?j)"
  have j: "job_ok lat ttl g (hash_token X) ?j" using ok n by (simp add: guard_ok_def)
  have go: "guard_ok X lat ttl (set_job n (Storing c) g')"
    if "guard_ok X lat ttl g'" "g_jobs g' = g_jobs g" "g_now g' = ?now" "asked g' ?h ?now" for g'
  proof -
    have "job_ok lat ttl g' (hash_token X) (g_jobs g' ! n)" using that(1,2) n by (simp add: guard_ok_def)
    then show ?thesis using claiming_job(2) [OF that(1), of n c] that(2-4) ph j
      by (auto simp: looked_def job_ok_def)
  qed
  show ?thesis
    using quiet_job(2) [OF ok j, of Refused] go [OF look_guard_ok(1) [OF ok, of "(?h, ?now)"]] go [OF look_guard_ok(2) [OF ok, of ?now]] ph
    by (simp add: guard_act_def Let_def asked_def)
qed

lemma guard_act_ok:
  assumes ok: "guard_ok X lat ttl g" and n: "n < length (g_jobs g)" and ttl: "0 \<le> ttl"
  shows "guard_ok X lat ttl (guard_act X pk answers n g)"
proof -
  have j: "job_ok lat ttl g (hash_token X) (g_jobs g ! n)" using ok n by (simp add: guard_ok_def)
  note quiet = quiet_job [OF ok j]
  show ?thesis
  proof (cases "gj_phase (g_jobs g ! n)")
    case Asking
    have "entry_ok lat ttl g h e" if "cache_read h (g_cache g) = Some e" for h e
      using ok that by (auto simp: guard_ok_def cache_read_def dest!: map_of_SomeD)
    with Asking show ?thesis by (simp add: guard_act_def Let_def claiming_job(1) [OF ok j])
  next
    case (Found e)
    then show ?thesis by (rule finish_ok [OF ok j])
  next
    case Validating
    then show ?thesis by (simp add: guard_act_def Let_def quiet split: sum.split)
  next
    case (Listing c)
    then show ?thesis by (rule list_ok [OF ok n])
  next
    case (Storing c)
    then show ?thesis using ttl by (rule store_ok [OF ok j])
  next
    case Leaving
    then show ?thesis by (simp add: guard_act_def Let_def quiet split: sum.split)
  next
    case (Expiring c)
    then show ?thesis by (simp add: guard_act_def Let_def quiet)
  next
    case (Blocking c d)
    then show ?thesis using quiet_job(2) [of X lat ttl "g\<lparr>g_redis := r\<rparr>" n "Gone (Some c)" for r] j
      by (simp add: guard_act_def Let_def quiet redis_guard_ok ok)
  qed (simp_all add: guard_act_def ok)
qed

lemma guard_step_ok: "guard_step X view pk lat g g' \<Longrightarrow> 0 \<le> ttl \<Longrightarrow> 0 \<le> lat \<Longrightarrow> guard_ok X lat ttl g \<Longrightarrow> guard_ok X lat ttl g'"
proof (induction rule: guard_step.induct)
  case (arrive ph g tok)
  then show ?case by (auto simp: guard_ok_def job_ok_def)
next
  case (act n g answers)
  then show ?case by (simp add: guard_act_ok)
next
  case (tick g t)
  show ?case
  proof (rule goes_on_guard_ok [OF tick.prems(3)])
    show "goes_on g (g\<lparr>g_now := t\<rparr>)" using tick.hyps(1) by (simp add: goes_on_def asked_def)
  qed (use tick.hyps(2) in simp_all)
next
  case (other r g)
  then show ?case by (simp add: redis_guard_ok)
next
  case (sweep g)
  then show ?case using entries_subset(2) [of "g_now g" "g_cache g"] by (intro cache_guard_ok) auto
qed

section \<open>What a logout stands for\<close>

text \<open>
  The digest \<open>h\<close> is on the black list from now until a millisecond before \<open>x\<close>, the end of its
  token; the client rounds the time to live to milliseconds.
\<close>

definition blocked :: "('r \<Rightarrow> key_space) \<Rightarrow> string \<Rightarrow> time \<Rightarrow> 'r guard \<Rightarrow> bool" where
  "blocked view h x g \<longleftrightarrow> (\<forall>t. g_now g \<le> t \<and> t < x - 1000000 \<longrightarrow> live (view (g_redis g)) t (blacklist_key h) \<noteq> None)"

definition gone_ok :: "('r \<Rightarrow> key_space) \<Rightarrow> string \<Rightarrow> time \<Rightarrow> 'r guard \<Rightarrow> guard_phase \<Rightarrow> time \<Rightarrow> bool" where
  "gone_ok view h x g ph ended \<longleftrightarrow>
     (case ph of
        Expiring c \<Rightarrow> ac_exp c = x
      | Blocking c d \<Rightarrow> x \<le> g_now g + d
      | Gone (Some c) \<Rightarrow> blocked view h x g \<and> (\<forall>t0. (h, t0) \<in> set (g_clean g) \<and> t0 < x - 1000000 \<longrightarrow> t0 \<le> ended)
      | _ \<Rightarrow> True)"

definition positive :: "guard_phase \<Rightarrow> bool" where
  "positive ph = (case ph of Blocking c d \<Rightarrow> 0 < d | _ \<Rightarrow> True)"

definition gone_inv :: "'r ext \<Rightarrow> ('r \<Rightarrow> key_space) \<Rightarrow> string \<Rightarrow> time \<Rightarrow> 'r guard \<Rightarrow> bool" where
  "gone_inv X view h x g \<longleftrightarrow> (\<forall>(k, t0) \<in> set (g_clean g). t0 \<le> g_now g) \<and>
     (\<forall>j \<in> set (g_jobs g). positive (gj_phase j) \<and>
        (hash_token X (gj_token j) = h \<longrightarrow> gone_ok view h x g (gj_phase j) (gj_ended j)))"

text \<open>What the logouts rely on: once the digest is blocked it stays so, and no look misses it.\<close>

definition stays_blocked :: "('r \<Rightarrow> key_space) \<Rightarrow> string \<Rightarrow> time \<Rightarrow> 'r guard \<Rightarrow> 'r guard \<Rightarrow> bool" where
  "stays_blocked view h x g g' \<longleftrightarrow> g_now g \<le> g_now g' \<and>
     (blocked view h x g \<longrightarrow> blocked view h x g' \<and>
        (\<forall>t0. (h, t0) \<in> set (g_clean g') \<and> t0 < x - 1000000 \<longrightarrow> (h, t0) \<in> set (g_clean g)))"

lemma gone_ok_mono: "gone_ok view h x g ph e \<Longrightarrow> stays_blocked view h x g g' \<Longrightarrow> gone_ok view h x g' ph e"
  by (auto simp: gone_ok_def stays_blocked_def split: guard_phase.splits option.splits)

lemma stays_blocked_same:
  "g_now g \<le> g_now g' \<Longrightarrow> g_clean g' = g_clean g \<Longrightarrow>
   (\<And>t. live (view (g_redis g')) t (blacklist_key h) = live (view (g_redis g)) t (blacklist_key h)) \<Longrightarrow> stays_blocked view h x g g'"
  by (auto simp: stays_blocked_def blocked_def)

lemma gone_inv_jobs:
  assumes "gone_inv X view h x g" and "stays_blocked view h x g g'" and "\<forall>(k, t0) \<in> set (g_clean g'). t0 \<le> g_now g'"
    and "\<And>j. j \<in> set (g_jobs g') \<Longrightarrow> j \<in> set (g_jobs g) \<or>
      positive (gj_phase j) \<and> (hash_token X (gj_token j) = h \<longrightarrow> gone_ok view h x g' (gj_phase j) (gj_ended j))"
  shows "gone_inv X view h x g'"
  using assms gone_ok_mono [OF _ assms(2)] unfolding gone_inv_def by blast

lemma update_member: "j \<in> set (xs[n := y]) \<Longrightarrow> j \<in> set xs \<or> j = y"
  using set_update_subset_insert [of xs n y] by blast

lemma gone_inv_act:
  assumes "gone_inv X view h x g" and "stays_blocked view h x g g'" and "\<forall>(k, t0) \<in> set (g_clean g'). t0 \<le> g_now g'"
    and "g_jobs g' = (g_jobs g)[n := j]"
    and "positive (gj_phase j)" and "hash_token X (gj_token j) = h \<Longrightarrow> gone_ok view h x g' (gj_phase j) (gj_ended j)"
  shows "gone_inv X view h x g'"
  using assms(5,6) by (intro gone_inv_jobs [OF assms(1-3)]) (auto simp: assms(4) dest!: update_member)

lemma blacklist_key_inj [simp]: "blacklist_key h = blacklist_key k \<longleftrightarrow> h = k"
  by (simp add: blacklist_key_def)

context services
begin

text \<open>A look that finds nothing was not at a time at which the digest is blocked.\<close>

lemma clean_look:
  assumes "gone_inv X view h x g" and "rd_get (redis_ops X) (g_now g) (blacklist_key k) (g_redis g) = None"
    and "g' = set_job n (Storing c) (g\<lparr>g_clean := (k, g_now g) # g_clean g\<rparr>)"
  shows "gone_inv X view h x g'"
proof (rule gone_inv_act [OF assms(1)])
  have "live (view (g_redis g)) (g_now g) (blacklist_key k) = None" using assms(2) by (simp add: get_view)
  then show "stays_blocked view h x g g'" by (auto simp: assms(3) set_job_def stays_blocked_def blocked_def)
  show "\<forall>(k, t0) \<in> set (g_clean g'). t0 \<le> g_now g'" using assms(1) by (auto simp: assms(3) set_job_def gone_inv_def)
  show "g_jobs g' = (g_jobs g)[n := (g_jobs g ! n)\<lparr>gj_phase := Storing c\<rparr>]" by (simp add: assms(3) set_job_def)
qed (simp_all add: gone_ok_def positive_def)

text \<open>\<open>SET\<close> blocks the digest for as long as the token is valid.\<close>

lemma set_blocks:
  assumes inv: "gone_inv X view h x g" and j: "j = g_jobs g ! n" "n < length (g_jobs g)" "gj_phase j = Blocking c d"
    and g': "g' = end_job n (Gone (Some c))
      (g\<lparr>g_redis := rd_set (redis_ops X) (g_now g) (blacklist_key (hash_token X (gj_token j))) v d (g_redis g)\<rparr>)"
  shows "gone_inv X view h x g'"
proof (rule gone_inv_act [OF inv])
  let ?k = "hash_token X (gj_token j)"
  have "positive (gj_phase j)" using inv j(1,2) unfolding gone_inv_def by (metis nth_mem)
  then have d: "0 < d" by (simp add: j(3) positive_def)
  obtain e where e: "view (g_redis g') = (view (g_redis g))(blacklist_key ?k \<mapsto> (v, Some (g_now g + e)))" "d - 1000000 < e"
    using set_view [OF d, of "g_now g" "blacklist_key ?k" v "g_redis g"] by (auto simp: g' end_job_def)
  have b: "blocked view h x g'" if "?k = h"
  proof -
    have "gone_ok view h x g (Blocking c d) (gj_ended j)"
      using inv j that unfolding gone_inv_def by (metis nth_mem)
    then have "x \<le> g_now g + d" by (simp add: gone_ok_def)
    with e that show ?thesis by (auto simp: blocked_def g' end_job_def)
  qed
  have same: "blocked view h x g' = blocked view h x g" if "?k \<noteq> h"
    using e(1) that by (simp add: blocked_def g' end_job_def)
  show "stays_blocked view h x g g'" using b same by (cases "?k = h") (auto simp: stays_blocked_def g' end_job_def)
  show "\<forall>(k, t0) \<in> set (g_clean g'). t0 \<le> g_now g'" using inv by (auto simp: g' end_job_def gone_inv_def)
  show "g_jobs g' = (g_jobs g)[n := j\<lparr>gj_phase := Gone (Some c), gj_ended := g_now g\<rparr>]" by (simp add: g' end_job_def j(1))
  show "gone_ok view h x g' (gj_phase (j\<lparr>gj_phase := Gone (Some c), gj_ended := g_now g\<rparr>))
      (gj_ended (j\<lparr>gj_phase := Gone (Some c), gj_ended := g_now g\<rparr>))"
    if "hash_token X (gj_token (j\<lparr>gj_phase := Gone (Some c), gj_ended := g_now g\<rparr>)) = h"
    using b inv that by (auto simp: gone_ok_def g' end_job_def gone_inv_def)
qed (simp add: positive_def)

lemma guard_act_gone:
  assumes inv: "gone_inv X view h x g" and n: "n < length (g_jobs g)"
    and x: "\<And>tok t c. hash_token X tok = h \<Longrightarrow> validate_at X pk t tok = Inr c \<Longrightarrow> ac_exp c = x"
  shows "gone_inv X view h x (guard_act X pk answers n g)"
proof -
  let ?j = "g_jobs g ! n"
  let ?k = "hash_token X (gj_token ?j)"
  have j: "positive (gj_phase ?j)" "?k = h \<Longrightarrow> gone_ok view h x g (gj_phase ?j) (gj_ended ?j)"
    using inv n unfolding gone_inv_def by (metis nth_mem)+
  have past: "\<forall>(k, t0) \<in> set (g_clean g). t0 \<le> g_now g" using inv by (simp add: gone_inv_def)
  have step: "gone_inv X view h x (set_job n ph g1)" "gone_inv X view h x (end_job n ph g1)"
    if "g_now g1 = g_now g" "g_redis g1 = g_redis g" "g_clean g1 = g_clean g" "g_jobs g1 = g_jobs g"
      "positive ph" "?k = h \<Longrightarrow> (\<forall>g' e. g_now g' = g_now g \<longrightarrow> gone_ok view h x g' ph e)" for ph g1
    using that past by (auto intro!: gone_inv_act [OF inv] stays_blocked_same simp: set_job_def end_job_def)
  note act = guard_act_def Let_def positive_def gone_ok_def
  show ?thesis
  proof (cases "gj_phase ?j")
    case Asking
    then show ?thesis by (auto simp: act intro!: step)
  next
    case (Found e)
    then show ?thesis by (auto simp: act intro!: step split: prod.split option.split)
  next
    case Validating
    then show ?thesis by (auto simp: act intro!: step split: sum.split)
  next
    case (Listing c)
    then show ?thesis using clean_look [OF inv, of ?k] by (auto simp: act intro!: step)
  next
    case (Storing c)
    then show ?thesis by (auto simp: act intro!: step)
  next
    case Leaving
    then show ?thesis using x [of "gj_token ?j" "g_now g"] by (auto simp: act intro!: step split: sum.split)
  next
    case (Expiring c)
    then show ?thesis using j(2) by (auto simp: act intro!: step)
  next
    case (Blocking c d)
    then show ?thesis using set_blocks [OF inv refl n] by (auto simp: act intro!: step)
  qed (use inv in \<open>simp_all add: guard_act_def\<close>)
qed

lemma guard_step_gone:
  assumes x: "\<And>tok t c. hash_token X tok = h \<Longrightarrow> validate_at X pk t tok = Inr c \<Longrightarrow> ac_exp c = x"
  shows "guard_step X view pk lat g g' \<Longrightarrow> gone_inv X view h x g \<Longrightarrow> gone_inv X view h x g'"
proof (induction rule: guard_step.induct)
  case (arrive ph g tok)
  then show ?case
    by (intro gone_inv_jobs [OF arrive.prems stays_blocked_same]) (auto simp: gone_inv_def positive_def gone_ok_def)
next
  case (act n g answers)
  then show ?case using x by (intro guard_act_gone)
next
  case (tick g t)
  then show ?case
    by (intro gone_inv_jobs [OF tick.prems stays_blocked_same]) (auto simp: gone_inv_def)
next
  case (other r g)
  then show ?case
    by (intro gone_inv_jobs [OF other.prems stays_blocked_same]) (auto simp: gone_inv_def)
next
  case (sweep g)
  then show ?case
    by (intro gone_inv_jobs [OF sweep.prems stays_blocked_same]) (auto simp: gone_inv_def)
qed

end

text \<open>Commands on other keys leave the black list alone.\<close>

context services
begin

lemma other_commands:
  assumes "\<And>h. k \<noteq> blacklist_key h"
  shows "0 < d \<Longrightarrow> live (view (rd_set (redis_ops X) t k v d r)) t' (blacklist_key h) = live (view r) t' (blacklist_key h)"
    and "live (view (rd_del (redis_ops X) t k r)) t' (blacklist_key h) = live (view r) t' (blacklist_key h)"
    and "live (view (rd_expire (redis_ops X) t k d r)) t' (blacklist_key h) = live (view r) t' (blacklist_key h)"
    and "live (view r) t k = None \<or> (\<exists>n x. live (view r) t k = Some (RInt n, x) \<and> n < 2 ^ 63 - 1) \<Longrightarrow>
      live (view (snd (rd_incr (redis_ops X) t k r))) t' (blacklist_key h) = live (view r) t' (blacklist_key h)"
proof -
  have k: "blacklist_key h \<noteq> k" using assms [of h] by metis
  show "live (view (rd_set (redis_ops X) t k v d r)) t' (blacklist_key h) = live (view r) t' (blacklist_key h)" if "0 < d"
    using set_view [OF that, of t k v r] k by auto
  show "live (view (rd_del (redis_ops X) t k r)) t' (blacklist_key h) = live (view r) t' (blacklist_key h)"
    using k by (simp add: del_view)
  show "live (view (rd_expire (redis_ops X) t k d r)) t' (blacklist_key h) = live (view r) t' (blacklist_key h)"
    using expire_other [OF k] by (simp add: live_def)
  show "live (view (snd (rd_incr (redis_ops X) t k r))) t' (blacklist_key h) = live (view r) t' (blacklist_key h)"
    if "live (view r) t k = None \<or> (\<exists>n x. live (view r) t k = Some (RInt n, x) \<and> n < 2 ^ 63 - 1)"
    using that incr_new [of r t k] incr_old [of r t k] k by auto
qed

end

section \<open>A job alone does what the code's operations do\<close>

definition lone :: "time \<Rightarrow> 'r \<Rightarrow> string \<Rightarrow> access_claims token_cache \<Rightarrow> (string \<times> time) list \<Rightarrow> guard_phase \<Rightarrow> 'r guard" where
  "lone now r tok c cl ph = \<lparr>g_now = now, g_redis = r, g_cache = c,
     g_jobs = [\<lparr>gj_token = tok, gj_began = now, gj_ended = now, gj_phase = ph\<rparr>], g_clean = cl, g_silent = []\<rparr>"

lemma lone_fields [simp]:
  "gj_phase (g_jobs (lone now r tok c cl ph) ! 0) = ph" "g_cache (lone now r tok c cl ph) = c" "g_redis (lone now r tok c cl ph) = r"
  by (simp_all add: lone_def)

lemma lone_acts:
  defines "h \<equiv> \<lambda>X tok. hash_token X tok"
  shows "guard_act X pk True 0 (lone now r tok c cl Asking) = lone now r tok c cl (Found (cache_read (h X tok) c))"
    and "guard_act X pk True 0 (lone now r tok c cl (Found e)) =
      (case cache_finish now (h X tok) e c of (Some a, c') \<Rightarrow> lone now r tok c' cl (Passed a) | (None, c') \<Rightarrow> lone now r tok c' cl Validating)"
    and "guard_act X pk True 0 (lone now r tok c cl Validating) =
      (case validate_at X pk now tok of Inl _ \<Rightarrow> lone now r tok c cl Refused | Inr a \<Rightarrow> lone now r tok c cl (Listing a))"
    and "guard_act X pk True 0 (lone now r tok c cl (Listing a)) =
      (if rd_get (redis_ops X) now (blacklist_key (h X tok)) r \<noteq> None then lone now r tok c cl Refused
       else lone now r tok c ((h X tok, now) # cl) (Storing a))"
    and "guard_act X pk True 0 (lone now r tok c cl (Storing a)) =
      lone now r tok (cache_set (go_range X (cache_keys c)) now (h X tok) a c) cl (Passed a)"
    and "guard_act X pk True 0 (lone now r tok c cl Leaving) =
      (case validate_at X pk now tok of Inl _ \<Rightarrow> lone now r tok c cl (Gone None) | Inr a \<Rightarrow> lone now r tok c cl (Expiring a))"
    and "guard_act X pk True 0 (lone now r tok c cl (Expiring a)) =
      lone now r tok c cl (if 0 < ac_exp a - now then Blocking a (ac_exp a - now) else Gone None)"
    and "guard_act X pk True 0 (lone now r tok c cl (Blocking a d)) =
      lone now (rd_set (redis_ops X) now (blacklist_key (h X tok)) (RStr ''revoked'') d r) tok c cl (Gone (Some a))"
    and "guard_act X pk True 0 (lone now r tok c cl (Passed a)) = lone now r tok c cl (Passed a)"
    and "guard_act X pk True 0 (lone now r tok c cl Refused) = lone now r tok c cl Refused"
    and "guard_act X pk True 0 (lone now r tok c cl (Gone y)) = lone now r tok c cl (Gone y)"
  by (simp_all add: lone_def h_def guard_act_def set_job_def end_job_def Let_def split: sum.split prod.split option.split)

lemma lone_request:
  assumes "bearer rq tok" and "sched (world s) = []" and "w = world s"
    and "g = (guard_act X (public_key w) True 0 ^^ 5)
      (lone (clock w) (redis w) tok (tok_cache w) [] Asking)"
  shows "(\<exists>c. gj_phase (g_jobs g ! 0) = Passed c \<and> passes (auth_required X rq) s
      (s\<lparr>world := w\<lparr>tok_cache := g_cache g\<rparr>, ctx_user := Some (ac_uid c), ctx_email := Some (ac_email c)\<rparr>)) \<or>
    gj_phase (g_jobs g ! 0) = Refused \<and>
      (\<exists>m. stops (auth_required X rq) s (s\<lparr>world := w\<lparr>tok_cache := g_cache g\<rparr>, out_status := 401, out_body := Some m\<rparr>))"
proof -
  let ?h = "hash_token X tok"
  obtain r cache where f: "cache_finish (clock w) ?h (cache_read ?h (tok_cache w)) (tok_cache w) = (r, cache)" by fastforce
  have l: "run_state (cache_lookup ?h) (world s) = (r, w\<lparr>tok_cache := cache\<rparr>)"
    using f assms(3) by (simp add: cache_lookup_def cache_get_def)
  note run = auth_required_bearer [OF assms(1) l]
  note eval = assms(4) numeral_eq_Suc lone_acts f
  show ?thesis
  proof (cases r)
    case (Some c)
    with f have "gj_phase (g_jobs g ! 0) = Passed c" "g_cache g = cache" by (simp_all add: eval)
    with run Some show ?thesis by (auto simp: passes_def)
  next
    case None
    show ?thesis
    proof (cases "validate_at X (public_key w) (clock w) tok")
      case (Inl e)
      with None have "gj_phase (g_jobs g ! 0) = Refused" "g_cache g = cache" by (simp_all add: eval)
      with run None Inl show ?thesis by (auto simp: stops_def)
    next
      case (Inr c)
      show ?thesis
      proof (cases "rd_get (redis_ops X) (clock w) (blacklist_key ?h) (redis w)")
        case (Some v)
        with None Inr have "gj_phase (g_jobs g ! 0) = Refused" "g_cache g = cache" by (simp_all add: eval)
        with run None Inr Some assms(2,3) show ?thesis by (auto simp: stops_def redis_exists_def)
      next
        case notlisted: None
        with None Inr have "gj_phase (g_jobs g ! 0) = Passed c"
            "g_cache g = cache_set (go_range X (cache_keys cache)) (clock w) ?h c cache" by (simp_all add: eval)
        with run None Inr notlisted assms(2,3) show ?thesis by (auto simp: passes_def redis_exists_def cache_store_def)
      qed
    qed
  qed
qed

lemma lone_logout:
  assumes "sched w = []"
    and "g = (guard_act X (public_key w) True 0 ^^ 3)
      (lone (clock w) (redis w) tok (tok_cache w) [] Leaving)"
  shows "run_state (logout X tok []) w = (Inr (), w\<lparr>redis := g_redis g\<rparr>) \<and> (\<exists>x. gj_phase (g_jobs g ! 0) = Gone x)"
  using assms(1) unfolding assms(2)
  by (cases "validate_at X (public_key w) (clock w) tok")
    (auto simp: numeral_eq_Suc lone_acts logout_def validate_access_token_def redis_set_def)

section \<open>How long a revoked token can be used\<close>

lemma guard_start_ok: "guard_ok X lat ttl (guard_start ttl n t r)" "gone_inv X view h x (guard_start ttl n t r)"
  by (simp_all add: guard_start_def guard_ok_def gone_inv_def new_token_cache_def)

text \<open>
  C14: let a logout have ended with its token on the black list, and let a request with the same
  token pass later, while the token has not expired. However requests, logouts, the clean-up
  of the cache and other commands interleave, the request passes at most the time to live of
  the cache and the longest duration of a request after the logout, unless Redis was
  asked after the logout, at most as long before, and did not answer. Tokens with the same
  digest are taken to expire at the same time.
\<close>
theorem revocation_takes_effect:
  assumes "services X view" and "0 \<le> ttl" and "0 \<le> lat"
    and "guard_steps X view pk lat (guard_start ttl maxSize t r) g"
    and "m < length (g_jobs g)" and "gj_phase (g_jobs g ! m) = Gone (Some c)" and "t1 = gj_ended (g_jobs g ! m)"
    and "n < length (g_jobs g)" and "gj_phase (g_jobs g ! n) = Passed c'" and "t2 = gj_ended (g_jobs g ! n)"
    and "h = hash_token X (gj_token (g_jobs g ! m))" and "hash_token X (gj_token (g_jobs g ! n)) = h"
    and "\<And>tok t c'. hash_token X tok = h \<Longrightarrow> validate_at X pk t tok = Inr c' \<Longrightarrow> ac_exp c' = x"
    and "t2 < x - 1000000"
  shows "t2 \<le> t1 + lat + ttl \<or> (\<exists>t0 \<in> set (g_silent g). t1 < t0 \<and> t0 \<le> t2 \<and> t2 \<le> t0 + lat + ttl)"
proof -
  have ok: "guard_ok X lat ttl g" and inv: "gone_inv X view h x g"
    using assms(4)
  proof (induction rule: rtranclp_induct)
    case (step a b)
    show "guard_ok X lat ttl b" using guard_step_ok [OF step(2) assms(2,3) step.IH(1)] .
    show "gone_inv X view h x b" using services.guard_step_gone [OF assms(1,13) step(2) step.IH(2)] .
  qed (simp_all add: guard_start_ok)
  have "job_ok lat ttl g (hash_token X) (g_jobs g ! n)" using ok assms(8) by (simp add: guard_ok_def)
  then obtain t0 where t0: "asked g h t0" "t0 \<le> t2" "t2 \<le> t0 + lat + ttl"
    using assms(9,10,12) by (auto simp: job_ok_def covered_def)
  have "gone_ok view h x g (Gone (Some c)) t1"
    using inv assms(5-7,11) unfolding gone_inv_def by (metis nth_mem)
  then have "(h, t0) \<in> set (g_clean g) \<longrightarrow> t0 \<le> t1" using t0(2) assms(14) by (simp add: gone_ok_def)
  with t0 show ?thesis unfolding asked_def by (cases "t0 \<le> t1") auto
qed

text \<open>
  The bound is reached: a request that asked before the logout stores its token \<open>lat\<close> later, and
  another one finds it in the cache when it has just not expired.
\<close>

lemma then_act:
  "guard_steps X view pk lat a g \<Longrightarrow> n < length (g_jobs g) \<Longrightarrow> guard_act X pk True n g = g' \<Longrightarrow> guard_steps X view pk lat a g'"
  by (auto intro: rtranclp.rtrancl_into_rtrancl guard_step.act)

lemma then_arrive:
  "guard_steps X view pk lat a g \<Longrightarrow> ph \<in> {Asking, Leaving} \<Longrightarrow>
   g\<lparr>g_jobs := g_jobs g @ [\<lparr>gj_token = tok, gj_began = g_now g, gj_ended = g_now g, gj_phase = ph\<rparr>]\<rparr> = g' \<Longrightarrow>
   guard_steps X view pk lat a g'"
  by (auto intro: rtranclp.rtrancl_into_rtrancl guard_step.arrive)

lemma then_wait:
  "guard_steps X view pk lat a g \<Longrightarrow> g_now g \<le> t \<Longrightarrow> \<forall>j \<in> set (g_jobs g). in_flight (gj_phase j) \<longrightarrow> t \<le> gj_began j + lat \<Longrightarrow>
   g\<lparr>g_now := t\<rparr> = g' \<Longrightarrow> guard_steps X view pk lat a g'"
  by (auto intro: rtranclp.rtrancl_into_rtrancl guard_step.tick)

lemma late_pass:
  fixes r :: 'r
  assumes v: "validate_at X pk t tok = Inr c" and b: "rd_get (redis_ops X) t (blacklist_key (hash_token X tok)) r = None"
    and "t < ac_exp c" and "0 \<le> lat" and "0 \<le> ttl"
  shows "\<exists>g. guard_steps X view pk lat (guard_start ttl maxSize t r) g \<and> g_silent g = [] \<and>
    g_jobs g = [\<lparr>gj_token = tok, gj_began = t, gj_ended = t + lat, gj_phase = Passed c\<rparr>,
      \<lparr>gj_token = tok, gj_began = t, gj_ended = t, gj_phase = Gone (Some c)\<rparr>,
      \<lparr>gj_token = tok, gj_began = t + lat + ttl, gj_ended = t + lat + ttl, gj_phase = Passed c\<rparr>]"
proof -
  let ?h = "hash_token X tok" and ?c0 = "new_token_cache ttl maxSize :: access_claims token_cache"
  define job where "job = (\<lambda>began ended ph. \<lparr>gj_token = tok, gj_began = began, gj_ended = ended, gj_phase = ph\<rparr>)"
  define st where "st = (\<lambda>now (red :: 'r) cache js. \<lparr>g_now = now, g_redis = red, g_cache = cache, g_jobs = js,
      g_clean = if js = [] \<or> gj_phase (hd js) \<in> {Asking, Found None, Validating, Listing c} then [] else [(?h, t)], g_silent = []\<rparr>)"
  let ?r1 = "rd_set (redis_ops X) t (blacklist_key ?h) (RStr ''revoked'') (ac_exp c - t) r"
  let ?c1 = "cache_set (go_range X (cache_keys ?c0)) (t + lat) ?h c ?c0"
  have miss: "cache_read ?h ?c0 = None" "\<And>now. cache_finish now ?h None ?c0 = (None, ?c0)"
    by (simp_all add: new_token_cache_def cache_read_def cache_finish_def)
  have hit: "cache_read ?h ?c1 = Some \<lparr>ce_data = c, ce_expires = t + lat + ttl\<rparr>"
    "cache_finish (t + lat + ttl) ?h (Some \<lparr>ce_data = c, ce_expires = t + lat + ttl\<rparr>) ?c1 = (Some c, ?c1)"
    by (simp_all add: cache_read_set cache_finish_def) (simp add: new_token_cache_def)
  note eval = st_def job_def guard_act_def set_job_def end_job_def Let_def v b miss hit
  let ?steps = "guard_steps X view pk lat (guard_start ttl maxSize t r)"
  have "?steps (st t r ?c0 [])" by (simp add: guard_start_def st_def)
  then have "?steps (st t r ?c0 [job t t Asking])" by (rule then_arrive [where ph = Asking and tok = tok]) (simp_all add: eval)
  then have "?steps (st t r ?c0 [job t t (Found None)])" by (rule then_act [where n = 0]) (simp_all add: eval)
  then have "?steps (st t r ?c0 [job t t Validating])" by (rule then_act [where n = 0]) (simp_all add: eval)
  then have "?steps (st t r ?c0 [job t t (Listing c)])" by (rule then_act [where n = 0]) (simp_all add: eval)
  then have "?steps (st t r ?c0 [job t t (Storing c)])" by (rule then_act [where n = 0]) (simp_all add: eval)
  then have "?steps (st t r ?c0 [job t t (Storing c), job t t Leaving])"
    by (rule then_arrive [where ph = Leaving and tok = tok]) (simp_all add: eval)
  then have "?steps (st t r ?c0 [job t t (Storing c), job t t (Expiring c)])" by (rule then_act [where n = 1]) (simp_all add: eval)
  then have "?steps (st t r ?c0 [job t t (Storing c), job t t (Blocking c (ac_exp c - t))])"
    by (rule then_act [where n = 1]) (use assms(3) in \<open>simp_all add: eval\<close>)
  then have "?steps (st t ?r1 ?c0 [job t t (Storing c), job t t (Gone (Some c))])" by (rule then_act [where n = 1]) (simp_all add: eval)
  then have "?steps (st (t + lat) ?r1 ?c0 [job t t (Storing c), job t t (Gone (Some c))])"
    by (rule then_wait [where t = "t + lat"]) (use assms(4) in \<open>simp_all add: eval\<close>)
  then have "?steps (st (t + lat) ?r1 ?c1 [job t (t + lat) (Passed c), job t t (Gone (Some c))])"
    by (rule then_act [where n = 0]) (simp_all add: eval)
  then have "?steps (st (t + lat + ttl) ?r1 ?c1 [job t (t + lat) (Passed c), job t t (Gone (Some c))])"
    by (rule then_wait [where t = "t + lat + ttl"]) (use assms(5) in \<open>simp_all add: eval\<close>)
  then have "?steps (st (t + lat + ttl) ?r1 ?c1 [job t (t + lat) (Passed c), job t t (Gone (Some c)), job (t + lat + ttl) (t + lat + ttl) Asking])"
    by (rule then_arrive [where ph = Asking and tok = tok]) (simp_all add: eval)
  then have "?steps (st (t + lat + ttl) ?r1 ?c1 [job t (t + lat) (Passed c), job t t (Gone (Some c)),
      job (t + lat + ttl) (t + lat + ttl) (Found (Some \<lparr>ce_data = c, ce_expires = t + lat + ttl\<rparr>))])"
    by (rule then_act [where n = 2]) (simp_all add: eval)
  then have "?steps (st (t + lat + ttl) ?r1 ?c1 [job t (t + lat) (Passed c), job t t (Gone (Some c)), job (t + lat + ttl) (t + lat + ttl) (Passed c)])"
    by (rule then_act [where n = 2]) (simp_all add: eval)
  then show ?thesis by (intro exI conjI, assumption) (simp_all add: st_def job_def)
qed

text \<open>Of the tokens of the demonstration only one has the digest of its access token.\<close>

lemma demo_digest:
  "hash_token (demo_ext (demo_tokens 0 1)) tok = hash_token (demo_ext (demo_tokens 0 1)) ''A'' \<Longrightarrow>
   validate_at (demo_ext (demo_tokens 0 1)) (Some ''pub'') t tok = Inr c \<Longrightarrow> ac_exp c = 900 * nsSecond"
  by (auto simp: validate_at_def demo_ext_def demo_tokens_def access_keyfunc_def access_payload_for_def
      access_payload_def numeric_date_def nsSecond_def decode_access_def hash_token_def hex_digit_def split: if_splits)

theorem revocation_takes_effect_witness:
  "\<exists>g. guard_steps (demo_ext (demo_tokens 0 1)) map_of (Some ''pub'') (2 * nsSecond) (guard_start (5 * nsMinute) 100000 0 []) g \<and>
     gj_phase (g_jobs g ! 1) = Gone (Some demo_claims) \<and> gj_ended (g_jobs g ! 1) = 0 \<and>
     gj_phase (g_jobs g ! 2) = Passed demo_claims \<and> gj_ended (g_jobs g ! 2) = 302 * nsSecond \<and>
     gj_ended (g_jobs g ! 2) \<le> gj_ended (g_jobs g ! 1) + 2 * nsSecond + 5 * nsMinute"
proof -
  let ?X = "demo_ext (demo_tokens 0 1)"
  have v: "validate_at ?X (Some ''pub'') 0 ''A'' = Inr demo_claims" using demo_validate [of 0] by (simp add: nsSecond_def)
  obtain g where g: "guard_steps ?X map_of (Some ''pub'') (2 * nsSecond) (guard_start (5 * nsMinute) 100000 0 []) g" "g_silent g = []"
    "g_jobs g = [\<lparr>gj_token = ''A'', gj_began = 0, gj_ended = 0 + 2 * nsSecond, gj_phase = Passed demo_claims\<rparr>,
      \<lparr>gj_token = ''A'', gj_began = 0, gj_ended = 0, gj_phase = Gone (Some demo_claims)\<rparr>,
      \<lparr>gj_token = ''A'', gj_began = 0 + 2 * nsSecond + 5 * nsMinute, gj_ended = 0 + 2 * nsSecond + 5 * nsMinute, gj_phase = Passed demo_claims\<rparr>]"
    using late_pass [OF v, of "[]" "2 * nsSecond" "5 * nsMinute" map_of 100000]
    by (auto simp: mem_redis_def mem_live_def live_def demo_claims_def duration_defs)
  have "gj_ended (g_jobs g ! 2) \<le> 0 + 2 * nsSecond + 5 * nsMinute \<or> (\<exists>t0 \<in> set (g_silent g). 0 < t0 \<and> t0 \<le> gj_ended (g_jobs g ! 2) \<and>
      gj_ended (g_jobs g ! 2) \<le> t0 + 2 * nsSecond + 5 * nsMinute)"
    by (rule revocation_takes_effect [OF demo.services_axioms _ _ g(1), where m = 1 and n = 2 and x = "900 * nsSecond" and h = "hash_token ?X ''A''"])
      (use demo_digest in \<open>simp_all add: g(3) duration_defs\<close>)
  with g show ?thesis by (intro exI [of _ g]) (simp add: duration_defs)
qed

end
