(* ===== verification/Storage.thy ===== *)
theory Storage
  imports Config Disk
begin

text \<open>
  The storage of files, \<open>internal/shared/storage\<close>: the interface, the store on the local
  disk, the store that is meant to speak to S3 and the choice between them.
\<close>

section \<open>The interface\<close>

record file_info =
  URL :: string
  Bucket :: string
  Key :: string
  Size :: int
  ContentType :: string

text \<open>An \<open>io.Reader\<close>: the bytes that it delivers and the error after them, if not \<open>io.EOF\<close>.\<close>

record reader =
  delivers :: "byte list"
  then_fails :: "go_error option"

text \<open>The body of a file that \<open>os.Open\<close> opened; reading a directory fails.\<close>

definition reader_of :: "node \<Rightarrow> reader" where
  "reader_of n = (case n of File c \<Rightarrow> \<lparr>delivers = c, then_fails = None\<rparr> | Dir \<Rightarrow> \<lparr>delivers = [], then_fails = Some EISDIR\<rparr>)"

section \<open>Local files\<close>

text \<open>
  The process has a working directory: \<open>filepath.Abs\<close> fails only where \<open>Getwd\<close> does, as after
  the directory was removed. (The code discards that error and would go on with an empty base path.)
\<close>

definition new_local_storage :: "string \<Rightarrow> (disk, string) state" where
  "new_local_storage basePath = do {
     wd \<leftarrow> read_state cwd;
     let abs = filepath_abs wd basePath;
     _ \<leftarrow> os_mkdir_all abs;
     ret abs }"

text \<open>\<open>io.Copy\<close>: what the reader delivers, if anything, is written before its error shows.\<close>

definition io_copy :: "string \<Rightarrow> reader \<Rightarrow> (disk, go_error + nat) state" where
  "io_copy dst rd =
     on_error (if delivers rd = [] then ret (Inr 0) else os_write dst (delivers rd)) (\<lambda>e. ret (Inl e))
       (\<lambda>n. ret (case then_fails rd of None \<Rightarrow> Inr n | Some e \<Rightarrow> Inl e))"

definition local_upload ::
  "string \<Rightarrow> string \<Rightarrow> reader \<Rightarrow> string \<Rightarrow> (disk, go_error + file_info) state" where
  "local_upload basePath key rd contentType =
     (let fullPath = filepath_join basePath key; dir = filepath_dir fullPath in
      on_error (os_mkdir_all dir) (\<lambda>e. ret (Inl (Wrap ''creating directory: '' e))) (\<lambda>_.
      on_error (os_create fullPath) (\<lambda>e. ret (Inl (Wrap ''creating file: '' e))) (\<lambda>_.
      on_error (io_copy fullPath rd) (\<lambda>e. ret (Inl (Wrap ''writing file: '' e))) (\<lambda>size.
      ret (Inr \<lparr>URL = fullPath, Bucket = [], Key = key, Size = int size, ContentType = contentType\<rparr>)))))"

definition local_download :: "string \<Rightarrow> string \<Rightarrow> (disk, go_error + reader) state" where
  "local_download basePath key =
     on_error (os_stat (filepath_join basePath key)) (\<lambda>e. ret (Inl e)) (\<lambda>n. ret (Inr (reader_of n)))"

definition local_delete :: "string \<Rightarrow> string \<Rightarrow> (disk, go_error + unit) state" where
  "local_delete basePath key = os_remove (filepath_join basePath key)"

text \<open>The result and the error are returned together: an error comes with \<open>false\<close>.\<close>

definition local_exists :: "string \<Rightarrow> string \<Rightarrow> (disk, bool \<times> go_error option) state" where
  "local_exists basePath key = do {
     r \<leftarrow> os_stat (filepath_join basePath key);
     ret (case r of
       Inl e \<Rightarrow> if e = ENOENT then (False, None) else (False, Some e)
     | Inr _ \<Rightarrow> (True, None)) }"

definition local_url :: "string \<Rightarrow> string \<Rightarrow> go_error + string" where
  "local_url basePath key = Inr (filepath_join basePath key)"

section \<open>S3\<close>

record s3 =
  endpoint :: string
  region :: string
  bucket :: string
  accessKey :: string
  secretKey :: string
  useSSL :: bool

definition new_s3 :: "config \<Rightarrow> s3" where
  "new_s3 cfg = \<lparr>endpoint = StorageS3Endpoint cfg, region = StorageS3Region cfg, bucket = StorageS3Bucket cfg,
     accessKey = StorageS3AccessKey cfg, secretKey = StorageS3SecretKey cfg, useSSL = StorageS3UseSSL cfg\<rparr>"

definition s3_get_url :: "s3 \<Rightarrow> string \<Rightarrow> string" where
  "s3_get_url s key =
     (let scheme = (if useSSL s then ''https'' else ''http'') in
      if endpoint s \<noteq> [] then scheme @ ''://'' @ endpoint s @ ''/'' @ bucket s @ ''/'' @ key
      else scheme @ ''://'' @ bucket s @ ''.s3.'' @ region s @ ''.amazonaws.com/'' @ key)"

text \<open>No operation has a state to work on: the calls of the S3 client are comments.\<close>

definition s3_upload :: "s3 \<Rightarrow> string \<Rightarrow> reader \<Rightarrow> string \<Rightarrow> go_error + file_info" where
  "s3_upload s key rd contentType =
     (case then_fails rd of
        Some e \<Rightarrow> Inl (Wrap ''reading data: '' e)
      | None \<Rightarrow> Inr \<lparr>URL = s3_get_url s key, Bucket = bucket s, Key = key, Size = int (length (delivers rd)),
          ContentType = contentType\<rparr>)"

definition s3_download :: "s3 \<Rightarrow> string \<Rightarrow> go_error + reader" where
  "s3_download s key = Inl (Msg ''S3 download not implemented'')"

definition s3_delete :: "s3 \<Rightarrow> string \<Rightarrow> go_error + unit" where
  "s3_delete s key = Inr ()"

definition s3_exists :: "s3 \<Rightarrow> string \<Rightarrow> bool \<times> go_error option" where
  "s3_exists s key = (True, None)"

text \<open>\<open>url.Parse\<close> and \<open>String\<close> are the library's: a parameter that parses and prints.\<close>

definition s3_url :: "(string \<Rightarrow> go_error + string) \<Rightarrow> s3 \<Rightarrow> string \<Rightarrow> go_error + string" where
  "s3_url normalise s key = normalise (s3_get_url s key)"

section \<open>The factory\<close>

datatype backend = Local string | S3 s3

definition new_from_config :: "config \<Rightarrow> (disk, go_error + backend) state" where
  "new_from_config cfg =
     (if StorageDriver cfg = ''local'' then do { b \<leftarrow> new_local_storage (StorageLocalPath cfg); ret (Inr (Local b)) }
      else if StorageDriver cfg = ''s3'' \<or> StorageDriver cfg = ''r2'' then ret (Inr (S3 (new_s3 cfg)))
      else ret (Inl (Msg (''unsupported storage driver: '' @ StorageDriver cfg))))"

text \<open>The operations of the interface, on whichever backend the factory chose.\<close>

definition upload :: "backend \<Rightarrow> string \<Rightarrow> reader \<Rightarrow> string \<Rightarrow> (disk, go_error + file_info) state" where
  "upload b key rd contentType = (case b of Local p \<Rightarrow> local_upload p key rd contentType | S3 s \<Rightarrow> ret (s3_upload s key rd contentType))"

definition download :: "backend \<Rightarrow> string \<Rightarrow> (disk, go_error + reader) state" where
  "download b key = (case b of Local p \<Rightarrow> local_download p key | S3 s \<Rightarrow> ret (s3_download s key))"

definition delete_file :: "backend \<Rightarrow> string \<Rightarrow> (disk, go_error + unit) state" where
  "delete_file b key = (case b of Local p \<Rightarrow> local_delete p key | S3 s \<Rightarrow> ret (s3_delete s key))"

definition exists_file :: "backend \<Rightarrow> string \<Rightarrow> (disk, bool \<times> go_error option) state" where
  "exists_file b key = (case b of Local p \<Rightarrow> local_exists p key | S3 s \<Rightarrow> ret (s3_exists s key))"

section \<open>Where a key leads\<close>

definition key_path :: "string list \<Rightarrow> string \<Rightarrow> string list" where
  "key_path base key = clean_from True (rev base) (split_at CHR ''/'' key)"

lemma key_path_plain: "\<forall>c \<in> set base. plain c \<Longrightarrow> \<forall>c \<in> set (key_path base key). plain c"
  unfolding key_path_def by (intro ballI, rule clean_parts [of "rev base"]) (auto dest: split_slash_free)

lemma full_path:
  assumes "\<forall>c \<in> set base. plain c"
  shows "filepath_join (slashed base) key = slashed (key_path base key)"
    "filepath_dir (filepath_join (slashed base) key) = slashed (butlast (key_path base key))"
    "locate wd (filepath_join (slashed base) key) = key_path base key"
    "locate wd (slashed (butlast (key_path base key))) = butlast (key_path base key)"
    "locate wd (slashed (key_path base key)) = key_path base key"
    "filepath_dir (slashed (key_path base key)) = slashed (butlast (key_path base key))"
  using key_path_plain [OF assms, of key]
  by (auto simp: join_slashed [OF assms] key_path_def [symmetric] dir_slashed locate_slashed dest: in_set_butlastD
      intro!: locate_slashed)

lemma new_local_base:
  assumes "run_state (new_local_storage basePath) d = (b, d')" and "\<forall>c \<in> set (cwd d). plain c"
  shows "\<exists>base. b = slashed base \<and> (\<forall>c \<in> set base. plain c)"
proof (cases "is_rooted basePath")
  case True
  let ?cs = "clean_from True [] (split_at CHR ''/'' basePath)"
  have "b = slashed ?cs" using assms(1) True
    by (auto simp: new_local_storage_def filepath_abs_def filepath_clean_def Let_def split: prod.splits)
  moreover have "\<forall>c \<in> set ?cs. plain c" by (intro ballI, rule clean_parts [of "[]"]) (auto dest: split_slash_free)
  ultimately show ?thesis by blast
next
  case False
  then have "b = slashed (key_path (cwd d) basePath)" using assms
    by (auto simp: new_local_storage_def filepath_abs_def full_path Let_def split: prod.splits)
  with key_path_plain [OF assms(2)] show ?thesis by blast
qed

section \<open>What an upload leaves behind\<close>

lemma os_mkdir_all_ok:
  assumes "run_state (os_mkdir_all s) d = (Inr u, d')" and "locate (cwd d) s = p"
  shows "fst (make_dirs (nodes d) [] p) = Inr () \<and> nodes d' = snd (make_dirs (nodes d) [] p) \<and> cwd d' = cwd d"
  using assms by (auto simp: os_mkdir_all_def dest!: os_call_ok)

lemma os_create_ok:
  assumes "run_state (os_create s) d = (Inr u, d')" and "locate (cwd d) s = p"
  shows "fst (create_file (nodes d) p) = Inr () \<and> nodes d' = snd (create_file (nodes d) p) \<and> cwd d' = cwd d"
  using assms by (auto simp: os_create_def dest!: os_call_ok)

lemma io_copy_ok:
  assumes "run_state (io_copy s rd) d = (Inr n, d')" and "locate (cwd d) s = p" and "p \<noteq> []"
    and "node_at (nodes d) p = Some (File [])"
  shows "then_fails rd = None \<and> n = length (delivers rd) \<and> cwd d' = cwd d \<and>
    (\<forall>q. node_at (nodes d') q = (if q = p then Some (File (delivers rd)) else node_at (nodes d) q))"
proof (cases "delivers rd = []")
  case True
  with assms show ?thesis by (auto simp: io_copy_def split: option.splits)
next
  case False
  with assms(1) obtain x d1 where w: "run_state (os_write s (delivers rd)) d = (Inr x, d1)"
      and d': "d' = d1" "then_fails rd = None" "n = x"
    by (auto simp: io_copy_def split: prod.splits sum.splits option.splits)
  from w assms(2) have "nodes d1 = append_bytes p (delivers rd) (nodes d)" "x = length (delivers rd)" "cwd d1 = cwd d"
    by (auto simp: os_write_def dest!: os_call_ok)
  with d' assms(3,4) show ?thesis by (auto simp: append_bytes_def node_at_put file_bytes_def)
qed

lemma local_upload_ok:
  assumes base: "\<forall>c \<in> set base. plain c"
    and run: "run_state (local_upload (slashed base) key rd ct) d = (Inr info, d')"
  defines "p \<equiv> key_path base key"
  shows "p \<noteq> [] \<and> node_at (nodes d) p \<noteq> Some Dir \<and> then_fails rd = None \<and> cwd d' = cwd d \<and>
    info = \<lparr>URL = slashed p, Bucket = [], Key = key, Size = int (length (delivers rd)), ContentType = ct\<rparr> \<and>
    node_at (nodes d') p = Some (File (delivers rd)) \<and> (\<forall>q. strict_prefix q p \<longrightarrow> node_at (nodes d') q = Some Dir) \<and>
    (\<forall>q n. q \<noteq> p \<longrightarrow> node_at (nodes d) q = Some n \<longrightarrow> node_at (nodes d') q = Some n) \<and>
    (\<forall>q. node_at (nodes d) q = None \<longrightarrow> node_at (nodes d') q \<noteq> None \<longrightarrow> prefix q p)"
proof -
  let ?full = "filepath_join (slashed base) key"
  note paths = full_path [OF base, where key = key, folded p_def]
  from run obtain u d1 v d2 n where
      mk: "run_state (os_mkdir_all (filepath_dir ?full)) d = (Inr u, d1)"
    and cr: "run_state (os_create ?full) d1 = (Inr v, d2)"
    and cp: "run_state (io_copy ?full rd) d2 = (Inr n, d')"
    and info: "info = \<lparr>URL = ?full, Bucket = [], Key = key, Size = int n, ContentType = ct\<rparr>"
    by (auto simp: local_upload_def Let_def split: prod.splits sum.splits)
  have 1: "fst (make_dirs (nodes d) [] (butlast p)) = Inr ()" "nodes d1 = snd (make_dirs (nodes d) [] (butlast p))"
      "cwd d1 = cwd d"
    using os_mkdir_all_ok [OF mk] paths by auto
  have 2: "fst (create_file (nodes d1) p) = Inr ()" "nodes d2 = snd (create_file (nodes d1) p)" "cwd d2 = cwd d"
    using os_create_ok [OF cr] paths 1(3) by auto
  note c = create_file_ok [OF 2(1)]
  have n2: "node_at (nodes d2) q = (if q = p then Some (File []) else node_at (nodes d1) q)" for q
    using c by (simp add: 2(2) node_at_put)
  have 3: "then_fails rd = None" "n = length (delivers rd)" "cwd d' = cwd d"
      "node_at (nodes d') q = (if q = p then Some (File (delivers rd)) else node_at (nodes d1) q)" for q
    using io_copy_ok [OF cp, of p] paths 2(3) c n2 by auto
  have "prefix q p" if "node_at (nodes d) q = None" "node_at (nodes d') q \<noteq> None" for q
  proof (cases "q = p")
    case False
    with that 3(4) have "prefix q (butlast p)"
      using make_dirs_adds [OF that(1), of "[]" "butlast p"] by (auto simp: 1(2))
    then show ?thesis using prefixeq_butlast prefix_order.trans by blast
  qed simp
  moreover have kept: "node_at (nodes d1) q = Some n" if "node_at (nodes d) q = Some n" for q n
    unfolding 1(2) using that by (rule make_dirs_keeps)
  moreover have "node_at (nodes d') q = Some Dir" if "strict_prefix q p" for q
    using that c 3(4) [of q] by auto
  moreover from kept [of p Dir] c have "node_at (nodes d) p \<noteq> Some Dir" by auto
  ultimately show ?thesis using c 3 info paths by auto
qed

text \<open>Reading back.\<close>

lemma local_stat_empty:
  assumes "\<forall>c \<in> set base. plain c" and "faults d = []"
  shows "run_state (os_stat (filepath_join (slashed base) key)) d = (walk (nodes d) [] (key_path base key), d)"
  using assms(2) by (simp add: os_stat_def full_path [OF assms(1)])

lemma local_download_empty:
  assumes "\<forall>c \<in> set base. plain c" and "faults d = []"
  shows "run_state (local_download (slashed base) key) d =
    (map_sum (\<lambda>e. e) reader_of (walk (nodes d) [] (key_path base key)), d)"
  by (simp add: local_download_def local_stat_empty [OF assms] split: sum.splits)

text \<open>
  C25: what was uploaded can be downloaded. After an upload to the local store that reported
  success, whatever the disk did before, the file exists under its key and its body is
  exactly the uploaded one; the reported size is its length; and every other file that
  could be downloaded before still can, with the same body.
\<close>
theorem upload_then_download:
  assumes "run_state (new_local_storage basePath) d0 = (b, d1)" and "\<forall>c \<in> set (cwd d0). plain c"
    and "run_state (local_upload b key rd ct) d = (Inr info, d')" and "faults d' = []"
  shows "run_state (local_download b key) d' = (Inr \<lparr>delivers = delivers rd, then_fails = None\<rparr>, d') \<and>
    run_state (local_exists b key) d' = ((True, None), d') \<and> Size info = int (length (delivers rd)) \<and>
    (\<forall>other r. filepath_join b other \<noteq> filepath_join b key \<longrightarrow>
       fst (run_state (local_download b other) (d\<lparr>faults := []\<rparr>)) = Inr r \<longrightarrow>
       run_state (local_download b other) d' = (Inr r, d'))"
proof -
  obtain base where b: "b = slashed base" and base: "\<forall>c \<in> set base. plain c"
    using new_local_base [OF assms(1,2)] by blast
  note up = local_upload_ok [OF base assms(3) [unfolded b]]
  have w: "walk (nodes d') [] (key_path base key) = Inr (File (delivers rd))" using up by (simp add: walk_root)
  have others: "run_state (local_download b other) d' = (Inr r, d')"
    if "filepath_join b other \<noteq> filepath_join b key"
      "fst (run_state (local_download b other) (d\<lparr>faults := []\<rparr>)) = Inr r" for other r
  proof -
    let ?q = "key_path base other"
    have ne: "?q \<noteq> key_path base key" using that(1) full_path(1) [OF base] by (auto simp: b)
    from that(2) obtain n where n: "walk (nodes d) [] ?q = Inr n" "r = reader_of n"
      by (cases "walk (nodes d) [] ?q") (auto simp: b local_download_empty [OF base])
    then have "node_at (nodes d') ?q = Some n" using up ne by (auto simp: walk_root)
    moreover have "node_at (nodes d') p = Some Dir" if "strict_prefix p ?q" for p
    proof (cases "p = key_path base key")
      case False
      with that n up show ?thesis by (auto simp: walk_root)
    next
      case True
      with that n up have "node_at (nodes d) (key_path base key) = Some Dir" by (auto simp: walk_root)
      with up show ?thesis by simp
    qed
    ultimately have "walk (nodes d') [] ?q = Inr n" by (simp add: walk_root)
    with n(2) show ?thesis by (simp add: b local_download_empty [OF base assms(4)])
  qed
  show ?thesis
    using w up others assms(4)
    by (simp add: b local_download_empty [OF base assms(4)] local_exists_def local_stat_empty [OF base assms(4)] reader_of_def)
qed

section \<open>Where a key may lead\<close>

lemma key_without_up:
  assumes "''..'' \<notin> set (split_at CHR ''/'' key)"
  shows "prefix base (key_path base key)"
  using clean_without_up [OF assms, of True "rev base"] by (simp add: key_path_def)

lemma key_to_anywhere:
  assumes "\<forall>c \<in> set base. plain c" and "\<forall>c \<in> set t. plain c" and "t \<noteq> []"
  shows "key_path base (join_with CHR ''/'' (replicate (length base) ''..'' @ t)) = t"
proof -
  let ?cs = "replicate (length base) ''..'' @ t"
  have "CHR ''/'' \<notin> set c" if "c \<in> set ?cs" for c
  proof (cases "c \<in> set t")
    case True
    with assms(2) show ?thesis by (simp add: plain_def)
  next
    case False
    with that have "c = ''..''" by simp
    then show ?thesis by simp
  qed
  then have "\<forall>c \<in> set ?cs. CHR ''/'' \<notin> set c" by blast
  moreover have "?cs \<noteq> []" using assms(3) by simp
  ultimately have "split_at CHR ''/'' (join_with CHR ''/'' ?cs) = ?cs" by (rule split_join [rotated])
  moreover have "clean_from True (rev base) ?cs = t"
    using clean_up [of "rev base" t] clean_plain_id [OF assms(2), of True "[]"] assms(1)
    by (simp only: length_rev set_rev rev.simps append_Nil)
  ultimately show ?thesis by (simp only: key_path_def)
qed

text \<open>
  C27: the base path confines only keys without a part \<open>..\<close>: these lead below it. With such
  parts there is, for every file of the machine, a key under which the local store hands out
  its content, and under which it deletes it.
\<close>
theorem base_path_confines_plain_keys_only:
  assumes "run_state (new_local_storage basePath) d0 = (b, d1)" and "\<forall>c \<in> set (cwd d0). plain c"
    and "walk (nodes d) [] t = Inr (File c)" and "\<forall>p \<in> set t. plain p" and "faults d = []"
  shows "(\<forall>key. ''..'' \<notin> set (split_at CHR ''/'' key) \<longrightarrow> prefix (locate [] b) (locate [] (filepath_join b key))) \<and>
    (\<exists>key. run_state (local_download b key) d = (Inr \<lparr>delivers = c, then_fails = None\<rparr>, d) \<and>
       run_state (local_delete b key) d = (Inr (), d\<lparr>nodes := drop_node t (nodes d)\<rparr>))"
proof -
  obtain base where b: "b = slashed base" and base: "\<forall>c \<in> set base. plain c"
    using new_local_base [OF assms(1,2)] by blast
  from assms(3) have "t \<noteq> []" by auto
  from key_to_anywhere [OF base assms(4) this] obtain key where key: "key_path base key = t" by blast
  have "run_state (local_download b key) d = (Inr \<lparr>delivers = c, then_fails = None\<rparr>, d)"
    using assms(3) by (simp add: b local_download_empty [OF base assms(5)] key reader_of_def)
  moreover have "run_state (local_delete b key) d = (Inr (), d\<lparr>nodes := drop_node t (nodes d)\<rparr>)"
    using assms(3,5) \<open>t \<noteq> []\<close> by (simp add: b local_delete_def os_remove_def full_path [OF base] key remove_node_def
        locate_slashed [OF assms(4)])
  moreover have "prefix (locate [] b) (locate [] (filepath_join b k))" if "''..'' \<notin> set (split_at CHR ''/'' k)" for k
    using key_without_up [OF that, of base] by (simp add: b full_path [OF base] locate_slashed [OF base])
  ultimately show ?thesis by blast
qed

section \<open>The S3 store keeps nothing\<close>

text \<open>
  Whatever was uploaded, and although the upload reports success, nothing can be downloaded;
  every key exists, before an upload and after a deletion.
\<close>

lemma s3_keeps_nothing:
  assumes "StorageDriver cfg = ''s3'' \<or> StorageDriver cfg = ''r2''"
  shows "\<exists>s. run_state (new_from_config cfg) d = (Inr (S3 s), d) \<and>
    (\<forall>key rd ct. then_fails rd = None \<longrightarrow> (\<exists>info. run_state (upload (S3 s) key rd ct) d = (Inr info, d) \<and>
       Size info = int (length (delivers rd)))) \<and>
    (\<forall>key. run_state (download (S3 s) key) d = (Inl (Msg ''S3 download not implemented''), d) \<and>
       run_state (exists_file (S3 s) key) d = ((True, None), d) \<and> run_state (delete_file (S3 s) key) d = (Inr (), d))"
  using assms
  by (auto simp: new_from_config_def upload_def s3_upload_def download_def s3_download_def exists_file_def s3_exists_def
      delete_file_def s3_delete_def)

section \<open>The store as a map\<close>

text \<open>
  What a caller of the interface relies on: a state holds for each of the keys it uses at
  most one content; storing and removing change just that key.
\<close>

datatype 'k file_op = Put 'k "byte list" | Remove 'k

fun op_key :: "'k file_op \<Rightarrow> 'k" where
  "op_key (Put k c) = k"
| "op_key (Remove k) = k"

fun run_op :: "('k \<Rightarrow> byte list \<Rightarrow> 's \<Rightarrow> 's) \<Rightarrow> ('k \<Rightarrow> 's \<Rightarrow> 's) \<Rightarrow> 'k file_op \<Rightarrow> 's \<Rightarrow> 's" where
  "run_op put remove (Put k c) s = put k c s"
| "run_op put remove (Remove k) s = remove k s"

fun map_op :: "'k file_op \<Rightarrow> ('k \<rightharpoonup> byte list) \<Rightarrow> 'k \<rightharpoonup> byte list" where
  "map_op (Put k c) m = m(k \<mapsto> c)"
| "map_op (Remove k) m = m(k := None)"

locale file_store =
  fixes put :: "'k \<Rightarrow> byte list \<Rightarrow> 's \<Rightarrow> 's"
    and get :: "'k \<Rightarrow> 's \<Rightarrow> byte list option"
    and remove :: "'k \<Rightarrow> 's \<Rightarrow> 's"
    and good :: "'s \<Rightarrow> bool"
    and keys :: "'k set"
  assumes good_put: "good s \<Longrightarrow> k \<in> keys \<Longrightarrow> good (put k c s)"
    and good_remove: "good s \<Longrightarrow> k \<in> keys \<Longrightarrow> good (remove k s)"
    and get_put: "good s \<Longrightarrow> k \<in> keys \<Longrightarrow> j \<in> keys \<Longrightarrow> get j (put k c s) = (if j = k then Some c else get j s)"
    and get_remove: "good s \<Longrightarrow> k \<in> keys \<Longrightarrow> j \<in> keys \<Longrightarrow> get j (remove k s) = (if j = k then None else get j s)"
begin

lemma good_op: "good s \<Longrightarrow> op_key p \<in> keys \<Longrightarrow> good (run_op put remove p s)"
  by (cases p) (simp_all add: good_put good_remove)

lemma get_op: "good s \<Longrightarrow> op_key p \<in> keys \<Longrightarrow> j \<in> keys \<Longrightarrow> get j (run_op put remove p s) = map_op p (\<lambda>k. get k s) j"
  by (cases p) (simp_all add: get_put get_remove)

lemma map_op_cong: "\<forall>k \<in> K. m k = m' k \<Longrightarrow> \<forall>k \<in> K. map_op p m k = map_op p m' k"
  by (cases p) simp_all

lemma fold_map_op_cong: "\<forall>k \<in> K. m k = m' k \<Longrightarrow> \<forall>k \<in> K. fold map_op ps m k = fold map_op ps m' k"
proof (induction ps arbitrary: m m')
  case (Cons p ps)
  show ?case using Cons.IH [OF map_op_cong [OF Cons.prems]] by simp
qed simp

lemma history:
  "good s \<Longrightarrow> \<forall>p \<in> set ps. op_key p \<in> keys \<Longrightarrow>
     good (fold (run_op put remove) ps s) \<and>
     (\<forall>k \<in> keys. get k (fold (run_op put remove) ps s) = fold map_op ps (\<lambda>k. get k s) k)"
proof (induction ps arbitrary: s)
  case (Cons p ps)
  then have g: "good (run_op put remove p s)" and k: "op_key p \<in> keys" by (simp_all add: good_op)
  with Cons.IH [OF g] Cons.prems
  have IH: "good (fold (run_op put remove) ps (run_op put remove p s))"
    "\<forall>k \<in> keys. get k (fold (run_op put remove) ps (run_op put remove p s)) =
       fold map_op ps (\<lambda>k. get k (run_op put remove p s)) k" by simp_all
  have "\<forall>k \<in> keys. get k (run_op put remove p s) = map_op p (\<lambda>k. get k s) k"
    using get_op [OF Cons.prems(1) k] by blast
  from fold_map_op_cong [OF this, of ps] IH show ?case by simp
qed simp

end

text \<open>The local store, used through its base path.\<close>

definition store_put :: "string \<Rightarrow> string \<Rightarrow> byte list \<Rightarrow> disk \<Rightarrow> disk" where
  "store_put b k c d = snd (run_state (local_upload b k \<lparr>delivers = c, then_fails = None\<rparr> []) d)"

definition store_get :: "string \<Rightarrow> string \<Rightarrow> disk \<Rightarrow> byte list option" where
  "store_get b k d = (case fst (run_state (local_download b k) d) of
     Inr r \<Rightarrow> (if then_fails r = None then Some (delivers r) else None)
   | Inl _ \<Rightarrow> None)"

definition store_remove :: "string \<Rightarrow> string \<Rightarrow> disk \<Rightarrow> disk" where
  "store_remove b k d = snd (run_state (local_delete b k) d)"

text \<open>
  The disk works, no key leads through the file of another, and neither a directory nor a
  file is in the way of a key.
\<close>

definition local_good :: "string list \<Rightarrow> string set \<Rightarrow> disk \<Rightarrow> bool" where
  "local_good base keys d \<longleftrightarrow> (\<forall>c \<in> set base. plain c) \<and> faults d = [] \<and> tree_ok (nodes d) \<and>
     (\<forall>k \<in> keys. key_path base k \<noteq> [] \<and> node_at (nodes d) (key_path base k) \<noteq> Some Dir \<and>
        (\<forall>j \<in> keys. j \<noteq> k \<longrightarrow> \<not> prefix (key_path base j) (key_path base k)) \<and>
        (\<forall>q x. strict_prefix q (key_path base k) \<longrightarrow> node_at (nodes d) q \<noteq> Some (File x)))"

lemma local_goodD:
  assumes "local_good base keys d"
  shows "\<forall>c \<in> set base. plain c" "faults d = []" "tree_ok (nodes d)"
    "k \<in> keys \<Longrightarrow> key_path base k \<noteq> []" "k \<in> keys \<Longrightarrow> node_at (nodes d) (key_path base k) \<noteq> Some Dir"
    "k \<in> keys \<Longrightarrow> strict_prefix q (key_path base k) \<Longrightarrow> node_at (nodes d) q \<noteq> Some (File x)"
    "j \<in> keys \<Longrightarrow> k \<in> keys \<Longrightarrow> j \<noteq> k \<Longrightarrow> \<not> prefix (key_path base j) (key_path base k)"
  using assms by (simp_all add: local_good_def)

lemma local_upload_succeeds:
  assumes good: "local_good base keys d" and k: "k \<in> keys"
  shows "\<exists>info d'. run_state (local_upload (slashed base) k \<lparr>delivers = c, then_fails = None\<rparr> ct) d = (Inr info, d') \<and>
    faults d' = [] \<and> tree_ok (nodes d')"
proof -
  let ?p = "key_path base k" and ?full = "filepath_join (slashed base) k"
  let ?f = "snd (make_dirs (nodes d) [] (butlast ?p))"
  have base: "\<forall>c \<in> set base. plain c" and d: "faults d = []" "tree_ok (nodes d)" using good by (simp_all add: local_good_def)
  have p: "?p \<noteq> []" "node_at (nodes d) ?p \<noteq> Some Dir" "\<forall>q x. strict_prefix q ?p \<longrightarrow> node_at (nodes d) q \<noteq> Some (File x)"
    using good k by (simp_all add: local_good_def)
  have up: "strict_prefix q ?p" if "prefix q (butlast ?p)" for q
    using that p(1) by (metis append_butlast_last_id prefix_order.dual_order.strict_trans2 prefix_snocD prefix_order.order_refl
        prefix_order.less_le strict_prefixI' prefix_order.le_less_trans)
  have mk: "fst (make_dirs (nodes d) [] (butlast ?p)) = Inr ()" using p(3) up by (simp add: make_dirs_ok)
  have dirs: "node_at ?f q = Some Dir" if "prefix q (butlast ?p)" for q using make_dirs_made [OF mk that] by simp
  have free: "node_at ?f ?p \<noteq> Some Dir"
  proof (cases "node_at (nodes d) ?p")
    case None
    with make_dirs_adds [OF None, of "[]" "butlast ?p"] up [of ?p] show ?thesis by auto
  next
    case (Some n)
    with make_dirs_keeps [OF this, of "[]" "butlast ?p"] p(2) show ?thesis by auto
  qed
  have "walk ?f [] (butlast ?p) = Inr Dir" using dirs by (simp add: walk_root prefix_order.less_imp_le)
  then have cr: "create_file ?f ?p = (Inr (), put_node ?p (File []) ?f)" using p(1) free by (simp add: create_file_def)
  note c = create_file_ok [of ?f ?p, unfolded cr fst_conv snd_conv, OF refl]
  have t1: "tree_ok (put_node ?p (File []) ?f)"
    using put_file_tree [OF make_dirs_tree [OF d(2) mk]] c by blast
  have t2: "tree_ok (append_bytes ?p c (put_node ?p (File []) ?f))"
    unfolding append_bytes_def using c by (intro put_file_tree [OF t1]) (auto simp: node_at_put)
  let ?d1 = "d\<lparr>nodes := put_node ?p (File []) ?f\<rparr>"
  let ?d2 = "if c = [] then ?d1 else ?d1\<lparr>nodes := append_bytes ?p c (nodes ?d1)\<rparr>"
  note paths = full_path [OF base, where key = k]
  have "run_state (local_upload (slashed base) k \<lparr>delivers = c, then_fails = None\<rparr> ct) d =
     (Inr \<lparr>URL = ?full, Bucket = [], Key = k, Size = int (length c), ContentType = ct\<rparr>, ?d2)"
    using d(1) mk cr
    by (simp add: local_upload_def Let_def os_mkdir_all_def os_create_def io_copy_def os_write_def paths)
  moreover have "faults ?d2 = []" "tree_ok (nodes ?d2)" using d(1) t1 t2 by auto
  ultimately show ?thesis by blast
qed

lemma local_get:
  assumes "local_good base keys d" and "k \<in> keys"
  shows "store_get (slashed base) k d =
    (case node_at (nodes d) (key_path base k) of Some (File c) \<Rightarrow> Some c | _ \<Rightarrow> None)"
proof -
  have base: "\<forall>c \<in> set base. plain c" and d: "faults d = []" "tree_ok (nodes d)" using assms by (simp_all add: local_good_def)
  show ?thesis
  proof (cases "walk (nodes d) [] (key_path base k)")
    case (Inl e)
    then have "node_at (nodes d) (key_path base k) = None" using walk_tree [OF d(2)] by (metis not_None_eq sum.distinct(1))
    with Inl show ?thesis by (simp add: store_get_def local_download_empty [OF base d(1)])
  next
    case (Inr n)
    then have "node_at (nodes d) (key_path base k) = Some n" by (simp add: walk_root)
    with Inr show ?thesis by (cases n) (simp_all add: store_get_def local_download_empty [OF base d(1)] reader_of_def)
  qed
qed

interpretation local_store: file_store "store_put (slashed base)" "store_get (slashed base)" "store_remove (slashed base)"
  "local_good base keys" keys
proof
  fix d k c
  assume good: "local_good base keys d" and k: "k \<in> keys"
  let ?p = "key_path base k"
  have base: "\<forall>c \<in> set base. plain c" and d: "faults d = []" "tree_ok (nodes d)" using good by (simp_all add: local_good_def)
  obtain info d' where up: "run_state (local_upload (slashed base) k \<lparr>delivers = c, then_fails = None\<rparr> []) d = (Inr info, d')"
    "faults d' = []" "tree_ok (nodes d')" using local_upload_succeeds [OF good k] by blast
  then have put: "store_put (slashed base) k c d = d'" by (simp add: store_put_def)
  note ok = local_upload_ok [OF base up(1)]
  have sep: "\<not> prefix (key_path base j) ?p" "\<not> prefix ?p (key_path base j)" if "j \<in> keys" "j \<noteq> k" for j
    using that by (simp_all add: k local_goodD(7) [OF good])
  have other: "node_at (nodes d') (key_path base j) = node_at (nodes d) (key_path base j)" if "j \<in> keys" "j \<noteq> k" for j
  proof (cases "node_at (nodes d) (key_path base j)")
    case None
    with sep(1) [OF that] ok show ?thesis by (cases "node_at (nodes d') (key_path base j)") auto
  next
    case (Some n)
    with sep(1) [OF that] ok show ?thesis by auto
  qed
  have free: "node_at (nodes d') q \<noteq> Some (File x)" if "j \<in> keys" "strict_prefix q (key_path base j)" for j q x
  proof (cases "q = ?p")
    case True
    with that sep(2) [of j] show ?thesis by (cases "j = k") auto
  next
    case False
    show ?thesis
    proof (cases "node_at (nodes d) q")
      case None
      then have "strict_prefix q ?p \<or> node_at (nodes d') q = None" using ok False by (auto simp: strict_prefix_def)
      with ok show ?thesis by auto
    next
      case (Some n)
      with local_goodD(6) [OF good that] ok False show ?thesis by auto
    qed
  qed
  show good': "local_good base keys (store_put (slashed base) k c d)"
    unfolding put local_good_def
  proof (intro conjI ballI allI impI)
    fix j assume j: "j \<in> keys"
    show "node_at (nodes d') (key_path base j) \<noteq> Some Dir"
      using other [OF j] local_goodD(5) [OF good j] ok by (cases "j = k") auto
  qed (use base up(2,3) free local_goodD(4,7) [OF good] in auto)
  fix j assume j: "j \<in> keys"
  show "store_get (slashed base) j (store_put (slashed base) k c d) = (if j = k then Some c else store_get (slashed base) j d)"
    using local_get [OF good' j] local_get [OF good j] other [OF j] ok by (auto simp: put)
next
  fix d k
  assume good: "local_good base keys d" and k: "k \<in> keys"
  let ?p = "key_path base k"
  have base: "\<forall>c \<in> set base. plain c" and d: "faults d = []" "tree_ok (nodes d)" using good by (simp_all add: local_good_def)
  have p: "?p \<noteq> []" "node_at (nodes d) ?p \<noteq> Some Dir" using good k by (auto simp: local_good_def)
  let ?d = "store_remove (slashed base) k d"
  have rem: "faults ?d = [] \<and> tree_ok (nodes ?d) \<and>
      (\<forall>q. node_at (nodes ?d) q = (if q = ?p then None else node_at (nodes d) q))"
  proof (cases "walk (nodes d) [] ?p")
    case (Inl e)
    then have none: "node_at (nodes d) ?p = None" using walk_tree [OF d(2)] by (metis not_None_eq sum.distinct(1))
    have "?d = d" using Inl d(1) p(1)
      by (simp add: store_remove_def local_delete_def os_remove_def full_path [OF base] remove_node_def)
    with d none show ?thesis by auto
  next
    case (Inr n)
    then have "node_at (nodes d) ?p = Some n" by (simp add: walk_root)
    with p(2) obtain x where x: "n = File x" "node_at (nodes d) ?p = Some (File x)" by (cases n) auto
    then have "?d = d\<lparr>nodes := drop_node ?p (nodes d)\<rparr>" using Inr d(1) p(1)
      by (simp add: store_remove_def local_delete_def os_remove_def full_path [OF base] remove_node_def)
    with d(1) drop_file_tree [OF d(2) x(2)] p(1) show ?thesis by (simp add: node_at_drop)
  qed
  show good': "local_good base keys ?d"
    using good rem unfolding local_good_def by auto
  fix j assume j: "j \<in> keys"
  have "key_path base j = ?p \<Longrightarrow> j = k" using local_goodD(7) [OF good j k] by auto
  then show "store_get (slashed base) j ?d = (if j = k then None else store_get (slashed base) j d)"
    using local_get [OF good' j] local_get [OF good j] rem by auto
qed

text \<open>
  C26: the local store is a map from keys to contents. As long as the disk works, for any set
  of keys whose paths are not in each other's way and any sequence of uploads and deletions
  under these keys, a download delivers exactly what a map would hold after the same
  operations: the last upload that was not deleted.
\<close>
theorem local_storage_is_a_map:
  assumes "local_good base keys d" and "\<forall>p \<in> set ops. op_key p \<in> keys" and "k \<in> keys"
  shows "store_get (slashed base) k (fold (run_op (store_put (slashed base)) (store_remove (slashed base))) ops d) =
    fold map_op ops (\<lambda>j. store_get (slashed base) j d) k"
  using local_store.history [OF assms(1,2)] assms(3) by blast

definition demo_disk :: disk where
  "demo_disk = \<lparr>cwd = [''srv''], nodes = [([''data''], Dir)], faults = []\<rparr>"

lemma demo_paths: "key_path [''data''] ''a'' = [''data'', ''a'']" "key_path [''data''] ''b/c'' = [''data'', ''b'', ''c'']"
  by (simp_all add: key_path_def)

lemma demo_good: "local_good [''data''] {''a'', ''b/c''} demo_disk"
proof -
  have n: "node_at [([''data''], Dir)] q = (if q = [] \<or> q = [''data''] then Some Dir else None)" for q
    by (auto simp: node_at_def)
  have t: "tree_ok [([''data''], Dir)]"
    by (auto simp: tree_ok_def n strict_prefix_def prefix_Cons split: if_splits list.splits)
  show ?thesis
    unfolding local_good_def by (auto simp: demo_disk_def plain_def demo_paths n t)
qed

theorem local_storage_is_a_map_witness:
  "store_get (slashed [''data'']) ''a'' (fold (run_op (store_put (slashed [''data''])) (store_remove (slashed [''data''])))
     [Put ''a'' [1], Put ''b/c'' [2], Put ''a'' [3], Remove ''b/c''] demo_disk) = Some [3]"
  using local_storage_is_a_map [OF demo_good, of "[Put ''a'' [1], Put ''b/c'' [2], Put ''a'' [3], Remove ''b/c'']" "''a''"]
  by simp

lemma demo_base: "run_state (new_local_storage ''/data'') demo_disk = (slashed [''data''], demo_disk)"
  by (simp add: new_local_storage_def filepath_abs_def filepath_clean_def is_rooted_def Let_def slashed_def
      os_mkdir_all_def demo_disk_def locate_def node_at_def)

theorem upload_then_download_witness:
  "\<exists>d'. fst (run_state (local_download (slashed [''data'']) ''a'') d') = Inr \<lparr>delivers = [1, 2], then_fails = None\<rparr>"
proof -
  obtain info d' where "run_state (local_upload (slashed [''data'']) ''a'' \<lparr>delivers = [1, 2], then_fails = None\<rparr> []) demo_disk =
      (Inr info, d')" "faults d' = []"
    using local_upload_succeeds [OF demo_good, of "''a''"] by blast
  from upload_then_download [OF demo_base _ this] show ?thesis
    by (intro exI [of _ d']) (simp add: demo_disk_def plain_def)
qed

theorem base_path_confines_plain_keys_only_witness:
  "\<exists>key. run_state (local_download (slashed [''data'']) key) (demo_disk\<lparr>nodes := [([''passwd''], File [7])]\<rparr>) =
     (Inr \<lparr>delivers = [7], then_fails = None\<rparr>, demo_disk\<lparr>nodes := [([''passwd''], File [7])]\<rparr>)"
proof -
  let ?d = "demo_disk\<lparr>nodes := [([''passwd''], File [7])]\<rparr>"
  have "walk (nodes ?d) [] [''passwd''] = Inr (File [7])" by (simp add: node_at_def)
  from base_path_confines_plain_keys_only [OF demo_base _ this] show ?thesis by (auto simp: demo_disk_def plain_def)
qed

end
