(* ===== verification/Logger.thy ===== *)
theory Logger
  imports Disk
begin

text \<open>
  The logger, \<open>internal/shared/logger/logger.go\<close>: the levels, the sinks that \<open>Init\<close> sets up,
  and the writer that keeps one file per day. The date is that of the machine's time zone, a
  parameter; how \<open>zap\<close> encodes an entry is its own business, so a line is just bytes.
\<close>

section \<open>Levels and sinks\<close>

datatype level = DebugLevel | InfoLevel | WarnLevel | ErrorLevel | FatalLevel

definition parse_level :: "string \<Rightarrow> level" where
  "parse_level lvl =
     (if lvl = ''debug'' then DebugLevel else if lvl = ''info'' then InfoLevel
      else if lvl = ''warn'' then WarnLevel else if lvl = ''error'' then ErrorLevel else InfoLevel)"

text \<open>An open file is known by its path; \<open>live\<close> says that it has not been closed.\<close>

record open_file =
  fname :: string
  live :: bool

record daily_writer =
  dw_dir :: string
  dw_base :: string
  dw_ext :: string
  dw_file :: "open_file option"

definition new_daily_file_writer :: "string \<Rightarrow> daily_writer" where
  "new_daily_file_writer logPath =
     (let dir = filepath_dir logPath; base = filepath_base logPath; ext = filepath_ext base;
          name = take (length base - length ext) base
      in \<lparr>dw_dir = dir, dw_base = name, dw_ext = ext, dw_file = None\<rparr>)"

datatype sink = Stdout | Daily daily_writer

definition init_logger :: "string \<Rightarrow> string \<Rightarrow> (sink \<times> level) list" where
  "init_logger lvl filePath =
     (Stdout, parse_level lvl) #
     (if filePath \<noteq> [] then [(Daily (new_daily_file_writer filePath), parse_level lvl)] else [])"

section \<open>The daily file\<close>

text \<open>
  The state of a \<open>Write\<close>, which holds the writer's mutex, is the writer and the disk.
  \<open>today t\<close> is the date at the instant \<open>t\<close>, in the form \<open>2006-01-02\<close>.
\<close>

record log_state =
  writer :: daily_writer
  ldisk :: disk

definition daily_path :: "daily_writer \<Rightarrow> string \<Rightarrow> string" where
  "daily_path w date = filepath_join (dw_dir w) (dw_base w @ ''-'' @ date @ dw_ext w)"

definition on_disk :: "(disk, 'a) state \<Rightarrow> (log_state, 'a) state" where
  "on_disk m = State (\<lambda>s. let (a, d) = run_state m (ldisk s) in (a, s\<lparr>ldisk := d\<rparr>))"

definition set_file :: "open_file option \<Rightarrow> (log_state, unit) state" where
  "set_file f = State (\<lambda>s. ((), s\<lparr>writer := (writer s)\<lparr>dw_file := f\<rparr>\<rparr>))"

text \<open>Opening today's file: its directory is made first, whatever comes of that.\<close>

definition open_daily :: "string \<Rightarrow> (log_state, go_error + unit) state" where
  "open_daily path = do {
     w \<leftarrow> read_state writer;
     _ \<leftarrow> on_disk (os_mkdir_all (dw_dir w));
     on_error (on_disk (os_open_append path)) (\<lambda>e. ret (Inl e)) (\<lambda>_. do {
       set_file (Some \<lparr>fname = path, live = True\<rparr>);
       ret (Inr ()) }) }"

definition write_file :: "byte list \<Rightarrow> (log_state, go_error + nat) state" where
  "write_file p = do {
     w \<leftarrow> read_state writer;
     case dw_file w of
       None \<Rightarrow> ret (Inl (Ext ''invalid argument''))
     | Some f \<Rightarrow> (if live f then on_disk (os_write (fname f) p) else ret (Inl (Ext ''file already closed''))) }"

definition write_log :: "(time \<Rightarrow> string) \<Rightarrow> time \<Rightarrow> byte list \<Rightarrow> (log_state, go_error + nat) state" where
  "write_log today now p = do {
     w \<leftarrow> read_state writer;
     let path = daily_path w (today now);
     on_error (if dw_file w = None then open_daily path else ret (Inr ())) (\<lambda>e. ret (Inl e)) (\<lambda>_. do {
       w \<leftarrow> read_state writer;
       on_error
         (case dw_file w of
            Some f \<Rightarrow> (if fname f \<noteq> path then do { set_file (Some (f\<lparr>live := False\<rparr>)); open_daily path } else ret (Inr ()))
          | None \<Rightarrow> ret (Inr ()))
         (\<lambda>e. ret (Inl e)) (\<lambda>_. write_file p) }) }"

text \<open>
  \<open>Sync\<close> asks the disk to keep what was written; that may fail, and changes no content. A writer
  that has not written yet has nothing to ask for.
\<close>

definition sync_log :: "(log_state, go_error + unit) state" where
  "sync_log = do {
     w \<leftarrow> read_state writer;
     case dw_file w of
       None \<Rightarrow> ret (Inr ())
     | Some f \<Rightarrow> (if live f then on_disk (os_call (\<lambda>t. (Inr (), t)) (\<lambda>_ t. t)) else ret (Inl (Ext ''file already closed''))) }"

text \<open>Calls one after the other, as the mutex orders them.\<close>

fun write_all :: "(time \<Rightarrow> string) \<Rightarrow> (time \<times> byte list) list \<Rightarrow> log_state \<Rightarrow> log_state" where
  "write_all today [] s = s"
| "write_all today ((now, p) # ps) s = write_all today ps (snd (run_state (write_log today now p) s))"

section \<open>Every line in the file of its day\<close>

text \<open>
  A directory \<open>D\<close> in which the files with the names \<open>nm t\<close> can be kept: no file is in the
  way of the directory and no directory in the way of a file.
\<close>

definition log_tree :: "string list \<Rightarrow> (time \<Rightarrow> string) \<Rightarrow> tree \<Rightarrow> bool" where
  "log_tree D nm f \<longleftrightarrow> tree_ok f \<and> (\<forall>q x. prefix q D \<longrightarrow> node_at f q \<noteq> Some (File x)) \<and>
     (\<forall>t. node_at f (D @ [nm t]) \<noteq> Some Dir)"

lemma file_bytes_put: "p \<noteq> [] \<Longrightarrow> file_bytes (put_node p (File c) f) q = (if q = p then c else file_bytes f q)"
  by (simp add: file_bytes_def node_at_put)

lemma make_dirs_bytes: "file_bytes (snd (make_dirs f [] D)) q = file_bytes f q"
proof (cases "node_at f q")
  case None
  from make_dirs_adds [OF None, of "[]" D] show ?thesis by (auto simp: file_bytes_def None)
next
  case (Some n)
  with make_dirs_keeps [OF Some, of "[]" D] show ?thesis by (simp add: file_bytes_def)
qed

lemma strict_prefix_snoc: "strict_prefix q (D @ [x]) \<longleftrightarrow> prefix q D"
  by (auto simp: strict_prefix_def dest: prefix_length_le)

lemma open_tree:
  assumes "log_tree D nm f"
  shows "\<exists>f'. fst (make_dirs f [] D) = Inr () \<and> open_append (snd (make_dirs f [] D)) (D @ [nm t]) = (Inr (), f') \<and>
    node_at f' (D @ [nm t]) = Some (File (file_bytes f (D @ [nm t]))) \<and> (\<forall>q. file_bytes f' q = file_bytes f q) \<and>
    log_tree D nm f'"
proof -
  let ?f = "snd (make_dirs f [] D)" and ?p = "D @ [nm t]"
  have ok: "tree_ok f" "\<And>q x. prefix q D \<Longrightarrow> node_at f q \<noteq> Some (File x)" "\<And>t. node_at f (D @ [nm t]) \<noteq> Some Dir"
    using assms by (simp_all add: log_tree_def)
  have mk: "fst (make_dirs f [] D) = Inr ()" using ok(2) by (simp add: make_dirs_ok)
  have dirs: "node_at ?f q = Some Dir" if "prefix q D" for q using make_dirs_made [OF mk that] by simp
  have t: "tree_ok ?f" using make_dirs_tree [OF ok(1) mk] .
  have free: "node_at ?f (D @ [nm u]) \<noteq> Some Dir" for u
  proof (cases "node_at f (D @ [nm u])")
    case None
    from make_dirs_adds [OF None, of "[]" D] show ?thesis by (auto dest: prefix_length_le)
  next
    case (Some n)
    with make_dirs_keeps [OF Some, of "[]" D] ok(3) [of u] show ?thesis by auto
  qed
  have lt: "log_tree D nm ?f" using t dirs free by (simp add: log_tree_def)
  show ?thesis
  proof (cases "node_at ?f ?p")
    case None
    have "\<not> (\<exists>n. walk ?f [] ?p = Inr n)" using None by (simp add: walk_root)
    moreover have "walk ?f [] (butlast ?p) = Inr Dir" using dirs by (simp add: walk_root)
    ultimately have "open_append ?f ?p = (Inr (), put_node ?p (File []) ?f)"
      using None by (auto simp: open_append_def create_file_def split: sum.splits)
    moreover have "file_bytes f ?p = []" using make_dirs_bytes [of f D ?p] None by (simp add: file_bytes_def)
    moreover have "log_tree D nm (put_node ?p (File []) ?f)"
      unfolding log_tree_def
    proof (intro conjI allI impI)
      show "tree_ok (put_node ?p (File []) ?f)"
        using dirs free [of t] by (intro put_file_tree [OF t]) (simp_all add: strict_prefix_snoc)
      show "node_at (put_node ?p (File []) ?f) (D @ [nm u]) \<noteq> Some Dir" for u using free [of u] by (simp add: node_at_put)
      fix q x assume "prefix q D"
      then have "q \<noteq> ?p" by (auto dest: prefix_length_le)
      with dirs [OF \<open>prefix q D\<close>] show "node_at (put_node ?p (File []) ?f) q \<noteq> Some (File x)" by (simp add: node_at_put)
    qed
    ultimately show ?thesis using mk make_dirs_bytes [of f D]
      by (intro exI [of _ "put_node ?p (File []) ?f"]) (auto simp: node_at_put file_bytes_put)
  next
    case (Some n)
    with free [of t] obtain c where c: "node_at ?f ?p = Some (File c)" by (cases n) auto
    then have "walk ?f [] ?p = Inr (File c)" using dirs by (simp add: walk_root strict_prefix_snoc)
    then have "open_append ?f ?p = (Inr (), ?f)" by (simp add: open_append_def)
    moreover have "file_bytes f ?p = c" using make_dirs_bytes [of f D ?p] c by (simp add: file_bytes_def)
    ultimately show ?thesis using mk lt c make_dirs_bytes [of f D] by auto
  qed
qed

lemma append_tree:
  assumes "log_tree D nm f" and "node_at f (D @ [nm t]) = Some (File c)"
  shows "log_tree D nm (append_bytes (D @ [nm t]) p f) \<and>
    node_at (append_bytes (D @ [nm t]) p f) (D @ [nm t]) = Some (File (c @ p)) \<and>
    (\<forall>q. file_bytes (append_bytes (D @ [nm t]) p f) q = file_bytes f q @ (if q = D @ [nm t] then p else []))"
proof -
  let ?p = "D @ [nm t]"
  have "tree_ok f" using assms(1) by (simp add: log_tree_def)
  then have dirs: "\<forall>q. strict_prefix q ?p \<longrightarrow> node_at f q = Some Dir" using assms(2) by (auto simp: tree_ok_def)
  have "file_bytes f ?p = c" using assms(2) by (simp add: file_bytes_def)
  moreover have "tree_ok (put_node ?p (File (c @ p)) f)"
    using dirs assms(2) by (intro put_file_tree [OF \<open>tree_ok f\<close>]) simp_all
  moreover have "node_at (put_node ?p (File (c @ p)) f) q \<noteq> Some (File x)" if "prefix q D" for q x
  proof -
    from that have "q \<noteq> ?p" by (auto dest: prefix_length_le)
    with that assms(1) show ?thesis by (simp add: node_at_put log_tree_def)
  qed
  ultimately show ?thesis using assms(1)
    by (auto simp: append_bytes_def log_tree_def node_at_put file_bytes_put)
qed

text \<open>The writer in its directory, its file closed or the file of some day.\<close>

definition log_ready :: "(time \<Rightarrow> string) \<Rightarrow> string list \<Rightarrow> log_state \<Rightarrow> bool" where
  "log_ready today D s \<longleftrightarrow>
     (let w = writer s; nm = (\<lambda>t. dw_base w @ ''-'' @ today t @ dw_ext w) in
      dw_dir w \<noteq> [] \<and> (\<forall>t. plain (nm t)) \<and> locate (cwd (ldisk s)) (dw_dir w) = D \<and> faults (ldisk s) = [] \<and>
      log_tree D nm (nodes (ldisk s)) \<and>
      (\<forall>f. dw_file w = Some f \<longrightarrow> live f \<and>
         (\<exists>t c. fname f = daily_path w (today t) \<and> node_at (nodes (ldisk s)) (D @ [nm t]) = Some (File c))))"

abbreviation log_name :: "(time \<Rightarrow> string) \<Rightarrow> daily_writer \<Rightarrow> time \<Rightarrow> string" where
  "log_name today w t \<equiv> dw_base w @ ''-'' @ today t @ dw_ext w"

lemma log_readyD:
  assumes "log_ready today D s"
  shows "dw_dir (writer s) \<noteq> []" "plain (log_name today (writer s) t)" "locate (cwd (ldisk s)) (dw_dir (writer s)) = D"
    "faults (ldisk s) = []" "log_tree D (log_name today (writer s)) (nodes (ldisk s))"
    "locate (cwd (ldisk s)) (daily_path (writer s) (today t)) = D @ [log_name today (writer s) t]"
  using assms by (simp_all add: log_ready_def Let_def daily_path_def locate_join)

lemma run_on_disk [simp]:
  "run_state (on_disk m) s = (fst (run_state m (ldisk s)), s\<lparr>ldisk := snd (run_state m (ldisk s))\<rparr>)"
  by (simp add: on_disk_def split: prod.splits)

lemma run_set_file [simp]: "run_state (set_file f) s = ((), s\<lparr>writer := (writer s)\<lparr>dw_file := f\<rparr>\<rparr>)"
  by (simp add: set_file_def)

text \<open>The state after opening the file of the instant \<open>t\<close> in the tree \<open>f\<close>.\<close>

definition opened :: "string \<Rightarrow> tree \<Rightarrow> log_state \<Rightarrow> log_state" where
  "opened path f s = s\<lparr>writer := (writer s)\<lparr>dw_file := Some \<lparr>fname = path, live = True\<rparr>\<rparr>,
     ldisk := (ldisk s)\<lparr>nodes := f\<rparr>\<rparr>"

lemma open_daily_run:
  assumes "locate (cwd (ldisk s)) (dw_dir (writer s)) = D" and "locate (cwd (ldisk s)) path = D @ [nm t]"
    and "faults (ldisk s) = []" and "log_tree D nm (nodes (ldisk s))"
  shows "\<exists>f'. run_state (open_daily path) s = (Inr (), opened path f' s) \<and> log_tree D nm f' \<and>
    node_at f' (D @ [nm t]) = Some (File (file_bytes (nodes (ldisk s)) (D @ [nm t]))) \<and>
    (\<forall>q. file_bytes f' q = file_bytes (nodes (ldisk s)) q)"
proof -
  from open_tree [OF assms(4), of t] obtain f' where
      f': "fst (make_dirs (nodes (ldisk s)) [] D) = Inr ()"
        "open_append (snd (make_dirs (nodes (ldisk s)) [] D)) (D @ [nm t]) = (Inr (), f')"
    and rest: "node_at f' (D @ [nm t]) = Some (File (file_bytes (nodes (ldisk s)) (D @ [nm t])))"
      "\<forall>q. file_bytes f' q = file_bytes (nodes (ldisk s)) q" "log_tree D nm f'" by blast
  have "run_state (open_daily path) s = (Inr (), opened path f' s)"
    using assms(1-3) f' by (simp add: open_daily_def os_mkdir_all_def os_open_append_def opened_def)
  with rest show ?thesis by blast
qed

lemma write_file_run:
  assumes "dw_file (writer s) = Some \<lparr>fname = path, live = True\<rparr>" and "locate (cwd (ldisk s)) path = q"
    and "faults (ldisk s) = []"
  shows "run_state (write_file p) s = (Inr (length p), s\<lparr>ldisk := (ldisk s)\<lparr>nodes := append_bytes q p (nodes (ldisk s))\<rparr>\<rparr>)"
  using assms by (simp add: write_file_def os_write_def)

text \<open>A write ends with the bytes at the end of today's file and of no other.\<close>

lemma write_opened:
  assumes ready: "log_ready today D s" and tree: "log_tree D (log_name today (writer s)) f"
    and "node_at f (D @ [log_name today (writer s) t]) = Some (File c)"
    and same: "\<forall>q. file_bytes f q = file_bytes (nodes (ldisk s)) q"
  defines "path \<equiv> daily_path (writer s) (today t)"
  shows "\<exists>s'. run_state (write_file p) (opened path f s) = (Inr (length p), s') \<and> log_ready today D s' \<and>
    writer s' = (writer s)\<lparr>dw_file := Some \<lparr>fname = path, live = True\<rparr>\<rparr> \<and>
    (\<forall>q. file_bytes (nodes (ldisk s')) q =
       file_bytes (nodes (ldisk s)) q @ (if q = D @ [log_name today (writer s) t] then p else []))"
proof -
  let ?q = "D @ [log_name today (writer s) t]" and ?o = "opened path f s"
  note r = log_readyD [OF ready]
  have run: "run_state (write_file p) ?o =
      (Inr (length p), ?o\<lparr>ldisk := (ldisk ?o)\<lparr>nodes := append_bytes ?q p (nodes (ldisk ?o))\<rparr>\<rparr>)"
    using r(4) r(6) [of t] by (intro write_file_run) (simp_all add: opened_def path_def)
  note a = append_tree [OF tree assms(3), of p]
  have "log_ready today D (?o\<lparr>ldisk := (ldisk ?o)\<lparr>nodes := append_bytes ?q p (nodes (ldisk ?o))\<rparr>\<rparr>)"
    using r(1-5) a unfolding log_ready_def Let_def
    by (auto simp: opened_def path_def daily_path_def)
  with run a same show ?thesis by (simp add: opened_def)
qed

lemma write_log_step:
  assumes "log_ready today D s"
  shows "\<exists>s' f. run_state (write_log today now p) s = (Inr (length p), s') \<and> log_ready today D s' \<and>
    writer s' = (writer s)\<lparr>dw_file := f\<rparr> \<and>
    (\<forall>q. file_bytes (nodes (ldisk s')) q =
       file_bytes (nodes (ldisk s)) q @ (if q = D @ [log_name today (writer s) now] then p else []))"
proof -
  let ?w = "writer s" and ?path = "daily_path (writer s) (today now)"
  note r = log_readyD [OF assms]
  show ?thesis
  proof (cases "dw_file ?w")
    case None
    from open_daily_run [OF r(3) r(6) r(4,5), of now] obtain f' where
        o: "run_state (open_daily ?path) s = (Inr (), opened ?path f' s)" "log_tree D (log_name today ?w) f'"
          "node_at f' (D @ [log_name today ?w now]) = Some (File (file_bytes (nodes (ldisk s)) (D @ [log_name today ?w now])))"
          "\<forall>q. file_bytes f' q = file_bytes (nodes (ldisk s)) q" by blast
    have "run_state (write_log today now p) s = run_state (write_file p) (opened ?path f' s)"
      using None o(1) by (simp add: write_log_def Let_def) (simp add: opened_def)
    with write_opened [OF assms o(2,3,4), of p] show ?thesis by auto
  next
    case (Some f)
    with assms obtain u c where f: "live f" "fname f = daily_path ?w (today u)"
        "node_at (nodes (ldisk s)) (D @ [log_name today ?w u]) = Some (File c)"
      unfolding log_ready_def Let_def by blast
    show ?thesis
    proof (cases "fname f = ?path")
      case True
      with f(2) have "daily_path ?w (today u) = ?path" by metis
      with r(6) [of u] r(6) [of now] have "D @ [log_name today ?w u] = D @ [log_name today ?w now]" by metis
      with f(3) have n: "node_at (nodes (ldisk s)) (D @ [log_name today ?w now]) = Some (File c)" by simp
      have "f = \<lparr>fname = ?path, live = True\<rparr>" using f(1) True by (cases f) simp
      then have "opened ?path (nodes (ldisk s)) s = s" using Some by (cases s) (simp add: opened_def)
      then have "run_state (write_log today now p) s = run_state (write_file p) (opened ?path (nodes (ldisk s)) s)"
        using Some True by (simp add: write_log_def Let_def)
      with write_opened [OF assms r(5) n, of p] show ?thesis by auto
    next
      case False
      let ?s = "s\<lparr>writer := ?w\<lparr>dw_file := Some (f\<lparr>live := False\<rparr>)\<rparr>\<rparr>"
      have "\<exists>f'. run_state (open_daily ?path) ?s = (Inr (), opened ?path f' ?s) \<and> log_tree D (log_name today ?w) f' \<and>
          node_at f' (D @ [log_name today ?w now]) = Some (File (file_bytes (nodes (ldisk ?s)) (D @ [log_name today ?w now]))) \<and>
          (\<forall>q. file_bytes f' q = file_bytes (nodes (ldisk ?s)) q)"
        using r by (intro open_daily_run) simp_all
      then obtain f' where o: "run_state (open_daily ?path) ?s = (Inr (), opened ?path f' ?s)" "log_tree D (log_name today ?w) f'"
          "node_at f' (D @ [log_name today ?w now]) = Some (File (file_bytes (nodes (ldisk s)) (D @ [log_name today ?w now])))"
          "\<forall>q. file_bytes f' q = file_bytes (nodes (ldisk s)) q" by auto
      have "opened ?path f' ?s = opened ?path f' s" by (simp add: opened_def)
      then have "run_state (write_log today now p) s = run_state (write_file p) (opened ?path f' s)"
        using Some False o(1) by (simp add: write_log_def Let_def)
      with write_opened [OF assms o(2,3,4), of p] show ?thesis by auto
    qed
  qed
qed

text \<open>
  Whatever the sequence of writes and however the clock moves between them, over
  midnight or back, each line is appended to the file of the day on which it was written, in
  the order of the writes, and to no other file; no line is lost or written twice. The disk
  must work and the log directory must be usable.
\<close>
lemma log_lines_in_the_file_of_their_day:
  assumes "log_ready today D s"
  shows "file_bytes (nodes (ldisk (write_all today ps s))) (D @ [log_name today (writer s) t]) =
    file_bytes (nodes (ldisk s)) (D @ [log_name today (writer s) t]) @
    concat (map snd (filter (\<lambda>(now, p). log_name today (writer s) now = log_name today (writer s) t) ps))"
  using assms
proof (induction ps arbitrary: s)
  case (Cons np ps)
  obtain now p where np: "np = (now, p)" by (cases np)
  from write_log_step [OF Cons.prems, of now p] obtain s' f where
      s': "run_state (write_log today now p) s = (Inr (length p), s')" "log_ready today D s'" "writer s' = (writer s)\<lparr>dw_file := f\<rparr>"
        "\<forall>q. file_bytes (nodes (ldisk s')) q =
          file_bytes (nodes (ldisk s)) q @ (if q = D @ [log_name today (writer s) now] then p else [])" by blast
  from Cons.IH [OF s'(2)] s'(1,3,4) show ?case by (auto simp: np)
qed simp

lemma sync_keeps_the_log:
  assumes "log_ready today D s"
  shows "run_state sync_log s = (Inr (), s)"
proof -
  note r = log_readyD [OF assms]
  have "live f" if "dw_file (writer s) = Some f" for f using assms that by (simp add: log_ready_def Let_def)
  with r(4) show ?thesis by (cases "dw_file (writer s)") (simp_all add: sync_log_def)
qed

definition demo_today :: "time \<Rightarrow> string" where
  "demo_today t = (if t < 10 then ''2026-01-01'' else ''2026-01-02'')"

definition demo_log :: log_state where
  "demo_log = \<lparr>writer = new_daily_file_writer ''logs/app.log'', ldisk = \<lparr>cwd = [''srv''], nodes = [([''srv''], Dir)], faults = []\<rparr>\<rparr>"

lemma demo_writer: "new_daily_file_writer ''logs/app.log'' = \<lparr>dw_dir = ''logs'', dw_base = ''app'', dw_ext = ''.log'', dw_file = None\<rparr>"
  by (simp add: new_daily_file_writer_def filepath_dir_def filepath_base_def filepath_ext_def filepath_clean_def is_rooted_def Let_def)

lemma demo_ready: "log_ready demo_today [''srv'', ''logs''] demo_log"
proof -
  have n: "node_at [([''srv''], Dir)] q = (if q = [] \<or> q = [''srv''] then Some Dir else None)" for q
    by (auto simp: node_at_def)
  have t: "tree_ok [([''srv''], Dir)]"
    by (auto simp: tree_ok_def n strict_prefix_def prefix_Cons split: if_splits list.splits)
  show ?thesis
    by (simp add: log_ready_def demo_log_def demo_writer Let_def demo_today_def plain_def locate_def is_rooted_def log_tree_def n t)
qed

end
