(* ===== verification/LogLevels.thy ===== *)
theory LogLevels
  imports Logger
begin

text \<open>
  The entries of the logger, \<open>internal/shared/logger/logger.go\<close>: \<open>Init\<close>, what the functions for each
  level make of an entry, and \<open>Sync\<close>. How \<open>zap\<close> encodes an entry for the console and for the file
  are two parameters.
\<close>

section \<open>The order of the levels\<close>

text \<open>The numbers that \<open>zap\<close> documents: a core takes the entries of its own level and above.\<close>

definition level_number :: "level \<Rightarrow> int" where
  "level_number l =
     (case l of DebugLevel \<Rightarrow> - 1 | InfoLevel \<Rightarrow> 0 | WarnLevel \<Rightarrow> 1 | ErrorLevel \<Rightarrow> 2 | FatalLevel \<Rightarrow> 5)"

lemma level_number_inject: "level_number a = level_number b \<longleftrightarrow> a = b"
  by (cases a; cases b) (simp_all add: level_number_def)

instantiation level :: linorder
begin

definition less_eq_level :: "level \<Rightarrow> level \<Rightarrow> bool" where
  "a \<le> b \<longleftrightarrow> level_number a \<le> level_number b"

definition less_level :: "level \<Rightarrow> level \<Rightarrow> bool" where
  "a < b \<longleftrightarrow> level_number a < level_number b"

instance
  by standard (auto simp: less_eq_level_def less_level_def level_number_inject)

end

lemma level_le_simps [simp]:
  "DebugLevel \<le> l" "l \<le> FatalLevel" "InfoLevel \<le> l \<longleftrightarrow> l \<noteq> DebugLevel" "WarnLevel \<le> l \<longleftrightarrow> l \<notin> {DebugLevel, InfoLevel}"
  "ErrorLevel \<le> l \<longleftrightarrow> l \<in> {ErrorLevel, FatalLevel}"
  by (cases l; simp add: less_eq_level_def level_number_def)+

text \<open>\<open>Init\<close> gives every entry that ends the program a place in every sink.\<close>

lemma parse_level_below_fatal: "parse_level lvl \<le> ErrorLevel"
  by (simp add: parse_level_def less_eq_level_def level_number_def)

section \<open>The logger\<close>

text \<open>
  The package variable \<open>log\<close>, nil before \<open>Init\<close>; what has been printed; the disk. A daily sink carries
  its writer with it.
\<close>

record logger =
  log_cores :: "(sink \<times> level) list option"
  console :: "byte list"
  log_disk :: disk

datatype log_end = NilLogger | Exit nat

text \<open>An entry: its level, the instant at which it is written, the message with its fields.\<close>

type_synonym 'e entry = "level \<times> time \<times> 'e"

definition Init :: "string \<Rightarrow> string \<Rightarrow> (logger, unit) state" where
  "Init lvl filePath = State (\<lambda>g. ((), g\<lparr>log_cores := Some (init_logger lvl filePath)\<rparr>))"

text \<open>
  Each core of the tee takes an entry or leaves it; what goes wrong in one of them does not
  concern the others, and the program is not told.
\<close>

fun write_cores ::
  "(time \<Rightarrow> string) \<Rightarrow> ('e entry \<Rightarrow> byte list) \<Rightarrow> ('e entry \<Rightarrow> byte list) \<Rightarrow> 'e entry \<Rightarrow> (sink \<times> level) list \<Rightarrow>
     byte list \<times> disk \<Rightarrow> (sink \<times> level) list \<times> byte list \<times> disk" where
  "write_cores today text json e [] (out, d) = ([], out, d)"
| "write_cores today text json e ((Stdout, l) # cs) (out, d) =
     (let (cs', od) = write_cores today text json e cs (if l \<le> fst e then out @ text e else out, d)
      in ((Stdout, l) # cs', od))"
| "write_cores today text json e ((Daily w, l) # cs) (out, d) =
     (let s = \<lparr>writer = w, ldisk = d\<rparr>;
          s' = (if l \<le> fst e then snd (run_state (write_log today (fst (snd e)) (json e)) s) else s);
          (cs', od) = write_cores today text json e cs (out, ldisk s')
      in ((Daily (writer s'), l) # cs', od))"

definition log_entry ::
  "(time \<Rightarrow> string) \<Rightarrow> ('e entry \<Rightarrow> byte list) \<Rightarrow> ('e entry \<Rightarrow> byte list) \<Rightarrow> 'e entry \<Rightarrow> (logger, log_end + unit) state" where
  "log_entry today text json e = State (\<lambda>g.
     case log_cores g of
       None \<Rightarrow> (Inl NilLogger, g)
     | Some cs \<Rightarrow>
         let (cs', out, d) = write_cores today text json e cs (console g, log_disk g)
         in (Inr (), g\<lparr>log_cores := Some cs', console := out, log_disk := d\<rparr>))"

text \<open>\<open>Debug\<close>, \<open>Info\<close>, \<open>Warn\<close> and \<open>Error\<close> return; \<open>Fatal\<close> leaves the program with status 1.\<close>

definition log_call ::
  "(time \<Rightarrow> string) \<Rightarrow> ('e entry \<Rightarrow> byte list) \<Rightarrow> ('e entry \<Rightarrow> byte list) \<Rightarrow> 'e entry \<Rightarrow> (logger, log_end + unit) state" where
  "log_call today text json e =
     on_error (log_entry today text json e) (\<lambda>x. ret (Inl x)) (\<lambda>_. ret (if fst e = FatalLevel then Inl (Exit 1) else Inr ()))"

fun sync_cores :: "(sink \<times> level) list \<Rightarrow> disk \<Rightarrow> (sink \<times> level) list \<times> disk" where
  "sync_cores [] d = ([], d)"
| "sync_cores ((Stdout, l) # cs) d = (let (cs', d') = sync_cores cs d in ((Stdout, l) # cs', d'))"
| "sync_cores ((Daily w, l) # cs) d =
     (let s' = snd (run_state sync_log \<lparr>writer = w, ldisk = d\<rparr>); (cs', d') = sync_cores cs (ldisk s')
      in ((Daily (writer s'), l) # cs', d'))"

text \<open>\<open>Sync\<close> throws the error away.\<close>

definition Sync :: "(logger, log_end + unit) state" where
  "Sync = State (\<lambda>g.
     case log_cores g of
       None \<Rightarrow> (Inl NilLogger, g)
     | Some cs \<Rightarrow> let (cs', d) = sync_cores cs (log_disk g) in (Inr (), g\<lparr>log_cores := Some cs', log_disk := d\<rparr>))"

text \<open>Calls one after the other, until one ends the program; then the entries are those up to that.\<close>

definition log_calls ::
  "(time \<Rightarrow> string) \<Rightarrow> ('e entry \<Rightarrow> byte list) \<Rightarrow> ('e entry \<Rightarrow> byte list) \<Rightarrow> 'e entry list \<Rightarrow> (logger, log_end + unit) state" where
  "log_calls today text json es = try_each es (log_call today text json)"

fun until_fatal :: "'e entry list \<Rightarrow> 'e entry list" where
  "until_fatal [] = []"
| "until_fatal (e # es) = e # (if fst e = FatalLevel then [] else until_fatal es)"

section \<open>What is kept\<close>

definition kept :: "level \<Rightarrow> 'e entry list \<Rightarrow> 'e entry list" where
  "kept l es = filter (\<lambda>e. l \<le> fst e) (until_fatal es)"

definition how_it_ends :: "'e entry list \<Rightarrow> log_end + unit" where
  "how_it_ends es = (if FatalLevel \<in> fst ` set es then Inl (Exit 1) else Inr ())"

lemma kept_simps [simp]:
  "kept l [] = []"
  "kept l (e # es) = (if l \<le> fst e then [e] else []) @ (if fst e = FatalLevel then [] else kept l es)"
  by (simp_all add: kept_def)

lemma how_it_ends_simps [simp]:
  "how_it_ends [] = Inr ()"
  "how_it_ends (e # es) = (if fst e = FatalLevel then Inl (Exit 1) else how_it_ends es)"
  by (auto simp: how_it_ends_def)

text \<open>The logger with a file and the one without.\<close>

definition file_logger :: "level \<Rightarrow> byte list \<Rightarrow> log_state \<Rightarrow> logger" where
  "file_logger l out s = \<lparr>log_cores = Some [(Stdout, l), (Daily (writer s), l)], console = out, log_disk = ldisk s\<rparr>"

definition console_logger :: "level \<Rightarrow> byte list \<Rightarrow> disk \<Rightarrow> logger" where
  "console_logger l out d = \<lparr>log_cores = Some [(Stdout, l)], console = out, log_disk = d\<rparr>"

lemma run_Init:
  assumes "filePath \<noteq> []"
  shows "run_state (Init lvl filePath) \<lparr>log_cores = c, console = out, log_disk = d\<rparr> =
    ((), file_logger (parse_level lvl) out \<lparr>writer = new_daily_file_writer filePath, ldisk = d\<rparr>)"
  using assms by (simp add: Init_def init_logger_def file_logger_def)

lemma run_Init_console:
  "run_state (Init lvl []) \<lparr>log_cores = c, console = out, log_disk = d\<rparr> = ((), console_logger (parse_level lvl) out d)"
  by (simp add: Init_def init_logger_def console_logger_def)

text \<open>The writes that the entries lead to.\<close>

definition writes :: "('e entry \<Rightarrow> byte list) \<Rightarrow> 'e entry list \<Rightarrow> (time \<times> byte list) list" where
  "writes json es = map (\<lambda>e. (fst (snd e), json e)) es"

lemma writes_of_the_day:
  "map snd (filter (\<lambda>(now, p). nm now = n) (writes json (filter (\<lambda>e. l \<le> fst e) es))) =
     map json (filter (\<lambda>(sev, now, _). l \<le> sev \<and> nm now = n) es)"
proof (induction es)
  case (Cons e es)
  then show ?case by (cases e) (simp add: writes_def)
qed (simp add: writes_def)

lemma log_state_eta [simp]: "\<lparr>writer = writer s, ldisk = ldisk s\<rparr> = s"
  by (cases s) simp

lemma run_log_entry:
  "run_state (log_entry today text json e) (file_logger l out s) =
     (Inr (), if l \<le> fst e then file_logger l (out @ text e) (snd (run_state (write_log today (fst (snd e)) (json e)) s))
              else file_logger l out s)"
  by (simp add: log_entry_def file_logger_def Let_def)

lemma run_log_entry_console:
  "run_state (log_entry today text json e) (console_logger l out d) =
     (Inr (), console_logger l (if l \<le> fst e then out @ text e else out) d)"
  by (simp add: log_entry_def console_logger_def)

lemma run_log_calls:
  "run_state (log_calls today text json es) (file_logger l out s) =
     (how_it_ends es, file_logger l (out @ concat (map text (kept l es))) (write_all today (writes json (kept l es)) s))"
  unfolding log_calls_def
proof (induction es arbitrary: out s)
  case (Cons e es)
  then show ?case by (cases "l \<le> fst e") (simp_all add: log_call_def run_log_entry writes_def)
qed (simp add: writes_def)

lemma run_log_calls_console:
  "run_state (log_calls today text json es) (console_logger l out d) =
     (how_it_ends es, console_logger l (out @ concat (map text (kept l es))) d)"
  unfolding log_calls_def
proof (induction es arbitrary: out)
  case (Cons e es)
  then show ?case by (simp add: log_call_def run_log_entry_console)
qed simp

text \<open>A call before \<open>Init\<close> is a panic.\<close>

lemma log_before_Init: "log_cores g = None \<Longrightarrow> run_state (log_calls today text json (e # es)) g = (Inl NilLogger, g)"
  by (simp add: log_calls_def log_call_def log_entry_def)

lemma Sync_keeps_the_log:
  assumes "log_ready today D s"
  shows "run_state Sync (file_logger l out s) = (Inr (), file_logger l out s)"
  using sync_keeps_the_log [OF assms] by (simp add: Sync_def file_logger_def Let_def)

text \<open>
  C28: after \<open>Init\<close> with a level and a file, the file of each day ends with exactly the entries of
  that day at or above the level, encoded once each and in order, up to the first entry that
  ends the program, which is in it; the console has the same entries of all days, and nothing
  below the level is anywhere. The program goes on exactly if there is no such entry. The
  disk must work and the log directory must be usable.
\<close>
theorem log_has_the_entries_at_its_level:
  assumes "filePath \<noteq> []" and "log_ready today D \<lparr>writer = new_daily_file_writer filePath, ldisk = d\<rparr>"
    and "run_state (do { Init lvl filePath; log_calls today text json es }) \<lparr>log_cores = None, console = out, log_disk = d\<rparr> = (r, g)"
  defines "nm \<equiv> log_name today (new_daily_file_writer filePath)"
  shows "file_bytes (nodes (log_disk g)) (D @ [nm t]) =
      file_bytes (nodes d) (D @ [nm t]) @
      concat (map json (filter (\<lambda>(sev, now, _). parse_level lvl \<le> sev \<and> nm now = nm t) (until_fatal es))) \<and>
    console g = out @ concat (map text (filter (\<lambda>(sev, _). parse_level lvl \<le> sev) (until_fatal es))) \<and>
    (r = Inr () \<longleftrightarrow> FatalLevel \<notin> fst ` set es)"
proof -
  let ?s = "\<lparr>writer = new_daily_file_writer filePath, ldisk = d\<rparr>" and ?k = "kept (parse_level lvl) es"
  have r: "r = how_it_ends es"
    and g: "g = file_logger (parse_level lvl) (out @ concat (map text ?k)) (write_all today (writes json ?k) ?s)"
    using assms(3) by (simp_all add: run_Init [OF assms(1)] run_log_calls)
  have k: "?k = filter (\<lambda>(sev, _). parse_level lvl \<le> sev) (until_fatal es)"
    unfolding kept_def by (rule filter_cong) auto
  have "file_bytes (nodes (log_disk g)) (D @ [nm t]) = file_bytes (nodes d) (D @ [nm t]) @
      concat (map json (filter (\<lambda>(sev, now, _). parse_level lvl \<le> sev \<and> nm now = nm t) (until_fatal es)))"
    using log_lines_in_the_file_of_their_day [OF assms(2), of "writes json ?k" t]
      writes_of_the_day [of nm "nm t" json "parse_level lvl" "until_fatal es"]
    by (simp only: nm_def g file_logger_def kept_def log_state.simps logger.simps)
  with r g k show ?thesis by (simp add: file_logger_def how_it_ends_def)
qed

theorem log_has_the_entries_at_its_level_witness:
  "\<exists>r g. run_state (do { Init ''warn'' ''logs/app.log'';
        log_calls demo_today (\<lambda>e. snd (snd e)) (\<lambda>e. snd (snd e))
          [(InfoLevel, 1, [64]), (ErrorLevel, 1, [65]), (WarnLevel, 20, [66]), (FatalLevel, 3, [67]), (ErrorLevel, 3, [68])] })
      \<lparr>log_cores = None, console = [], log_disk = ldisk demo_log\<rparr> = (r, g) \<and>
    file_bytes (nodes (log_disk g)) [''srv'', ''logs'', ''app-2026-01-01.log''] = [65, 67] \<and> console g = [65, 66, 67] \<and> r \<noteq> Inr ()"
proof -
  let ?es = "[(InfoLevel, 1, [64]), (ErrorLevel, 1, [65]), (WarnLevel, 20, [66]), (FatalLevel, 3, [67]), (ErrorLevel, 3, [68])] :: byte list entry list"
  obtain r g where run: "run_state (do { Init ''warn'' ''logs/app.log''; log_calls demo_today (\<lambda>e. snd (snd e)) (\<lambda>e. snd (snd e)) ?es })
      \<lparr>log_cores = None, console = [], log_disk = ldisk demo_log\<rparr> = (r, g)" by fastforce
  have ready: "log_ready demo_today [''srv'', ''logs''] \<lparr>writer = new_daily_file_writer ''logs/app.log'', ldisk = ldisk demo_log\<rparr>"
    using demo_ready by (simp add: demo_log_def)
  have lvl: "parse_level ''warn'' = WarnLevel" by (simp add: parse_level_def)
  from log_has_the_entries_at_its_level [OF _ ready run, of 1] run show ?thesis
    by (auto simp: lvl demo_log_def demo_writer demo_today_def file_bytes_def node_at_def)
qed

end
