(* ===== verification/Startup.thy ===== *)
theory Startup
  imports ServerProps Migrate Storage LogLevels
begin

text \<open>
  The start of the program, \<open>cmd/api/main.go\<close>, with the connections it opens,
  \<open>internal/database/postgres.go\<close> and \<open>redis.go\<close>: which steps are taken in which order,
  what ends the program, and what is in place when the server listens. The driver's and the
  client's own part of connecting, parsing a DSN, opening a pool, a ping, is a parameter.
\<close>

section \<open>Connections\<close>

record pool_config =
  conn_string :: string
  MaxConns :: int
  MinConns :: int
  MaxConnLifetime :: duration
  MaxConnIdleTime :: duration
  HealthCheckPeriod :: duration
  simple_protocol :: bool

text \<open>\<open>int32(n)\<close> of an \<open>int\<close> keeps the lower 32 bits.\<close>

definition to_int32 :: "int \<Rightarrow> int" where
  "to_int32 n = (n + 2 ^ 31) mod 2 ^ 32 - 2 ^ 31"

definition postgres_dsn :: "config \<Rightarrow> string" where
  "postgres_dsn cfg =
     (let host = DBHost cfg; port = (if UsePgBouncer cfg then PgBouncerPort cfg else DBPort cfg)
      in ''postgres://'' @ DBUser cfg @ '':'' @ DBPassword cfg @ ''@'' @ host @ '':'' @ port @ ''/'' @ DBName cfg @
         ''?sslmode='' @ DBSSLMode cfg)"

record drivers =
  parse_dsn :: "string \<Rightarrow> go_error + pool_config"
  open_pool :: "pool_config \<Rightarrow> go_error + unit"
  ping_pool :: "pool_config \<Rightarrow> go_error + unit"
  ping_redis :: "string \<Rightarrow> string \<Rightarrow> int \<Rightarrow> go_error + unit"

definition new_postgres_pool :: "drivers \<Rightarrow> config \<Rightarrow> go_error + pool_config" where
  "new_postgres_pool L cfg =
     (case parse_dsn L (postgres_dsn cfg) of
        Inl e \<Rightarrow> Inl e
      | Inr parsed \<Rightarrow>
          let sized = parsed\<lparr>MaxConns := to_int32 (DBMaxOpenConns cfg), MinConns := to_int32 (DBMaxIdleConns cfg),
                MaxConnLifetime := nsHour, MaxConnIdleTime := 30 * nsMinute, HealthCheckPeriod := 1 * nsMinute\<rparr>;
              pc = (if UsePgBouncer cfg then sized\<lparr>simple_protocol := True\<rparr> else sized)
          in (case open_pool L pc of
                Inl e \<Rightarrow> Inl e
              | Inr _ \<Rightarrow> (case ping_pool L pc of Inl e \<Rightarrow> Inl e | Inr _ \<Rightarrow> Inr pc)))"

text \<open>A client, or the value of the panic.\<close>

record redis_client =
  rc_addr :: string
  rc_password :: string
  rc_db :: int

definition new_redis_client :: "drivers \<Rightarrow> config \<Rightarrow> go_error + redis_client" where
  "new_redis_client L cfg =
     (let rdb = \<lparr>rc_addr = RedisHost cfg @ '':'' @ RedisPort cfg, rc_password = RedisPassword cfg, rc_db = RedisDB cfg\<rparr>
      in case ping_redis L (rc_addr rdb) (rc_password rdb) (rc_db rdb) of
           Inl e \<Rightarrow> Inl (Wrap ''Redis connection failed: '' e)
         | Inr _ \<Rightarrow> Inr rdb)"

section \<open>The steps of \<open>main\<close>\<close>

text \<open>
  A message with its fields, \<open>zap.String\<close> and \<open>zap.Error\<close>; what \<open>zap\<close> makes of it and the date of
  the time zone are parameters.
\<close>

datatype zap_field = StringField string string | ErrorField go_error

type_synonym message = "string \<times> zap_field list"

record encoders =
  date_of :: "time \<Rightarrow> string"
  console_line :: "message entry \<Rightarrow> byte list"
  json_line :: "message entry \<Rightarrow> byte list"

text \<open>
  What the program works on: the world of the services with the package variables, the
  database as the migrations see it, and the logger with the disk. A start ends with
  \<open>log.Fatalf\<close> or \<open>logger.Fatal\<close>, both of which exit with status 1, with a panic, or with a
  server that listens. \<open>log.Fatalf\<close> is the standard library's and writes to standard error only.
  What \<open>ListenAndServe\<close> makes of the socket comes after that.
\<close>

record ('r, 's) machine =
  mworld :: "'r world"
  mpg :: "'s pg"
  mlog :: logger

datatype ending = Fatal string go_error | Panic go_error

record server =
  srv_config :: config
  srv_pool :: pool_config
  srv_redis :: redis_client
  srv_store :: backend
  srv_addr :: string
  srv_timeouts :: "duration \<times> duration \<times> duration"

definition with_world :: "('r world, 'a) state \<Rightarrow> (('r, 's) machine, 'a) state" where
  "with_world m = State (\<lambda>s. let (a, w) = run_state m (mworld s) in (a, s\<lparr>mworld := w\<rparr>))"

definition with_pg :: "('s pg, 'a) state \<Rightarrow> (('r, 's) machine, 'a) state" where
  "with_pg m = State (\<lambda>s. let (a, p) = run_state m (mpg s) in (a, s\<lparr>mpg := p\<rparr>))"

definition with_log :: "(logger, 'a) state \<Rightarrow> (('r, 's) machine, 'a) state" where
  "with_log m = State (\<lambda>s. let (a, g) = run_state m (mlog s) in (a, s\<lparr>mlog := g\<rparr>))"

definition with_disk :: "(disk, 'a) state \<Rightarrow> (logger, 'a) state" where
  "with_disk m = State (\<lambda>g. let (a, d) = run_state m (log_disk g) in (a, g\<lparr>log_disk := d\<rparr>))"

text \<open>
  \<open>logger.Info\<close> and \<open>logger.Fatal\<close>. Both come after \<open>Init\<close>, so that a call does not end in the panic of
  a nil logger, and \<open>Fatal\<close> does not return.
\<close>

definition info :: "encoders \<Rightarrow> string \<Rightarrow> zap_field list \<Rightarrow> (('r, 's) machine, unit) state" where
  "info C msg fs = do {
     now \<leftarrow> read_state (\<lambda>s. clock (mworld s));
     _ \<leftarrow> with_log (log_call (date_of C) (console_line C) (json_line C) (InfoLevel, now, msg, fs));
     ret ()
   }"

definition fatal :: "encoders \<Rightarrow> string \<Rightarrow> go_error \<Rightarrow> (('r, 's) machine, ending + 'a) state" where
  "fatal C msg e = do {
     now \<leftarrow> read_state (\<lambda>s. clock (mworld s));
     _ \<leftarrow> with_log (log_call (date_of C) (console_line C) (json_line C) (FatalLevel, now, msg, [ErrorField e]));
     ret (Inl (Fatal msg e))
   }"

text \<open>A panic unwinds \<open>main\<close>, whose deferred \<open>logger.Sync\<close> runs.\<close>

definition panic :: "go_error \<Rightarrow> (('r, 's) machine, ending + 'a) state" where
  "panic e = do { _ \<leftarrow> with_log Sync; ret (Inl (Panic e)) }"

definition start_program ::
  "'r ext \<Rightarrow> encoders \<Rightarrow> drivers \<Rightarrow> key_io \<Rightarrow> (string \<Rightarrow> 's \<Rightarrow> db_error + 's) \<Rightarrow> (string \<times> string) list \<Rightarrow> viper \<Rightarrow>
     (('r, 's) machine, ending + server) state" where
  "start_program X C L K exec_sql files v =
     (case load_config v of
        Inl e \<Rightarrow> ret (Inl (Fatal ''Config load failed'' e))
      | Inr cfg \<Rightarrow> do {
          with_log (Init (LogLevel cfg) (LogFilePath cfg));
          info C ''starting application'' [StringField ''app'' (AppName cfg), StringField ''env'' (AppEnv cfg)];
          on_error (with_world (State (load_keys K (JWTPrivateKeyPath cfg) (JWTPublicKeyPath cfg))))
            (fatal C ''failed to load JWT keys'') (\<lambda>_.
          on_error (ret (new_postgres_pool L cfg)) (fatal C ''database connection failed'') (\<lambda>pc.
          on_error (with_pg (run_migrations exec_sql files)) (fatal C ''migration failed'') (\<lambda>_. do {
            info C ''migrations completed'' [];
            on_error (ret (new_redis_client L cfg)) panic (\<lambda>rdb.
            on_error (with_log (with_disk (new_from_config cfg))) (fatal C ''storage backend init failed'') (\<lambda>store. do {
              info C ''storage backend initialized'' [StringField ''driver'' (StorageDriver cfg)];
              with_world (seed_default_admin X cfg);
              info C ''server listening'' [StringField ''port'' (AppPort cfg)];
              ret (Inr \<lparr>srv_config = cfg, srv_pool = pc, srv_redis = rdb, srv_store = store,
                srv_addr = '':'' @ AppPort cfg, srv_timeouts = (15 * nsSecond, 15 * nsSecond, 60 * nsSecond)\<rparr>) }))}))) })"

text \<open>
  The goroutine of the server: when \<open>ListenAndServe\<close> returns an error, because the port is taken or
  the socket fails, the process ends, unless it is the error that a shutdown leads to.
\<close>

definition ErrServerClosed :: go_error where
  "ErrServerClosed = Ext ''http: Server closed''"

definition server_goroutine :: "go_error option \<Rightarrow> ending + unit" where
  "server_goroutine err =
     (case err of
        Some e \<Rightarrow> if e \<noteq> ErrServerClosed then Inl (Fatal ''server failed'' e) else Inr ()
      | None \<Rightarrow> Inr ())"

text \<open>
  The handler of the server that then listens is that of the router; the state that it
  starts with has no clients and no audit tasks.
\<close>

definition new_server :: "'r world \<Rightarrow> ('r, 'l) srv" where
  "new_server w = \<lparr>world = w, clients = [], audit_queue = [], request_log = [], ctx_user = None, ctx_email = None, out_headers = [],
     out_status = 200, out_body = None, out_gzip = False\<rparr>"

text \<open>
  After a signal \<open>Shutdown\<close> waits for the requests, for at most 30 seconds; then \<open>main\<close>
  returns, and with it the process ends, whatever its goroutines are doing. (The two lines that
  \<open>main\<close> logs on the way are left out.)
\<close>

definition stop_program :: "duration \<Rightarrow> ('r, 'l) srv \<Rightarrow> (ending + unit) \<times> audit_task list" where
  "stop_program busy s =
     (if busy < 30 * nsSecond then Inr () else Inl (Fatal ''server forced to shutdown'' (Ext ''context deadline exceeded'')),
      audit_queue s)"

section \<open>What a start leaves behind\<close>

lemma run_with [simp]:
  "run_state (with_world m) s = (fst (run_state m (mworld s)), s\<lparr>mworld := snd (run_state m (mworld s))\<rparr>)"
  "run_state (with_pg m') s = (fst (run_state m' (mpg s)), s\<lparr>mpg := snd (run_state m' (mpg s))\<rparr>)"
  "run_state (with_log m'') s = (fst (run_state m'' (mlog s)), s\<lparr>mlog := snd (run_state m'' (mlog s))\<rparr>)"
  "run_state (with_disk d) g = (fst (run_state d (log_disk g)), g\<lparr>log_disk := snd (run_state d (log_disk g))\<rparr>)"
  by (simp_all add: with_world_def with_pg_def with_log_def with_disk_def split: prod.splits)

text \<open>The logger after \<open>Init\<close>, and after some lines.\<close>

definition log_lines :: "encoders \<Rightarrow> message entry list \<Rightarrow> logger \<Rightarrow> logger" where
  "log_lines C es g = fold (\<lambda>e g. snd (run_state (log_call (date_of C) (console_line C) (json_line C) e) g)) es g"

definition init_log :: "config \<Rightarrow> logger \<Rightarrow> logger" where
  "init_log cfg g = snd (run_state (Init (LogLevel cfg) (LogFilePath cfg)) g)"

lemma log_lines_simps [simp]:
  "log_lines C [] g = g"
  "log_lines C (e # es) g = log_lines C es (snd (run_state (log_call (date_of C) (console_line C) (json_line C) e) g))"
  by (simp_all add: log_lines_def)

lemma log_lines_append [simp]: "log_lines C (xs @ ys) g = log_lines C ys (log_lines C xs g)"
  by (simp add: log_lines_def)

lemma run_info [simp]:
  "run_state (info C msg fs) s = ((), s\<lparr>mlog := log_lines C [(InfoLevel, clock (mworld s), msg, fs)] (mlog s)\<rparr>)"
  by (simp add: info_def)

lemma run_fatal [simp]:
  "run_state (fatal C msg e) s =
     (Inl (Fatal msg e), s\<lparr>mlog := log_lines C [(FatalLevel, clock (mworld s), msg, [ErrorField e])] (mlog s)\<rparr>)"
  by (simp add: fatal_def)

lemma run_panic [simp]: "run_state (panic e) s = (Inl (Panic e), s\<lparr>mlog := snd (run_state Sync (mlog s))\<rparr>)"
  by (simp add: panic_def)

text \<open>These are the calls whose effect on the file and the console \<open>LogLevels\<close> describes.\<close>

lemma log_lines_calls:
  assumes "log_cores g \<noteq> None" and "\<forall>e \<in> set (butlast es). fst e \<noteq> FatalLevel"
  shows "log_lines C es g = snd (run_state (log_calls (date_of C) (console_line C) (json_line C) es) g)"
  using assms
proof (induction es arbitrary: g)
  case (Cons e es)
  obtain cs where cs: "log_cores g = Some cs" using Cons.prems(1) by blast
  let ?g = "snd (run_state (log_call (date_of C) (console_line C) (json_line C) e) g)"
  have g: "log_cores ?g \<noteq> None" and r: "fst (run_state (log_call (date_of C) (console_line C) (json_line C) e) g) =
      (if fst e = FatalLevel then Inl (Exit 1) else Inr ())"
    using cs by (simp_all add: log_call_def log_entry_def split: prod.split)
  show ?case
  proof (cases "es = []")
    case True
    then show ?thesis using r by (cases "run_state (log_call (date_of C) (console_line C) (json_line C) e) g") (simp add: log_calls_def)
  next
    case False
    then have "fst e \<noteq> FatalLevel" "\<forall>e \<in> set (butlast es). fst e \<noteq> FatalLevel" using Cons.prems(2) by simp_all
    with Cons.IH [OF g] r show ?thesis
      by (cases "run_state (log_call (date_of C) (console_line C) (json_line C) e) g") (simp add: log_calls_def)
  qed
qed (simp add: log_calls_def)

lemma load_keys_frame:
  "load_keys K a b w = (r, w') \<Longrightarrow> db w' = db w \<and> tok_cache w' = tok_cache w \<and> sched w' = sched w \<and> clock w' = clock w"
  by (auto simp: load_keys_def Let_def split: sum.splits option.splits)

lemma seed_quiet: "state_io_rel quiet (seed_default_admin X cfg)"
proof -
  have perms: "state_io_rel quiet (create_permissions X bps)" for bps
    by (induction bps) (auto intro!: io_intros io_preorder_quiet simp: permission_create_def)
  show ?thesis
    unfolding seed_default_admin_def seed_permissions_def ensure_admin_role_def admin_repo_defs Let_def case_prod_beta
    by (intro io_intros io_preorder_quiet perms)+
qed

text \<open>The lines that every start writes first.\<close>

definition first_line :: "config \<Rightarrow> time \<Rightarrow> message entry" where
  "first_line cfg t = (InfoLevel, t, ''starting application'', [StringField ''app'' (AppName cfg), StringField ''env'' (AppEnv cfg)])"

definition migrated_line :: "time \<Rightarrow> message entry" where
  "migrated_line t = (InfoLevel, t, ''migrations completed'', [])"

definition logger_before_storage :: "encoders \<Rightarrow> config \<Rightarrow> time \<Rightarrow> logger \<Rightarrow> logger" where
  "logger_before_storage C cfg t g = log_lines C [first_line cfg t, migrated_line t] (init_log cfg g)"

lemmas start_defs = start_program_def first_line_def migrated_line_def logger_before_storage_def init_log_def

text \<open>The steps of a start that was successful, and where one that was not has stopped.\<close>

lemma start_program_listens:
  assumes "run_state (start_program X C L K exec_sql files v) m = (Inr sv, m')"
  shows "\<exists>cfg w1 p1.
    load_config v = Inr cfg \<and> load_keys K (JWTPrivateKeyPath cfg) (JWTPublicKeyPath cfg) (mworld m) = (Inr (), w1) \<and>
    new_postgres_pool L cfg = Inr (srv_pool sv) \<and> run_state (run_migrations exec_sql files) (mpg m) = (Inr (), p1) \<and>
    new_redis_client L cfg = Inr (srv_redis sv) \<and>
    fst (run_state (new_from_config cfg) (log_disk (logger_before_storage C cfg (clock (mworld m)) (mlog m)))) = Inr (srv_store sv) \<and>
    srv_config sv = cfg \<and> mworld m' = snd (run_state (seed_default_admin X cfg) w1) \<and> mpg m' = p1"
proof -
  let ?g = "\<lambda>cfg. logger_before_storage C cfg (clock (mworld m)) (mlog m)"
  from assms obtain cfg where cfg: "load_config v = Inr cfg" by (cases "load_config v") (auto simp: start_program_def)
  obtain rk w1 where k: "load_keys K (JWTPrivateKeyPath cfg) (JWTPublicKeyPath cfg) (mworld m) = (rk, w1)" by fastforce
  have t: "clock w1 = clock (mworld m)" using load_keys_frame [OF k] by blast
  from assms cfg k have rk: "rk = Inr ()" by (cases rk) (auto simp: start_program_def)
  obtain pc where pc: "new_postgres_pool L cfg = Inr pc"
    using assms cfg k rk by (cases "new_postgres_pool L cfg") (auto simp: start_program_def)
  obtain rm p1 where mg: "run_state (run_migrations exec_sql files) (mpg m) = (rm, p1)" by fastforce
  with assms cfg k rk pc have rm: "rm = Inr ()" by (cases rm) (auto simp: start_program_def)
  obtain rdb where rdb: "new_redis_client L cfg = Inr rdb"
    using assms cfg k rk pc mg rm by (cases "new_redis_client L cfg") (auto simp: start_program_def)
  obtain st where st: "fst (run_state (new_from_config cfg) (log_disk (?g cfg))) = Inr st"
    using assms cfg k rk pc mg rm rdb t
    by (cases "fst (run_state (new_from_config cfg) (log_disk (?g cfg)))") (auto simp: start_defs)
  have "mworld m' = snd (run_state (seed_default_admin X cfg) w1)" "mpg m' = p1"
    "srv_pool sv = pc" "srv_redis sv = rdb" "srv_store sv = st" "srv_config sv = cfg"
    using assms cfg k rk pc mg rm rdb st t by (auto simp: start_defs)
  with cfg k rk pc mg rm rdb st show ?thesis by blast
qed

text \<open>
  The logger has changed only by lines, and a \<open>Sync\<close>, after \<open>Init\<close>; what that does to the disk is
  said in \<open>LogLevels\<close>.
\<close>

definition only_logged :: "encoders \<Rightarrow> viper \<Rightarrow> logger \<Rightarrow> logger \<Rightarrow> bool" where
  "only_logged C v g g' \<longleftrightarrow> g' = g \<or> (\<exists>cfg es. load_config v = Inr cfg \<and>
     (g' = log_lines C es (init_log cfg g) \<or> g' = snd (run_state Sync (log_lines C es (init_log cfg g)))))"

lemma only_loggedI:
  "load_config v = Inr cfg \<Longrightarrow> only_logged C v g (log_lines C es (init_log cfg g))"
  "load_config v = Inr cfg \<Longrightarrow> only_logged C v g (snd (run_state Sync (log_lines C es (init_log cfg g))))"
  unfolding only_logged_def by blast+

text \<open>The reason of a \<open>logger.Fatal\<close> is the last thing that is logged.\<close>

definition reason_logged :: "encoders \<Rightarrow> time \<Rightarrow> ending \<Rightarrow> logger \<Rightarrow> bool" where
  "reason_logged C t e g' \<longleftrightarrow>
     (case e of Fatal msg err \<Rightarrow> \<exists>g. g' = log_lines C [(FatalLevel, t, msg, [ErrorField err])] g | Panic err \<Rightarrow> True)"

lemma reason_loggedI [simp]:
  "reason_logged C t (Fatal msg err) (snd (run_state (log_call (date_of C) (console_line C) (json_line C) (FatalLevel, t, msg, [ErrorField err])) g))"
  "reason_logged C t (Panic err) g"
  by (auto simp: reason_logged_def)

lemma start_program_stops:
  assumes "run_state (start_program X C L K exec_sql files v) m = (Inl e, m')"
  shows "db (mworld m') = db (mworld m) \<and>
    (mpg m' = mpg m \<or> mpg m' = snd (run_state (run_migrations exec_sql files) (mpg m))) \<and>
    (mpg m' \<noteq> mpg m \<longrightarrow> (\<exists>cfg w1 pc. load_config v = Inr cfg \<and>
       load_keys K (JWTPrivateKeyPath cfg) (JWTPublicKeyPath cfg) (mworld m) = (Inr (), w1) \<and> new_postgres_pool L cfg = Inr pc)) \<and>
    (\<not> only_logged C v (mlog m) (mlog m') \<longrightarrow> (\<exists>cfg p1 rdb. load_config v = Inr cfg \<and>
       run_state (run_migrations exec_sql files) (mpg m) = (Inr (), p1) \<and> new_redis_client L cfg = Inr rdb)) \<and>
    ((\<exists>cfg. load_config v = Inr cfg) \<longrightarrow> reason_logged C (clock (mworld m)) e (mlog m'))"
proof (cases "load_config v")
  case (Inl err)
  with assms show ?thesis by (auto simp: start_program_def only_logged_def)
next
  case cfg: (Inr cfg)
  let ?t = "clock (mworld m)"
  note logs = only_loggedI [OF cfg, of C "mlog m"]
  obtain rk w1 where k: "load_keys K (JWTPrivateKeyPath cfg) (JWTPublicKeyPath cfg) (mworld m) = (rk, w1)" by fastforce
  note frame = load_keys_frame [OF k]
  show ?thesis
  proof (cases rk)
    case (Inl err)
    with assms cfg k frame logs(1) [of "[first_line cfg ?t, (FatalLevel, ?t, ''failed to load JWT keys'', [ErrorField err])]"]
    show ?thesis by (auto simp: start_defs)
  next
    case rk: (Inr u)
    show ?thesis
    proof (cases "new_postgres_pool L cfg")
      case (Inl err)
      with assms cfg k rk frame logs(1) [of "[first_line cfg ?t, (FatalLevel, ?t, ''database connection failed'', [ErrorField err])]"]
      show ?thesis by (auto simp: start_defs)
    next
      case pc: (Inr pc)
      obtain rm p1 where mg: "run_state (run_migrations exec_sql files) (mpg m) = (rm, p1)" by fastforce
      show ?thesis
      proof (cases rm)
        case (Inl err)
        with assms cfg k rk pc mg frame logs(1) [of "[first_line cfg ?t, (FatalLevel, ?t, ''migration failed'', [ErrorField err])]"]
        show ?thesis by (auto simp: start_defs)
      next
        case rm: (Inr u)
        show ?thesis
        proof (cases "new_redis_client L cfg")
          case (Inl err)
          with assms cfg k rk pc mg rm frame logs(2) [of "[first_line cfg ?t, migrated_line ?t]"]
          show ?thesis by (auto simp: start_defs)
        next
          case (Inr rdb)
          with assms cfg k rk pc mg rm frame show ?thesis
            by (cases "fst (run_state (new_from_config cfg) (log_disk (logger_before_storage C cfg ?t (mlog m))))") (auto simp: start_defs)
        qed
      qed
    qed
  qed
qed

section \<open>Properties\<close>

text \<open>
  C29: the server listens only when everything it needs is in place: a configuration with
  usable values, both keys, a pool and a Redis client that answered, every migration of the
  binary recorded and the schema what they make of it, a storage backend of a supported
  driver. A start that stops earlier creates no account; it touches the schema only once the
  configuration, the keys and the pool were fine; until the migrations succeeded and Redis
  answered it changes the disk and the console only by lines of the log; and with a usable
  configuration the last of these says why it stopped, unless it ends in a panic.
\<close>
theorem server_listens_when_ready:
  assumes "distinct (map (\<lambda>f. extract_version (fst f)) files)" and "migrated exec_sql files s0 (mpg m)"
    and "run_state (start_program X C L K exec_sql files v) m = (r, m')"
  shows "migrated exec_sql files s0 (mpg m') \<and>
    (case r of
       Inr sv \<Rightarrow> load_config v = Inr (srv_config sv) \<and> config_ok (srv_config sv) \<and>
         private_key (mworld m') \<noteq> None \<and> public_key (mworld m') \<noteq> None \<and>
         new_postgres_pool L (srv_config sv) = Inr (srv_pool sv) \<and> new_redis_client L (srv_config sv) = Inr (srv_redis sv) \<and>
         (\<forall>f \<in> set files. extract_version (fst f) \<in> set (recorded (mpg m'))) \<and>
         StorageDriver (srv_config sv) \<in> {''local'', ''s3'', ''r2''}
     | Inl e \<Rightarrow> db (mworld m') = db (mworld m) \<and>
         (mpg m' \<noteq> mpg m \<longrightarrow> (\<exists>cfg w1 pc. load_config v = Inr cfg \<and>
            load_keys K (JWTPrivateKeyPath cfg) (JWTPublicKeyPath cfg) (mworld m) = (Inr (), w1) \<and>
            new_postgres_pool L cfg = Inr pc)) \<and>
         (\<not> only_logged C v (mlog m) (mlog m') \<longrightarrow> (\<exists>cfg p1 rdb. load_config v = Inr cfg \<and>
            run_state (run_migrations exec_sql files) (mpg m) = (Inr (), p1) \<and> new_redis_client L cfg = Inr rdb)) \<and>
         ((\<exists>cfg. load_config v = Inr cfg) \<longrightarrow> reason_logged C (clock (mworld m)) e (mlog m')))"
proof -
  have step: "migrated exec_sql files s0 (snd (run_state (run_migrations exec_sql files) (mpg m)))"
    using run_migrations_outcome [OF assms(1,2)] by (metis prod.collapse)
  show ?thesis
  proof (cases r)
    case (Inl e)
    have "migrated exec_sql files s0 (mpg m')"
      using start_program_stops [OF assms(3) [unfolded Inl]] assms(2) step by metis
    with start_program_stops [OF assms(3) [unfolded Inl]] show ?thesis unfolding Inl sum.case by blast
  next
    case (Inr sv)
    with assms(3) obtain cfg w1 p1 where s: "load_config v = Inr cfg"
        "load_keys K (JWTPrivateKeyPath cfg) (JWTPublicKeyPath cfg) (mworld m) = (Inr (), w1)"
        "new_postgres_pool L cfg = Inr (srv_pool sv)" "run_state (run_migrations exec_sql files) (mpg m) = (Inr (), p1)"
        "new_redis_client L cfg = Inr (srv_redis sv)"
        "fst (run_state (new_from_config cfg) (log_disk (logger_before_storage C cfg (clock (mworld m)) (mlog m)))) = Inr (srv_store sv)"
        "srv_config sv = cfg" "mworld m' = snd (run_state (seed_default_admin X cfg) w1)" "mpg m' = p1"
      using start_program_listens [of X C L K exec_sql files v m sv m'] by auto
    have "config_ok cfg" using load_config_ok [of v] s(1) by simp
    moreover have "private_key (mworld m') \<noteq> None" "public_key (mworld m') \<noteq> None"
      using load_keys_sets_both [OF s(2)] seed_quiet [of X cfg] by (simp_all add: s(8) state_io_rel_def quiet_def)
    moreover have "StorageDriver cfg \<in> {''local'', ''s3'', ''r2''}"
      using s(6) by (auto simp: new_from_config_def split: if_splits)
    moreover have "\<forall>f \<in> set files. extract_version (fst f) \<in> set (recorded p1)"
      using run_migrations_outcome [OF assms(1,2) s(4)] by blast
    ultimately show ?thesis using Inr s(1,3,5,7,9) step [unfolded s(4)] by simp
  qed
qed

text \<open>
  The whole life of the program. From consistent tables, a start that reaches the point
  where the server listens, and any sequence of requests, audit tasks and background work
  after it, under any schedule of failing calls, the tables are consistent, the token cache
  is well formed and within its size, and the audit queue has at most a thousand tasks.
\<close>
lemma program_keeps_the_tables_consistent:
  assumes "services X view" and "matcher_ok E" and "0 \<le> lat" and "0 \<le> ttl"
    and "db_ok (db (mworld m))" and "tok_cache (mworld m) = new_token_cache ttl n"
    and "\<forall>(oc, dt) \<in> set (sched (mworld m)). int dt \<le> lat"
    and "run_state (start_program X C L K exec_sql files v) m = (Inr sv, m')"
    and "server_reachable X (srv_config sv) E lat (new_server (mworld m')) s"
  shows "db_ok (db (world s)) \<and> cache_wf (tok_cache (world s)) \<and> length (audit_queue s) \<le> 1000"
proof -
  from start_program_listens [OF assms(8)] obtain cfg w1 where
      k: "load_keys K (JWTPrivateKeyPath cfg) (JWTPublicKeyPath cfg) (mworld m) = (Inr (), w1)"
    and w: "mworld m' = snd (run_state (seed_default_admin X cfg) w1)" by blast
  note f = load_keys_frame [OF k]
  have "db_ok (db (mworld m'))" using on_db_okD [OF seed_ok, of w1 X cfg] f assms(5) by (simp add: w)
  moreover have q: "quiet w1 (mworld m')" using seed_quiet [of X cfg] by (simp add: w state_io_rel_def)
  then have "tok_cache (mworld m') = new_token_cache ttl n" "set (sched (mworld m')) \<subseteq> set (sched (mworld m))"
    using f assms(6) by (auto simp: quiet_def)
  ultimately have "server_inv X lat (new_server (mworld m'))"
    using assms(3,4,7) by (auto simp: server_inv_def cache_sound_def tame_def new_token_cache_def cache_read_def
        cache_wf_def cache_keys_def new_server_def)
  from server_reachable_inv [OF assms(1,2) this assms(9)] show ?thesis
    by (simp add: server_inv_def tame_def audit_buffer_def)
qed

section \<open>A start\<close>

definition demo_viper :: viper where
  "demo_viper = bare_viper\<lparr>GetString := (\<lambda>k. if k = ''STORAGE_DRIVER'' then ''s3'' else GetString bare_viper k)\<rparr>"

definition demo_drivers :: drivers where
  "demo_drivers = \<lparr>parse_dsn = (\<lambda>s. Inr \<lparr>conn_string = s, MaxConns = 4, MinConns = 0, MaxConnLifetime = 0, MaxConnIdleTime = 0,
     HealthCheckPeriod = 0, simple_protocol = False\<rparr>), open_pool = (\<lambda>_. Inr ()), ping_pool = (\<lambda>_. Inr ()),
     ping_redis = (\<lambda>_ _ _. Inr ())\<rparr>"

definition demo_keys :: key_io where
  "demo_keys = \<lparr>read_file = (\<lambda>p. Inr p), pem_decode = Some, parse_pkcs8 = (\<lambda>k. Inr (RSAKey k)),
     parse_pkcs1 = (\<lambda>_. Inl (Ext ''asn1'')), parse_pkix = (\<lambda>k. Inr (RSAKey k))\<rparr>"

definition demo_machine :: "(mem_store, string list) machine" where
  "demo_machine = \<lparr>mworld = demo_world demo_db 0, mpg = \<lparr>migration_rows = None, schema = [], answers = []\<rparr>,
     mlog = \<lparr>log_cores = None, console = [], log_disk = demo_disk\<rparr>\<rparr>"

definition demo_encoders :: encoders where
  "demo_encoders = \<lparr>date_of = demo_today, console_line = (\<lambda>e. [67]), json_line = (\<lambda>e. [74])\<rparr>"

abbreviation demo_start :: "((mem_store, string list) machine, ending + server) state" where
  "demo_start \<equiv> start_program (demo_ext []) demo_encoders demo_drivers demo_keys (\<lambda>sql s. Inr (s @ [sql])) [] demo_viper"

lemma demo_listens: "\<exists>sv m'. run_state demo_start demo_machine = (Inr sv, m')"
proof -
  let ?cfg = "default_body_size (default_bouncer_port (default_sessions (read_config demo_viper)))"
  have cfg: "load_config demo_viper = Inr ?cfg"
    by (simp add: load_config_def Let_def default_fields demo_viper_def bare_viper_def)
  have driver: "StorageDriver ?cfg = ''s3''"
    by (simp add: default_body_size_def default_bouncer_port_def default_sessions_def read_config_def demo_viper_def)
  have keys: "\<exists>w1. load_keys demo_keys a b w = (Inr (), w1)" for a b and w :: "mem_store world"
    by (simp add: load_keys_def load_private_def load_public_def demo_keys_def)
  then obtain w1 where w1: "load_keys demo_keys (JWTPrivateKeyPath ?cfg) (JWTPublicKeyPath ?cfg) (demo_world demo_db 0) = (Inr (), w1)"
    by blast
  have pool: "\<exists>pc. new_postgres_pool demo_drivers c = Inr pc" for c
    by (simp add: new_postgres_pool_def demo_drivers_def Let_def)
  then obtain pc where pc: "new_postgres_pool demo_drivers ?cfg = Inr pc" by blast
  obtain rdb where rdb: "new_redis_client demo_drivers ?cfg = Inr rdb"
    by (simp add: new_redis_client_def demo_drivers_def Let_def)
  show ?thesis
    using cfg driver w1 pc rdb
    by (simp add: start_program_def demo_machine_def run_migrations_def create_migrations_table_def new_from_config_def)
qed

theorem server_listens_when_ready_witness:
  "\<exists>sv m'. run_state demo_start demo_machine = (Inr sv, m') \<and> config_ok (srv_config sv) \<and>
     private_key (mworld m') \<noteq> None \<and> public_key (mworld m') \<noteq> None"
proof -
  obtain sv m' where run: "run_state demo_start demo_machine = (Inr sv, m')" using demo_listens by blast
  have "migrated (\<lambda>sql s. Inr (s @ [sql])) [] [] (mpg demo_machine)"
    by (simp add: migrated_def recorded_def demo_machine_def)
  from server_listens_when_ready [OF _ this run] run show ?thesis by auto
qed

section \<open>Observations\<close>

text \<open>
  The DSN is put together without escaping: an \<open>@\<close> or a \<open>/\<close> in the password moves the
  border between password and host, so that different settings give the same text.
\<close>

lemma dsn_is_ambiguous:
  "postgres_dsn (cfg\<lparr>UsePgBouncer := False, DBPassword := ''a@b'', DBHost := ''c''\<rparr>) =
   postgres_dsn (cfg\<lparr>UsePgBouncer := False, DBPassword := ''a'', DBHost := ''b@c''\<rparr>)"
  by (simp add: postgres_dsn_def)

text \<open>
  The end of \<open>main\<close> does not shut the worker pool down: the audit tasks that are queued at
  that moment are never run, however long the requests took.
\<close>

lemma stop_discards_audit_tasks: "snd (stop_program busy s) = audit_queue s"
  by (simp add: stop_program_def)

end
