(* ===== verification/Throttle.thy ===== *)
theory Throttle
  imports Complex_Main AuthGuard
begin

text \<open>
  The throttle over time: how many requests of one client it lets through, with other clients in
  between and with the clean-up of idle limiters, which forgets what a client has used.
\<close>

section \<open>Token buckets\<close>

text \<open>
  What \<open>golang.org/x/time/rate\<close> documents: a bucket of \<open>burst\<close> tokens, full at first, that is
  refilled at \<open>rate\<close> tokens per nanosecond; \<open>Allow\<close> takes a token if there is one.
  \<open>level l t\<close> is what a bucket holds at the instant \<open>t\<close>.
\<close>

locale token_bucket =
  fixes L :: "('l, 'q) rate_ops" and q :: 'q and rate :: rat and burst :: int and level :: "'l \<Rightarrow> time \<Rightarrow> rat"
  assumes full: "level (rl_new L q burst) t = of_int burst"
    and refill: "t \<le> t' \<Longrightarrow> level l t' = min (of_int burst) (level l t + rate * of_int (t' - t))"
    and allow: "rl_allow L t l = (ok, l') \<Longrightarrow> (ok \<longleftrightarrow> 1 \<le> level l t) \<and> level l' t = level l t - (if ok then 1 else 0)"
    and rate_nonneg: "0 \<le> rate" and burst_nonneg: "0 \<le> burst"

section \<open>Events\<close>

text \<open>
  Requests, passes of the clean-up loop, and time that goes by. The loop compares \<open>lastSeen\<close> and
  deletes the entry in two steps: \<open>Cleanup\<close> is a pass in which no request comes between the two,
  \<open>Forget\<close> a \<open>Delete\<close> by itself, of which nothing is assumed, so that it may come any time after
  its comparison. A request finds its limiter and asks it in one step.
\<close>

datatype event = Request request | Cleanup | Forget string | Elapse duration

definition throttle_event ::
  "('l, 'q) rate_ops \<Rightarrow> int \<Rightarrow> 'q \<Rightarrow> event \<Rightarrow> ('r, 'l) srv \<Rightarrow> ('r, 'l) srv" where
  "throttle_event L burst q e s =
     (case e of
        Request rq \<Rightarrow> snd (run_state (throttle L burst q rq (respond_status 200)) (s\<lparr>out_status := 0\<rparr>))
      | Cleanup \<Rightarrow> s\<lparr>clients := cleanup_idle (clock (world s)) (clients s)\<rparr>
      | Forget k \<Rightarrow> s\<lparr>clients := AList.delete k (clients s)\<rparr>
      | Elapse dt \<Rightarrow> s\<lparr>world := (world s)\<lparr>clock := clock (world s) + dt\<rparr>\<rparr>)"

text \<open>The requests of the client \<open>key\<close> that pass, and the time that goes by.\<close>

fun let_through :: "('l, 'q) rate_ops \<Rightarrow> int \<Rightarrow> 'q \<Rightarrow> string \<Rightarrow> event list \<Rightarrow> ('r, 'l) srv \<Rightarrow> nat" where
  "let_through L burst q key [] s = 0"
| "let_through L burst q key (e # es) s =
     (let s1 = throttle_event L burst q e s
      in (case e of Request rq \<Rightarrow> if key_for_request rq = key \<and> out_status s1 = 200 then 1 else 0 | _ \<Rightarrow> 0) +
         let_through L burst q key es s1)"

definition elapsed :: "event list \<Rightarrow> duration" where
  "elapsed es = sum_list (map (\<lambda>e. case e of Elapse dt \<Rightarrow> dt | _ \<Rightarrow> 0) es)"

lemma elapsed_simps [simp]:
  "elapsed [] = 0" "elapsed (Elapse dt # es) = dt + elapsed es" "elapsed (Request rq # es) = elapsed es"
  "elapsed (Cleanup # es) = elapsed es" "elapsed (Forget k # es) = elapsed es"
  by (simp_all add: elapsed_def)

text \<open>How often the entry of the client may have been deleted.\<close>

definition resets :: "string \<Rightarrow> event list \<Rightarrow> nat" where
  "resets key es = length (filter (\<lambda>e. e = Cleanup \<or> e = Forget key) es)"

section \<open>The tokens of a client\<close>

definition used_at :: "time \<Rightarrow> ('l \<Rightarrow> time \<Rightarrow> rat) \<Rightarrow> 'l ip_limiter \<Rightarrow> bool" where
  "used_at now level e \<longleftrightarrow> (\<exists>t \<le> now. unix_seconds t = il_seen e \<and> 0 \<le> level (il_limiter e) t)"

definition tokens_of :: "('l \<Rightarrow> time \<Rightarrow> rat) \<Rightarrow> int \<Rightarrow> string \<Rightarrow> ('r, 'l) srv \<Rightarrow> rat" where
  "tokens_of level burst key s =
     (case map_of (clients s) key of None \<Rightarrow> of_int burst | Some e \<Rightarrow> level (il_limiter e) (clock (world s)))"

definition throttle_ok :: "('l \<Rightarrow> time \<Rightarrow> rat) \<Rightarrow> string \<Rightarrow> ('r, 'l) srv \<Rightarrow> bool" where
  "throttle_ok level key s \<longleftrightarrow> distinct (map fst (clients s)) \<and>
     (\<forall>e. map_of (clients s) key = Some e \<longrightarrow> used_at (clock (world s)) level e)"

text \<open>One request: the entry of its client is found or made, and its bucket asked.\<close>

lemma throttle_request:
  fixes s :: "('r, 'l) srv"
  assumes "s1 = throttle_event L burst q (Request rq) s"
  defines "now \<equiv> clock (world s)"
  defines "l \<equiv> (case map_of (clients s) (key_for_request rq) of None \<Rightarrow> rl_new L q burst | Some e \<Rightarrow> il_limiter e)"
  shows "world s1 = world s \<and> (out_status s1 = 200 \<longleftrightarrow> fst (rl_allow L now l)) \<and>
    map_of (clients s1) = (map_of (clients s))(key_for_request rq \<mapsto>
      \<lparr>il_limiter = snd (rl_allow L now l), il_seen = unix_seconds now\<rparr>) \<and>
    (distinct (map fst (clients s)) \<longrightarrow> distinct (map fst (clients s1)))"
proof -
  obtain ok l' where a: "rl_allow L now l = (ok, l')" by fastforce
  let ?k = "key_for_request rq"
  let ?e = "(case map_of (clients s) ?k of None \<Rightarrow> \<lparr>il_limiter = rl_new L q burst, il_seen = unix_seconds now\<rparr> | Some e \<Rightarrow> e)"
  have l: "il_limiter ?e = l" by (simp add: l_def split: option.split)
  have "clients s1 = AList.map_entry ?k (\<lambda>e. e\<lparr>il_limiter := l'\<rparr>) (AList.update ?k (?e\<lparr>il_seen := unix_seconds now\<rparr>) (clients s))"
    "world s1 = world s" "out_status s1 = (if ok then 200 else 429)"
    using a l unfolding assms(1) throttle_event_def
    by (cases "map_of (clients s) ?k"; simp add: throttle_def get_limiter_def put_limiter_def now_def Let_def)+
  then show ?thesis using a l
    by (simp add: update_conv' AList.map_of_map_entry fun_eq_iff distinct_update AList.distinct_map_entry)
qed

lemma map_of_cleanup:
  "distinct (map fst cs) \<Longrightarrow> map_of (cleanup_idle now cs) k =
     (case map_of cs k of None \<Rightarrow> None | Some e \<Rightarrow> if 600 < unix_seconds now - il_seen e then None else Some e)"
  unfolding cleanup_idle_def
  by (induction cs) (auto split: option.split simp: map_of_eq_None_iff image_iff)

lemma cleanup_distinct: "distinct (map fst cs) \<Longrightarrow> distinct (map fst (cleanup_idle now cs))"
  by (simp add: cleanup_idle_def distinct_map_filter)

lemma idle_time: "600 < unix_seconds now - unix_seconds t \<Longrightarrow> 600 * nsSecond < now - t"
proof -
  assume a: "600 < unix_seconds now - unix_seconds t"
  have "unix_seconds now * nsSecond \<le> now" "t < (unix_seconds t + 1) * nsSecond"
    by (simp_all add: unix_seconds_def nsSecond_def)
  moreover have "(unix_seconds t + 601) * nsSecond \<le> unix_seconds now * nsSecond"
    using a by (intro mult_right_mono) (simp_all add: nsSecond_def)
  ultimately show ?thesis by (simp add: algebra_simps nsSecond_def)
qed

definition passes_of :: "string \<Rightarrow> event \<Rightarrow> ('r, 'l) srv \<Rightarrow> nat" where
  "passes_of key e s1 = (case e of Request rq \<Rightarrow> if key_for_request rq = key \<and> out_status s1 = 200 then 1 else 0 | _ \<Rightarrow> 0)"

text \<open>
  What an event may add to the tokens of a client besides the refill: a burst where its entry is
  deleted. If an idle bucket is full again before the clean-up loop forgets it, \<open>refills\<close>, a pass
  that nothing disturbs adds nothing.
\<close>

definition bonus :: "bool \<Rightarrow> int \<Rightarrow> string \<Rightarrow> event \<Rightarrow> rat" where
  "bonus refills burst key e = (if e = Forget key \<or> e = Cleanup \<and> \<not> refills then of_int burst else 0)"

lemma bonus_resets: "sum_list (map (bonus False burst key) es) = of_int burst * of_nat (resets key es)"
  by (induction es) (simp_all add: bonus_def resets_def algebra_simps)

lemma bonus_none: "Forget key \<notin> set es \<Longrightarrow> sum_list (map (bonus True burst key) es) = 0"
  by (induction es) (auto simp: bonus_def)

context token_bucket
begin

lemma used_level: "used_at now level e \<Longrightarrow> 0 \<le> level (il_limiter e) now"
proof -
  assume "used_at now level e"
  then obtain t where "t \<le> now" "0 \<le> level (il_limiter e) t" by (auto simp: used_at_def)
  then show ?thesis using refill [of t now "il_limiter e"] rate_nonneg burst_nonneg by simp
qed

lemma tokens_nonneg: "throttle_ok level key s \<Longrightarrow> 0 \<le> tokens_of level burst key s"
  using used_level burst_nonneg by (auto simp: throttle_ok_def tokens_of_def split: option.split)

lemma tokens_most: "tokens_of level burst key s \<le> of_int burst"
  using refill [of "clock (world s)" "clock (world s)"] by (auto simp: tokens_of_def split: option.split) (metis min.cobounded1)

text \<open>An idle bucket is full again before it is forgotten, if it fills within ten minutes.\<close>

lemma idle_full:
  assumes "of_int burst \<le> rate * of_int (600 * nsSecond)" and "used_at now level e" and "600 < unix_seconds now - il_seen e"
  shows "level (il_limiter e) now = of_int burst"
proof -
  from assms(2) obtain t where t: "t \<le> now" "unix_seconds t = il_seen e" "0 \<le> level (il_limiter e) t" by (auto simp: used_at_def)
  then have "600 * nsSecond \<le> now - t" using idle_time [of now t] assms(3) by simp
  then have "rate * of_int (600 * nsSecond) \<le> rate * of_int (now - t)"
    using rate_nonneg by (intro mult_left_mono) (simp_all only: of_int_le_iff)
  with assms(1) t(3) have "of_int burst \<le> level (il_limiter e) t + rate * of_int (now - t)" by linarith
  with refill [OF t(1), of "il_limiter e"] show ?thesis by simp
qed

lemma event_tokens:
  fixes s :: "('r, 'l) srv"
  assumes "refills \<Longrightarrow> of_int burst \<le> rate * of_int (600 * nsSecond)" and "throttle_ok level key s" and "\<And>dt. e = Elapse dt \<Longrightarrow> 0 \<le> dt"
    and "s1 = throttle_event L burst q e s"
  shows "throttle_ok level key s1 \<and>
    of_nat (passes_of key e s1) + tokens_of level burst key s1 \<le>
      tokens_of level burst key s + rate * of_int (elapsed [e]) + bonus refills burst key e"
proof (cases e)
  case (Request rq)
  let ?now = "clock (world s)" and ?k = "key_for_request rq"
  define l where "l = (case map_of (clients s) ?k of None \<Rightarrow> rl_new L q burst | Some e \<Rightarrow> il_limiter e)"
  obtain ok l' where a: "rl_allow L ?now l = (ok, l')" by fastforce
  note r = throttle_request [of s1 L burst q rq s, folded l_def, OF assms(4) [unfolded Request], unfolded a fst_conv snd_conv]
  show ?thesis
  proof (cases "?k = key")
    case False
    then have "map_of (clients s1) key = map_of (clients s) key" using r by simp
    with False r assms(2) show ?thesis
      by (simp add: Request throttle_ok_def tokens_of_def passes_of_def bonus_def split: option.split)
  next
    case True
    have lev: "level l ?now = tokens_of level burst key s"
      by (simp add: l_def tokens_of_def True full split: option.split)
    then have pos: "0 \<le> level l ?now" using tokens_nonneg [OF assms(2)] by simp
    note al = allow [OF a]
    have "used_at ?now level \<lparr>il_limiter = l', il_seen = unix_seconds ?now\<rparr>"
      unfolding used_at_def using al pos by (intro exI [of _ ?now]) auto
    moreover have "map_of (clients s1) key = Some \<lparr>il_limiter = l', il_seen = unix_seconds ?now\<rparr>" using r True by simp
    ultimately show ?thesis using r True al lev assms(2)
      by (auto simp: Request throttle_ok_def tokens_of_def passes_of_def bonus_def)
  qed
next
  case Cleanup
  have s1: "world s1 = world s" "clients s1 = cleanup_idle (clock (world s)) (clients s)"
    by (simp_all add: assms(4) Cleanup throttle_event_def)
  have d: "distinct (map fst (clients s))" using assms(2) by (simp add: throttle_ok_def)
  have u: "used_at (clock (world s)) level e" if "map_of (clients s) key = Some e" for e
    using assms(2) that by (simp add: throttle_ok_def)
  have m: "map_of (clients s1) key = (case map_of (clients s) key of None \<Rightarrow> None
      | Some e \<Rightarrow> if 600 < unix_seconds (clock (world s)) - il_seen e then None else Some e)"
    using map_of_cleanup [OF d] by (simp add: s1)
  have "throttle_ok level key s1"
    using m u cleanup_distinct [OF d] by (auto simp: s1 throttle_ok_def split: option.splits if_splits)
  moreover have "tokens_of level burst key s1 \<le> tokens_of level burst key s + bonus refills burst key Cleanup"
  proof (cases refills)
    case True
    then show ?thesis using m u idle_full [OF assms(1)]
      by (auto simp: s1 tokens_of_def bonus_def split: option.split if_splits)
  next
    case False
    then show ?thesis using tokens_most [of key s1] tokens_nonneg [OF assms(2)] by (simp add: bonus_def)
  qed
  ultimately show ?thesis by (simp add: Cleanup passes_of_def)
next
  case (Forget k)
  have s1: "world s1 = world s" "clients s1 = AList.delete k (clients s)"
    by (simp_all add: assms(4) Forget throttle_event_def)
  then have "throttle_ok level key s1"
    using assms(2) by (auto simp: throttle_ok_def AList.delete_conv' distinct_delete)
  moreover have "tokens_of level burst key s1 \<le> tokens_of level burst key s + bonus refills burst key (Forget k)"
  proof (cases "k = key")
    case True
    then show ?thesis using tokens_most [of key s1] tokens_nonneg [OF assms(2)] by (simp add: bonus_def)
  next
    case False
    then show ?thesis by (simp add: s1 tokens_of_def bonus_def AList.delete_conv' split: option.split)
  qed
  ultimately show ?thesis by (simp add: Forget passes_of_def)
next
  case (Elapse dt)
  have s1: "world s1 = (world s)\<lparr>clock := clock (world s) + dt\<rparr>" "clients s1 = clients s"
    by (simp_all add: assms(4) Elapse throttle_event_def)
  have dt: "0 \<le> dt" using assms(3) Elapse by simp
  then have rise: "level l (clock (world s) + dt) \<le> level l (clock (world s)) + rate * of_int dt" for l
    using refill [of "clock (world s)" "clock (world s) + dt" l] by simp
  have "used_at (clock (world s) + dt) level e" if u: "used_at (clock (world s)) level e" for e
  proof -
    from u obtain t where "t \<le> clock (world s)" "unix_seconds t = il_seen e" "0 \<le> level (il_limiter e) t" by (auto simp: used_at_def)
    with dt show ?thesis unfolding used_at_def by (intro exI [of _ t]) simp
  qed
  then show ?thesis using assms(2) rise rate_nonneg dt
    by (auto simp: Elapse s1 throttle_ok_def tokens_of_def passes_of_def bonus_def split: option.split)
qed

lemma let_through_bound:
  fixes s :: "('r, 'l) srv"
  assumes "refills \<Longrightarrow> of_int burst \<le> rate * of_int (600 * nsSecond)" and "throttle_ok level key s" and "\<forall>dt. Elapse dt \<in> set es \<longrightarrow> 0 \<le> dt"
  shows "of_nat (let_through L burst q key es s) \<le>
    tokens_of level burst key s + rate * of_int (elapsed es) + sum_list (map (bonus refills burst key) es)"
  using assms(2,3)
proof (induction es arbitrary: s)
  case Nil
  then show ?case using tokens_nonneg by simp
next
  case (Cons e es)
  define s1 where "s1 = throttle_event L burst q e s"
  have st: "throttle_ok level key s1"
      "of_nat (passes_of key e s1) + tokens_of level burst key s1 \<le>
        tokens_of level burst key s + rate * of_int (elapsed [e]) + bonus refills burst key e"
    using event_tokens [OF assms(1) Cons.prems(1) _ s1_def] Cons.prems(2) by auto
  have ih: "of_nat (let_through L burst q key es s1) \<le>
      tokens_of level burst key s1 + rate * of_int (elapsed es) + sum_list (map (bonus refills burst key) es)"
    using Cons.IH [OF st(1)] Cons.prems(2) by simp
  have "let_through L burst q key (e # es) s = passes_of key e s1 + let_through L burst q key es s1"
    by (simp add: s1_def passes_of_def Let_def)
  moreover have "elapsed (e # es) = elapsed [e] + elapsed es" by (cases e) simp_all
  ultimately show ?case using st(2) ih by (simp add: algebra_simps)
qed

end

section \<open>A bucket\<close>

text \<open>A bucket that does what the package documents: full, or with what it held at an instant.\<close>

type_synonym bucket = "(rat \<times> time) option"

definition bucket_level :: "rat \<Rightarrow> int \<Rightarrow> bucket \<Rightarrow> time \<Rightarrow> rat" where
  "bucket_level r b l t = (case l of None \<Rightarrow> of_int b | Some (x, t0) \<Rightarrow> min (of_int b) (x + r * of_int (t - t0)))"

definition bucket_ops :: "rat \<Rightarrow> int \<Rightarrow> (bucket, unit) rate_ops" where
  "bucket_ops r b = \<lparr>rl_new = (\<lambda>_ _. None),
     rl_allow = (\<lambda>t l. let x = bucket_level r b l t in if 1 \<le> x then (True, Some (x - 1, t)) else (False, Some (x, t)))\<rparr>"

lemma bucket_is_token_bucket:
  assumes "0 \<le> r" and "0 \<le> b"
  shows "token_bucket (bucket_ops r b) () r b (bucket_level r b)"
proof
  show "bucket_level r b (rl_new (bucket_ops r b) () b) t = of_int b" for t by (simp add: bucket_level_def bucket_ops_def)
  show "bucket_level r b l t' = min (of_int b) (bucket_level r b l t + r * of_int (t' - t))" if "t \<le> t'" for t t' l
  proof (cases l)
    case None
    have "0 \<le> r * of_int (t' - t)" using assms(1) that by simp
    then show ?thesis by (simp add: None bucket_level_def)
  next
    case (Some p)
    obtain x t0 where p: "p = (x, t0)" by (cases p)
    have a: "0 \<le> r * of_int (t' - t)" using assms(1) that by simp
    have "x + r * of_int (t' - t0) = x + r * of_int (t - t0) + r * of_int (t' - t)" by (simp add: algebra_simps)
    with a show ?thesis by (simp add: Some p bucket_level_def min_def)
  qed
  show "(ok \<longleftrightarrow> 1 \<le> bucket_level r b l t) \<and> bucket_level r b l' t = bucket_level r b l t - (if ok then 1 else 0)"
    if "rl_allow (bucket_ops r b) t l = (ok, l')" for t l ok l'
  proof -
    have "bucket_level r b l t \<le> of_int b" by (simp add: bucket_level_def split: option.split prod.split)
    with that show ?thesis
      by (auto simp: bucket_ops_def Let_def split: if_splits) (simp_all add: bucket_level_def)
  qed
qed (use assms in simp_all)

interpretation bucket: token_bucket "bucket_ops (of_nat n / 1000000000) (int m)" "()" "of_nat n / 1000000000" "int m"
    "bucket_level (of_nat n / 1000000000) (int m)" for n m
  by (rule bucket_is_token_bucket) simp_all

section \<open>The bound\<close>

text \<open>
  C16: whatever other clients do and whenever limiters are forgotten, the throttle lets through at
  most a burst of one client's requests, what the rate allows in the time that went by, and a
  burst for each time that its limiter may have been deleted. If a bucket fills up within the
  ten minutes after which it is forgotten, and no request of the client comes between the
  comparison and the deletion of a clean-up pass, the passes add nothing: then it is at most a
  burst and what the rate allows. Neither condition can be dropped.
\<close>
theorem throttle_bounds_the_rate:
  fixes s :: "('r, 'l) srv"
  assumes "token_bucket L q rate burst level" and "clients s = []" and "\<forall>dt. Elapse dt \<in> set es \<longrightarrow> 0 \<le> dt"
  shows "of_nat (let_through L burst q key es s) \<le> of_int burst * of_nat (1 + resets key es) + rate * of_int (elapsed es) \<and>
    (of_int burst \<le> rate * of_int (600 * nsSecond) \<and> Forget key \<notin> set es \<longrightarrow>
       of_nat (let_through L burst q key es s) \<le> of_int burst + rate * of_int (elapsed es))"
proof (intro conjI impI)
  have ok: "throttle_ok level key s" using assms(2) by (simp add: throttle_ok_def)
  note bound = token_bucket.let_through_bound [OF assms(1) _ ok assms(3)] and most = token_bucket.tokens_most [OF assms(1), of key s]
  show "of_nat (let_through L burst q key es s) \<le> of_int burst * of_nat (1 + resets key es) + rate * of_int (elapsed es)"
    using bound [of False] most by (simp add: bonus_resets algebra_simps)
  assume "of_int burst \<le> rate * of_int (600 * nsSecond) \<and> Forget key \<notin> set es"
  then show "of_nat (let_through L burst q key es s) \<le> of_int burst + rate * of_int (elapsed es)"
    using bound [of True] most by (simp add: bonus_none)
qed

definition bucket_srv :: "(mem_store, bucket) srv" where
  "bucket_srv = \<lparr>world = demo_world demo_db 0, clients = [], audit_queue = [], request_log = [], ctx_user = None, ctx_email = None,
     out_headers = [], out_status = 200, out_body = None, out_gzip = False\<rparr>"

theorem throttle_bounds_the_rate_witness:
  "of_nat (let_through (bucket_ops (of_nat 200 / 1000000000) (int 5000)) (int 5000) () ''10.0.0.9:unknown''
     [Request demo_request, Elapse nsSecond, Cleanup, Request demo_request] bucket_srv) \<le> (5200 :: rat) \<and>
   of_nat (let_through (bucket_ops (of_nat 200 / 1000000000) (int 5000)) (int 5000) () ''10.0.0.9:unknown''
     [Request demo_request, Forget ''10.0.0.9:unknown'', Request demo_request] bucket_srv) \<le> (10000 :: rat)"
  using throttle_bounds_the_rate [OF bucket.token_bucket_axioms [of 200 5000], of bucket_srv
      "[Request demo_request, Elapse nsSecond, Cleanup, Request demo_request]" "''10.0.0.9:unknown''"]
    throttle_bounds_the_rate [OF bucket.token_bucket_axioms [of 200 5000], of bucket_srv
      "[Request demo_request, Forget ''10.0.0.9:unknown'', Request demo_request]" "''10.0.0.9:unknown''"]
  by (simp add: bucket_srv_def nsSecond_def resets_def)

text \<open>
  The conditions are needed: a limiter is forgotten after ten idle minutes whatever it has left, and
  its client then has a full bucket again. With a rate of zero and a burst of one two requests
  pass. And a request that comes between the comparison and the deletion is forgotten, too: with a
  bucket of one token that takes ten minutes to fill, three requests pass in 601 seconds.
\<close>

lemma forgotten_bucket_is_full:
  "let_through (bucket_ops 0 1) 1 () (key_for_request demo_request)
     [Request demo_request, Elapse (601 * nsSecond), Cleanup, Request demo_request] bucket_srv = 2"
  by (simp add: bucket_srv_def demo_world_def throttle_event_def throttle_def get_limiter_def put_limiter_def bucket_ops_def
      bucket_level_def cleanup_idle_def unix_seconds_def nsSecond_def Let_def)

lemma disturbed_pass_forgets_a_request:
  "let_through (bucket_ops (1 / 600000000000) 1) 1 () (key_for_request demo_request)
     [Request demo_request, Elapse (601 * nsSecond), Request demo_request, Forget (key_for_request demo_request), Request demo_request]
     bucket_srv = 3"
  by (simp add: bucket_srv_def demo_world_def throttle_event_def throttle_def get_limiter_def put_limiter_def bucket_ops_def
      bucket_level_def unix_seconds_def nsSecond_def Let_def)

end
