(* ===== verification/Invariants.thy ===== *)
theory Invariants
  imports ServerProps
begin

text \<open>
  From the services to the whole server, as two interfaces. A relation between worlds that the
  services respect, and that holds where the tables and the key that signs stay as they are and
  no draw is taken back, holds between any two states of the server one of which is reached
  from the other. A predicate on the tables that
  every statement but the storing of a refresh token keeps is kept by all services but those
  that issue tokens.
\<close>

section \<open>Relations between worlds over the life of the server\<close>

locale world_relation = service_relation X P
  for X :: "'r ext" and P :: "'r world \<Rightarrow> 'r world \<Rightarrow> bool" +
  assumes frame: "db w' = db w \<Longrightarrow> private_key w' = private_key w \<Longrightarrow> draws w \<le> draws w' \<Longrightarrow> P w w'"
    and audit: "state_io_rel P (run_audit_task X t)"
begin

lemma framed: "state_io_rel quiet m \<Longrightarrow> state_io_rel (on_db (same (\<lambda>d. d))) m \<Longrightarrow> state_io_rel P m"
  using frame unfolding state_io_rel_def quiet_def on_db_def same_def by blast

lemma cache_calls: "state_io_rel P (cache_lookup k)" "state_io_rel P (cache_store X k c)"
  using frame by (auto simp: state_io_rel_def cache_lookup_def cache_store_def split: prod.splits)

lemma reads: "state_io_rel P (redis_exists X k)" "state_io_rel P (sql_row q)"
  by (rule framed; intro io_intros io_preorder_quiet io_preorder_same)+

lemma guards:
  fixes h :: "('r, 'l) prog"
  assumes "state_io_rel (on_world P) h"
  shows "state_io_rel (on_world P) (auth_required X rq h)" "state_io_rel (on_world P) (require_permission a r h)"
proof -
  show "state_io_rel (on_world P) (auth_required X rq h)"
    unfolding auth_required_def Let_def validate_access_token_def
    by (intro io_intros cache_calls reads io_preorder_on_world preorder assms)
  show "state_io_rel (on_world P) (require_permission a r h)"
    unfolding require_permission_def by (intro io_intros reads io_preorder_on_world preorder assms)
qed

lemma routes:
  fixes E :: "('l, 'q) env"
  shows "\<forall>r \<in> set (engine_routes X cfg E rq). state_io_rel (on_world P) (snd (snd r))"
  by (rule engine_routes_rel) (auto simp: all_handlers_def intro: handlers guards)

lemma chain:
  fixes E :: "('l, 'q) env"
  assumes "state_io_rel (on_world P) h"
  shows "P (world s) (world (snd (run_state (global_chain X cfg E rq h) s)))"
proof -
  have "run_state (global_chain X cfg E rq h) s = ((), snd (run_state (global_chain X cfg E rq h) s))"
    by (cases "run_state (global_chain X cfg E rq h) s") simp
  then show ?thesis
  proof (cases rule: global_chain_cases)
    case refused
    then show ?thesis by (intro frame) (simp_all add: refused_def quiet_def)
  next
    case (handled s1)
    then have "P (world s) (world s1)" by (intro frame) (simp_all add: calm_def quiet_def)
    moreover have "P (world s1) (world (snd (run_state h s1)))"
      using assms by (simp add: state_io_rel_def on_world_def)
    ultimately show ?thesis by (simp add: handled(2) io_preorder_trans [OF preorder])
  qed
qed

lemma serving:
  fixes E :: "('l, 'q) env"
  assumes "matcher_ok E"
  shows "P (world s) (world (snd (run_state (serve X cfg E rq) s)))"
proof -
  obtain s0 where f: "run_state fresh_context s = ((), s0)" and w: "world s0 = world s"
    by (simp add: fresh_context_def)
  have resp: "state_io_rel (on_world P) (respond_status n :: ('r, 'l) prog)" for n
    by (intro io_intros preorder)
  show ?thesis
  proof (cases "gin_match E (map pattern_of (engine_routes X cfg E rq)) (rq_method rq) (rq_path rq)")
    case NoRoute
    then show ?thesis using f chain [OF resp, of s0 cfg E rq 404] w by (simp add: serve_def)
  next
    case OtherSlash
    then show ?thesis using f w by (simp add: serve_def io_preorder_refl [OF preorder])
  next
    case (Matched n a)
    let ?rq = "rq\<lparr>rq_param := a\<rparr>"
    have "n < length (engine_routes X cfg E ?rq)"
      using assms Matched unfolding matcher_ok_def by (metis length_map engine_length)
    then have "state_io_rel (on_world P) (snd (snd (engine_routes X cfg E ?rq ! n)))"
      using routes nth_mem by blast
    from chain [OF this, of s0 cfg E ?rq] f Matched w show ?thesis by (simp add: serve_def Let_def)
  qed
qed

lemma stepping:
  assumes "matcher_ok E"
  shows "server_step X cfg E lat s s' \<Longrightarrow> P (world s) (world s')"
proof (induction rule: server_step.induct)
  case (request s rq)
  show ?case by (rule serving [OF assms])
next
  case (audit s t ts)
  show ?case using world_relation.audit [OF world_relation_axioms, of t]
    by (simp add: in_world_def state_io_rel_def split: prod.splits) (metis snd_conv)
qed (simp_all add: frame)

lemma server_related:
  assumes "matcher_ok E"
  shows "server_reachable X cfg E lat s0 s \<Longrightarrow> P (world s0) (world s)"
  by (induction rule: server_reachable.induct)
    (auto intro: io_preorder_refl [OF preorder] io_preorder_trans [OF preorder] stepping [OF assms])

end

section \<open>What every statement keeps but the storing of a token\<close>

locale table_frame =
  fixes X :: "'r ext" and I :: "db \<Rightarrow> bool"
  assumes users_kept: "stmt_keeps I (insert_user e h nm)" "stmt_keeps I (update_user_login at uid)"
    and roles_kept: "stmt_keeps I (insert_role n c d)" "stmt_keeps I (update_role rid n c d)" "stmt_keeps I (delete_role rid)"
    and permissions_kept: "stmt_keeps I (insert_permission n a r d)" "stmt_keeps I (update_permission pid n a r d)"
      "stmt_keeps I (delete_permission pid)"
    and user_roles_kept: "stmt_keeps I (insert_user_role b uid rid)" "stmt_keeps I (delete_user_role uid rid)"
      "stmt_keeps I (delete_user_roles uid)"
    and role_permissions_kept: "stmt_keeps I (insert_role_permission rid pid)" "stmt_keeps I (delete_role_permissions rid)"
    and tokens_kept: "stmt_keeps I (delete_refresh_token_by_id tid)" "stmt_keeps I (delete_refresh_token_by_hash h)"
      "stmt_keeps I (delete_orphan_tokens uid)"
    and sessions_kept: "stmt_keeps I (insert_session (inet_ok X) uid h dev ip ua)" "stmt_keeps I (delete_session_by_id sid)"
      "stmt_keeps I (delete_session_by_hash h)" "stmt_keeps I (delete_sessions_beyond uid k)" "stmt_keeps I (touch_session at sid)"
    and logs_kept: "stmt_keeps I (insert_activity (inet_ok X) u ac re ip ua dev)" "stmt_keeps I (insert_incident st ti de se rp)"
begin

lemmas statements = users_kept roles_kept permissions_kept user_roles_kept role_permissions_kept tokens_kept sessions_kept
  logs_kept

lemma service_parts:
  "state_io_rel (on_db (keeps I)) (enforce_session_limit X cfg uid)"
  "state_io_rel (on_db (keeps I)) (record_failed_attempt X email)"
  "state_io_rel (on_db (keeps I)) (check_login_attempts X email)"
  "state_io_rel (on_db (keeps I)) (set_roles X uid rids)"
  "state_io_rel (on_db (keeps I)) (assign_permissions X rid pids)"
  "state_io_rel (on_db (keeps I)) (permission_create X p)"
  unfolding enforce_session_limit_def record_failed_attempt_def check_login_attempts_def set_roles_def
    assign_permissions_def permission_create_def Let_def case_prod_beta
  by (intro io_intros statements io_preorder_on_db io_preorder_keeps)+

lemma token_service_parts:
  "state_io_rel (on_db (keeps I)) (user_create X u)" "state_io_rel (on_db (keeps I)) (user_find_by_email email)"
  "state_io_rel (on_db (keeps I)) (user_find_by_id uid)" "state_io_rel (on_db (keeps I)) (session_create X s)"
  "state_io_rel (on_db (keeps I)) (session_delete_by_hash X h)"
  "state_io_rel (on_db (keeps I)) (generate_access_token X uid email ttl)"
  "state_io_rel (on_db (keeps I)) (generate_refresh_token X uid ttl)"
  "state_io_rel (on_db (keeps I)) (logout X at rt)"
  unfolding logout_def generate_access_token_def generate_refresh_token_def validate_access_token_def auth_repo_defs
    nil_if_no_rows_def session_create_def Let_def case_prod_beta
  by (intro io_intros statements service_parts io_preorder_on_db io_preorder_keeps)+

lemma admin_service:
  "state_io_rel (on_db (keeps I)) (list_users X limit offset)" "state_io_rel (on_db (keeps I)) (get_user X uid)"
  "state_io_rel (on_db (keeps I)) (create_user X cu)" "state_io_rel (on_db (keeps I)) (assign_roles X uid rids)"
  "state_io_rel (on_db (keeps I)) (list_roles X collate limit offset)" "state_io_rel (on_db (keeps I)) (create_role X cr)"
  "state_io_rel (on_db (keeps I)) (update_role_op X rid cr)" "state_io_rel (on_db (keeps I)) (delete_role_op X rid)"
  "state_io_rel (on_db (keeps I)) (assign_permissions_op X rid pids)"
  "state_io_rel (on_db (keeps I)) (list_permissions X collate limit offset)"
  "state_io_rel (on_db (keeps I)) (create_permission X cp)" "state_io_rel (on_db (keeps I)) (update_permission_op X pid cp)"
  "state_io_rel (on_db (keeps I)) (delete_permission_op X pid)"
  unfolding admin_service_defs admin_repo_defs Let_def case_prod_beta
  by (intro io_intros statements service_parts io_preorder_on_db io_preorder_keeps)+

lemma incident_service:
  "state_io_rel (on_db (keeps I)) (incident_create X st req uid)" "state_io_rel (on_db (keeps I)) (incident_list X limit offset)"
  unfolding incident_defs case_prod_beta
  by (intro io_intros statements io_preorder_on_db io_preorder_keeps)+

lemma audit_task: "state_io_rel (on_db (keeps I)) (run_audit_task X t)"
  unfolding run_audit_task_def by (intro io_intros statements io_preorder_on_db io_preorder_keeps)

end

end
