(* ===== verification/TokenReuse.thy ===== *)
theory TokenReuse
  imports Invariants
begin

text \<open>
  Which refresh tokens the server accepts, over its life: only those whose digest was in the
  tables at the start and those that it signed itself since. So a token that was exchanged, or
  that its owner logged out with, is never accepted again.
\<close>

section \<open>Tokens that are signed\<close>

text \<open>
  \<open>h\<close> is the digest of a refresh token that the key signs with an identifier from the draws \<open>n\<close> to
  \<open>n'\<close>, whatever else its claims are; or of none from the draw \<open>n\<close> on, as random identifiers and
  SHA-256 digests do not collide.
\<close>

definition signed_between :: "'r ext \<Rightarrow> string option \<Rightarrow> nat \<Rightarrow> nat \<Rightarrow> string \<Rightarrow> bool" where
  "signed_between X key n n' h \<longleftrightarrow> (\<exists>m c tok. n \<le> m \<and> m < n' \<and> rc_jti c = uuid_string X (rand_uuid X m) \<and>
     jwt_sign X key (refresh_payload c) = Inr tok \<and> hash_token X tok = h)"

definition no_later_token :: "'r ext \<Rightarrow> string option \<Rightarrow> nat \<Rightarrow> string \<Rightarrow> bool" where
  "no_later_token X key n h \<longleftrightarrow> (\<forall>n'. \<not> signed_between X key n n' h)"

lemma signed_between_mono:
  "signed_between X key n n' h \<Longrightarrow> m \<le> n \<Longrightarrow> n' \<le> m' \<Longrightarrow> signed_between X key m m' h"
proof -
  assume "m \<le> n" "n' \<le> m'" and "signed_between X key n n' h"
  then obtain i c tok where "n \<le> i" "i < n'" "rc_jti c = uuid_string X (rand_uuid X i)"
      "jwt_sign X key (refresh_payload c) = Inr tok" "hash_token X tok = h" unfolding signed_between_def by blast
  with \<open>m \<le> n\<close> \<open>n' \<le> m'\<close> show ?thesis unfolding signed_between_def
    by (intro exI [of _ i] exI [of _ c] exI [of _ tok]) simp
qed

lemma no_later_token_mono: "no_later_token X key n h \<Longrightarrow> n \<le> m \<Longrightarrow> no_later_token X key m h"
  unfolding no_later_token_def using signed_between_mono order_refl by blast

lemma signed_betweenI:
  "rc_jti c = uuid_string X (rand_uuid X m) \<Longrightarrow> jwt_sign X key (refresh_payload c) = Inr tok \<Longrightarrow> n \<le> m \<Longrightarrow> m < n' \<Longrightarrow>
   signed_between X key n n' (hash_token X tok)"
  unfolding signed_between_def by blast

lemma generated_token_is_signed:
  assumes "run_state (generate_refresh_token X uid ttl) w = (Inr (tok, ex), w')"
  shows "signed_between X (private_key w) (draws w) (draws w') (hash_token X tok)"
proof -
  let ?c = "\<lparr>rc_uid = uid, rc_jti = uuid_string X (rand_uuid X (draws w)), rc_exp = numeric_date (clock w + ttl),
    rc_nbf = numeric_date (clock w - 30 * nsSecond)\<rparr>"
  have "jwt_sign X (private_key w) (refresh_payload ?c) = Inr tok" "draws w' = Suc (draws w)"
    using assms by (auto simp: generate_refresh_token_def Let_def split: sum.splits)
  then show ?thesis by (intro signed_betweenI [of ?c X "draws w"]) simp_all
qed

section \<open>Digests that are gone\<close>

definition gone :: "string \<Rightarrow> db \<Rightarrow> bool" where
  "gone h d \<longleftrightarrow> h \<notin> t_hash ` set (refresh_tokens d)"

lemma gone_find: "gone h d \<longleftrightarrow> find_refresh_token h d = None"
  by (auto simp: gone_def find_refresh_token_def find_None_iff)

interpretation used: table_frame X "gone h"
proof
  fix e hp nm at uid n c ds rid a r d pid b tid h' dev ip ua sid k u ac re st ti de se rp
  note inserts = insert_user_def insert_role_def insert_permission_def insert_user_role_def insert_role_permission_def
    insert_session_def insert_activity_def insert_incident_def
  note changes = update_user_login_def update_role_def update_permission_def touch_session_def
  note deletes = delete_role_def delete_permission_def delete_user_role_def delete_user_roles_def delete_role_permissions_def
    delete_refresh_token_by_id_def delete_refresh_token_by_hash_def delete_orphan_tokens_def delete_session_by_id_def
    delete_session_by_hash_def delete_sessions_beyond_def
  let ?G = "gone h"
  show "stmt_keeps ?G (insert_user e hp nm)" "stmt_keeps ?G (insert_role n c ds)" "stmt_keeps ?G (insert_permission n a r d)"
    "stmt_keeps ?G (insert_user_role b uid rid)" "stmt_keeps ?G (insert_role_permission rid pid)"
    "stmt_keeps ?G (insert_session (inet_ok X) uid h' dev ip ua)" "stmt_keeps ?G (insert_activity (inet_ok X) u ac re ip ua dev)"
    "stmt_keeps ?G (insert_incident st ti de se rp)"
    by (auto intro!: stmt_keepsI simp: gone_def inserts Let_def split: if_splits option.splits)
  show "stmt_keeps ?G (update_user_login at uid)" "stmt_keeps ?G (update_role rid n c ds)"
    "stmt_keeps ?G (update_permission pid n a r d)" "stmt_keeps ?G (touch_session at sid)"
    by (auto intro!: stmt_keepsI simp: gone_def changes Let_def split: if_splits option.splits)
  show "stmt_keeps ?G (delete_role rid)" "stmt_keeps ?G (delete_permission pid)" "stmt_keeps ?G (delete_user_role uid rid)"
    "stmt_keeps ?G (delete_user_roles uid)" "stmt_keeps ?G (delete_role_permissions rid)"
    "stmt_keeps ?G (delete_refresh_token_by_id tid)" "stmt_keeps ?G (delete_refresh_token_by_hash h')"
    "stmt_keeps ?G (delete_orphan_tokens uid)" "stmt_keeps ?G (delete_session_by_id sid)"
    "stmt_keeps ?G (delete_session_by_hash h')" "stmt_keeps ?G (delete_sessions_beyond uid k)"
    by (auto intro!: stmt_keepsI simp: gone_def deletes Let_def split: if_splits option.splits)
qed

lemma insert_other_token: "h' \<noteq> h \<Longrightarrow> stmt_keeps (gone h) (insert_refresh_token iok uid h' dev ip ex)"
  by (auto intro!: stmt_keepsI simp: gone_def insert_refresh_token_def split: if_splits)

section \<open>A digest that is gone stays gone\<close>

text \<open>It comes back only when the server signs a token that has it.\<close>

definition spent :: "'r ext \<Rightarrow> string \<Rightarrow> 'r world \<Rightarrow> 'r world \<Rightarrow> bool" where
  "spent X h w w' \<longleftrightarrow> draws w \<le> draws w' \<and> private_key w' = private_key w \<and>
     (gone h (db w) \<longrightarrow> gone h (db w') \<or> signed_between X (private_key w) (draws w) (draws w') h)"

lemma spent_trans:
  assumes "spent X h u v" and "spent X h v w"
  shows "spent X h u w"
proof -
  have o: "draws u \<le> draws v" "draws v \<le> draws w" "private_key v = private_key u" "private_key w = private_key u"
    using assms by (simp_all add: spent_def)
  have "gone h (db w) \<or> signed_between X (private_key u) (draws u) (draws w) h" if "gone h (db u)"
    using assms that o signed_between_mono [of X "private_key u" "draws u" "draws v" h "draws u" "draws w"]
      signed_between_mono [of X "private_key u" "draws v" "draws w" h "draws u" "draws w"] by (auto simp: spent_def)
  with o show ?thesis by (simp add: spent_def)
qed

lemma io_preorder_spent [simp, intro]: "io_preorder (spent X h)"
  unfolding io_preorder_def reflp_def transp_def by (intro conjI allI impI, simp add: spent_def, rule spent_trans)

lemma spentI: "state_io_rel quiet m \<Longrightarrow> state_io_rel (on_db (keeps (gone h))) m \<Longrightarrow> state_io_rel (spent X h) m"
  by (simp add: state_io_rel_def quiet_def on_db_def keeps_def spent_def)

lemma spent_parts:
  "state_io_rel (spent X h) fresh" "state_io_rel (spent X h) (sql_row q)" "state_io_rel (spent X h) (redis_del Y k)"
  "state_io_rel (spent X h) (user_create Y u)" "state_io_rel (spent X h) (user_find_by_email email)"
  "state_io_rel (spent X h) (user_find_by_id uid)" "state_io_rel (spent X h) (session_create Y s)"
  "state_io_rel (spent X h) (session_delete_by_hash Y h')" "state_io_rel (spent X h) (sql_exec Y (delete_refresh_token_by_id tid))"
  "state_io_rel (spent X h) (generate_access_token Y uid email ttl)"
  "state_io_rel (spent X h) (check_login_attempts Y email)" "state_io_rel (spent X h) (record_failed_attempt Y email)"
  "state_io_rel (spent X h) (enforce_session_limit Y cfg uid)" "state_io_rel (spent X h) (logout Y at rt)"
  by (rule spentI; (intro io_intros used.statements used.service_parts used.token_service_parts io_preorder_quiet io_preorder_on_db
      io_preorder_keeps
    | (unfold enforce_session_limit_def record_failed_attempt_def check_login_attempts_def auth_repo_defs session_create_def
      nil_if_no_rows_def Let_def case_prod_beta, intro io_intros io_preorder_quiet)); fail)+

text \<open>The digest that is stored for a token is that of the token that was just signed.\<close>

lemma spent_issue:
  assumes "\<And>tok ex. hash_token X tok \<noteq> h \<Longrightarrow> state_io_rel (spent X h) (k (tok, ex))" and "\<And>p. state_io_rel quiet (k p)"
  shows "state_io_rel (spent X h) (on_error (generate_refresh_token X uid ttl) (\<lambda>e. ret (Inl e)) k)"
  unfolding state_io_rel_def
proof (intro allI)
  fix w
  obtain r w1 where g: "run_state (generate_refresh_token X uid ttl) w = (r, w1)" by fastforce
  have "state_io_rel (spent X h) (generate_refresh_token X uid ttl)"
    by (rule spentI) (rule io_jwt_quiet, rule used.token_service_parts)
  then have s1: "spent X h w w1" using g by (rule state_io_relD)
  show "spent X h w (snd (run_state (on_error (generate_refresh_token X uid ttl) (\<lambda>e. ret (Inl e)) k) w))"
  proof (cases r)
    case (Inl e)
    with g s1 show ?thesis by simp
  next
    case (Inr p)
    obtain tok ex where p: "p = (tok, ex)" by (cases p)
    let ?w = "snd (run_state (k p) w1)"
    have "draws w1 \<le> draws ?w" using assms(2) [of p] by (simp add: state_io_rel_def quiet_def)
    then have d: "draws w \<le> draws ?w" using s1 by (simp add: spent_def)
    show ?thesis
    proof (cases "hash_token X tok = h")
      case True
      have "private_key ?w = private_key w"
        using assms(2) [of p] s1 by (simp add: state_io_rel_def quiet_def spent_def)
      moreover have "signed_between X (private_key w) (draws w) (draws ?w) h"
        using generated_token_is_signed [of X uid ttl w tok ex w1] g Inr p True \<open>draws w1 \<le> draws ?w\<close>
        by (auto intro: signed_between_mono)
      ultimately show ?thesis using g Inr d by (simp add: spent_def)
    next
      case False
      then have "spent X h w1 ?w" using assms(1) p by (simp add: state_io_rel_def)
      with s1 have "spent X h w ?w" by (rule spent_trans)
      with g Inr show ?thesis by simp
    qed
  qed
qed

lemma store_issued:
  "state_io_rel (spent X h) (on_error (generate_refresh_token X uid ttl) (\<lambda>e. ret (Inl e)) (\<lambda>p.
     on_error (sql_exec X (insert_refresh_token (inet_ok X) uid (hash_token X (fst p)) dev ip (snd p)))
       (\<lambda>e. ret (Inl (F e)))
       (\<lambda>_. do { _ \<leftarrow> session_create X (S (fst p)); enforce_session_limit X cfg uid; ret (Inr (R (fst p))) })))"
proof (rule spent_issue)
  fix tok ex assume other: "hash_token X tok \<noteq> h"
  have "state_io_rel (spent X h) (sql_exec X (insert_refresh_token (inet_ok X) uid (hash_token X tok) dev ip ex))"
    using other by (intro spentI io_intros insert_other_token io_preorder_on_db io_preorder_keeps)
  then show "state_io_rel (spent X h)
      (on_error (sql_exec X (insert_refresh_token (inet_ok X) uid (hash_token X (fst (tok, ex))) dev ip (snd (tok, ex))))
       (\<lambda>e. ret (Inl (F e)))
       (\<lambda>_. do { _ \<leftarrow> session_create X (S (fst (tok, ex))); enforce_session_limit X cfg uid; ret (Inr (R (fst (tok, ex)))) }))"
    unfolding fst_conv snd_conv by (intro io_intros spent_parts io_preorder_spent)
next
  show "state_io_rel quiet (on_error (sql_exec X (insert_refresh_token (inet_ok X) uid (hash_token X (fst p)) dev ip (snd p)))
       (\<lambda>e. ret (Inl (F e)))
       (\<lambda>_. do { _ \<leftarrow> session_create X (S (fst p)); enforce_session_limit X cfg uid; ret (Inr (R (fst p))) }))" for p
    unfolding session_create_def enforce_session_limit_def case_prod_beta by (intro io_intros io_preorder_quiet)
qed

lemma generate_tokens_spent: "state_io_rel (spent X h) (generate_tokens X cfg u dev ip ua)"
  unfolding generate_tokens_def Let_def case_prod_beta
  by (rule io_rel_on_error, rule io_preorder_spent, rule spent_parts, rule io_rel_return, rule io_preorder_spent, rule store_issued)

lemma auth_spent:
  "state_io_rel (spent X h) (register X cfg rr)" "state_io_rel (spent X h) (login X cfg req dev ip ua)"
  "state_io_rel (spent X h) (refresh_tokens_op X cfg tok dev ip ua)" "state_io_rel (spent X h) (logout X at rt)"
  unfolding register_def login_def refresh_tokens_op_def Let_def case_prod_beta
  by (intro io_intros spent_parts generate_tokens_spent io_preorder_spent)+

interpretation spending: world_relation X "spent X h"
proof
  show "db w' = db w \<Longrightarrow> private_key w' = private_key w \<Longrightarrow> draws w \<le> draws w' \<Longrightarrow> spent X h w w'" for w w'
    by (simp add: spent_def)
qed (rule io_preorder_spent auth_spent spentI [OF caching.admin_users(1) used.admin_service(1)]
  spentI [OF caching.admin_users(2) used.admin_service(2)] spentI [OF caching.admin_users(3) used.admin_service(3)]
  spentI [OF caching.admin_users(4) used.admin_service(4)] spentI [OF caching.admin_roles(1) used.admin_service(5)]
  spentI [OF caching.admin_roles(2) used.admin_service(6)] spentI [OF caching.admin_roles(3) used.admin_service(7)]
  spentI [OF caching.admin_roles(4) used.admin_service(8)] spentI [OF caching.admin_roles(5) used.admin_service(9)]
  spentI [OF caching.admin_perms(1) used.admin_service(10)] spentI [OF caching.admin_perms(2) used.admin_service(11)]
  spentI [OF caching.admin_perms(3) used.admin_service(12)] spentI [OF caching.admin_perms(4) used.admin_service(13)]
  spentI [OF caching.incidents(1) used.incident_service(1)] spentI [OF caching.incidents(2) used.incident_service(2)]
  spentI [OF audit_task_rels(2) used.audit_task])+

section \<open>Properties\<close>

text \<open>The new token of an exchange is a later one, so the old one's row is gone when it is over.\<close>

lemma exchanged_token_is_gone:
  assumes "db_ok (db w)" and "sched w = []" and "0 < MaxActiveSessions cfg"
    and "run_state (refresh_tokens_op X cfg tok dev ip ua) w = (Inr resp, w')"
    and "no_later_token X (private_key w) (draws w) (hash_token X tok)"
  shows "gone (hash_token X tok) (db w')"
proof -
  obtain t :: refresh_token and u :: user where "issued X cfg u dev ip ua (w\<lparr>draws := draws w + 2,
      db := (db w)\<lparr>sessions := filter (\<lambda>s. s_hash s \<noteq> hash_token X tok) (sessions (db w)),
                   refresh_tokens := filter (\<lambda>x. t_id x \<noteq> t_id t) (refresh_tokens (db w))\<rparr>\<rparr>) resp w'"
    using assms(2-4) by (rule refresh_success) (rule that)
  then have "jwt_sign X (private_key w) (refresh_payload_for X cfg u (clock w) (Suc (draws w + 2))) = Inr (RefreshToken resp)"
    by (simp add: issued_def)
  then have "signed_between X (private_key w) (draws w) (draws w + 4) (hash_token X (RefreshToken resp))"
    unfolding refresh_payload_for_def by (intro signed_betweenI [where m = "Suc (draws w + 2)"]) simp_all
  then have "hash_token X (RefreshToken resp) \<noteq> hash_token X tok" using assms(5) unfolding no_later_token_def by metis
  with used_token_is_gone [OF assms(1-4)] show ?thesis by (simp add: gone_find)
qed

text \<open>A token whose row is gone is rejected in every later state of the server.\<close>

lemma gone_is_rejected:
  assumes "gone (hash_token X tok) (db w)"
  shows "fst (run_state (refresh_tokens_op X cfg tok dev ip ua) w) = Inl (Msg ''invalid refresh token'')"
  using assms by (auto simp: gone_find refresh_tokens_op_def Let_def sql_row_def split: prod.splits dest!: next_call_frame)

lemma gone_for_good:
  fixes s0 s :: "('r, 'l) srv"
  assumes "no_later_token X (private_key w) (draws w) (hash_token X tok)" and "gone (hash_token X tok) (db w')"
    and "private_key w' = private_key w" and "draws w \<le> draws w'"
    and "matcher_ok E" and "world s0 = w'" and "server_reachable X cfg E lat s0 s"
  shows "fst (run_state (refresh_tokens_op X cfg' tok dev ip ua) (world s)) = Inl (Msg ''invalid refresh token'')"
proof (rule gone_is_rejected)
  have "no_later_token X (private_key w') (draws w') (hash_token X tok)"
    unfolding assms(3) by (rule no_later_token_mono [OF assms(1,4)])
  moreover have "spent X (hash_token X tok) w' (world s)"
    using spending.server_related [OF assms(5,7)] assms(6) by simp
  ultimately show "gone (hash_token X tok) (db (world s))" using assms(2) by (auto simp: spent_def no_later_token_def)
qed

lemma auth_quiet:
  "run_state (refresh_tokens_op X cfg tok dev ip ua) w = (r, w') \<Longrightarrow> quiet w w'"
  "run_state (logout X at rt) w = (r', w') \<Longrightarrow> quiet w w'"
  by (rule state_io_relD [OF io_auth_service_quiet(3)], assumption, rule state_io_relD [OF io_auth_service_quiet(4)])

text \<open>The demonstration key signs the tokens \<open>A\<close> and \<open>R\<close> only, and \<open>T\<close> has another digest.\<close>

lemma demo_no_later_token: "no_later_token (demo_ext (demo_tokens t k)) key n (hash_token (demo_ext (demo_tokens t k)) ''T'')"
proof -
  have "hash_token (demo_ext (demo_tokens t k)) tok \<noteq> hash_token (demo_ext (demo_tokens t k)) ''T''"
    if "jwt_sign (demo_ext (demo_tokens t k)) key p = Inr tok" for p tok
    using that by (auto simp: demo_sign demo_tokens_def demo_hash hex_digit_def char_of_def bit_0 split: if_splits)
  then show ?thesis unfolding no_later_token_def signed_between_def by blast
qed

definition demo_login_request :: request where
  "demo_login_request = demo_request\<lparr>rq_method := ''POST'', rq_path := ''/api/v1/auth/login''\<rparr>"

definition demo_life :: "mem_store ext \<Rightarrow> (mem_store, unit) srv \<Rightarrow> (mem_store, unit) srv" where
  "demo_life X s = snd (run_state (serve X demo_config demo_env demo_login_request)
     (s\<lparr>world := (world s)\<lparr>clock := clock (world s) + 7\<rparr>\<rparr>))"

lemma demo_life_reachable: "server_reachable X demo_config demo_env 5 s (demo_life X s)"
proof -
  have "server_step X demo_config demo_env 5 s (s\<lparr>world := (world s)\<lparr>clock := clock (world s) + 7\<rparr>\<rparr>)"
    using server_step.tick [where dt = 7 and s = s and X = X and cfg = demo_config and E = demo_env and lat = 5] by simp
  then show ?thesis unfolding demo_life_def
    by (intro server_reachable.step [OF server_reachable.step [OF server_reachable.start] server_step.request])
qed

text \<open>
  C2: a refresh token is used up by the first exchange that succeeds. Once it was answered
  with new tokens, and none of its calls failed, the token is rejected for as long as the
  process runs: after any sequence of requests of any clients, audit tasks, passes of the
  background goroutines and time that goes by, however their calls fail, and from whichever
  device it is presented. (No refresh token that the server's key signs with an identifier
  drawn from then on has the old one's SHA-256 digest. The requests are served one after the
  other; what two exchanges at the same time can do is C40.)
\<close>
theorem refresh_token_single_use:
  fixes s0 s :: "('r, 'l) srv"
  assumes "db_ok (db w)" and "sched w = []" and "0 < MaxActiveSessions cfg"
    and "run_state (refresh_tokens_op X cfg tok dev ip ua) w = (Inr resp, w')"
    and "no_later_token X (private_key w) (draws w) (hash_token X tok)"
    and "matcher_ok E" and "world s0 = w'" and "server_reachable X cfg E lat s0 s"
  shows "fst (run_state (refresh_tokens_op X cfg tok dev' ip' ua') (world s)) = Inl (Msg ''invalid refresh token'')"
  using gone_for_good [OF assms(5) exchanged_token_is_gone [OF assms(1-5)] _ _ assms(6-8)] auth_quiet(1) [OF assms(4)]
  by (simp add: quiet_def)

theorem refresh_token_single_use_witness:
  "\<exists>resp w' s. run_state (refresh_tokens_op (demo_ext (demo_tokens 0 3)) demo_config ''T'' ''d'' ''1'' ''x'')
       (demo_world demo_token_db 0) = (Inr resp, w') \<and>
     s = demo_life (demo_ext (demo_tokens 0 3)) (demo_srv w') \<and>
     fst (run_state (refresh_tokens_op (demo_ext (demo_tokens 0 3)) demo_config ''T'' ''e'' ''2'' ''y'') (world s))
       = Inl (Msg ''invalid refresh token'')"
proof -
  let ?X = "demo_ext (demo_tokens 0 3)"
  obtain resp w' where run: "run_state (refresh_tokens_op ?X demo_config ''T'' ''d'' ''1'' ''x'')
      (demo_world demo_token_db 0) = (Inr resp, w')"
    using demo_refresh_run by blast
  have w: "world (demo_srv w' :: (mem_store, unit) srv) = w'" by (simp add: demo_srv_def)
  from refresh_token_single_use [OF _ _ _ run demo_no_later_token demo_matcher w demo_life_reachable,
      where dev' = "''e''" and ip' = "''2''" and ua' = "''y''"] demo_token_db_ok run
  show ?thesis by (auto simp: demo_srv_def)
qed

text \<open>
  C30: a logout ends the refresh token for good. Once a client has logged out with it, and none
  of the calls failed, the token is rejected in every state that the server reaches from then
  on, whatever requests of any clients, audit tasks and background work come in between and
  however their calls fail; so the tokens cannot be renewed any more. The access token may be
  invalid or expired: the refresh token is deleted all the same. (No refresh token that the
  server's key signs with an identifier drawn from then on has its SHA-256 digest, and the
  requests are served one after the other.)
\<close>
theorem logged_out_token_stays_out:
  fixes s0 s :: "('r, 'l) srv"
  assumes "sched w = []" and "rt \<noteq> []" and "run_state (logout X at rt) w = (r, w')"
    and "no_later_token X (private_key w) (draws w) (hash_token X rt)"
    and "matcher_ok E" and "world s0 = w'" and "server_reachable X cfg E lat s0 s"
  shows "r = Inr () \<and>
    fst (run_state (refresh_tokens_op X cfg rt dev ip ua) (world s)) = Inl (Msg ''invalid refresh token'')"
proof -
  note l = logout_tokens [OF assms(1-3)]
  from l have "gone (hash_token X rt) (db w')" by (simp add: gone_find)
  from gone_for_good [OF assms(4) this _ _ assms(5-7)] auth_quiet(2) [OF assms(3)] l show ?thesis by (simp add: quiet_def)
qed

theorem logged_out_token_stays_out_witness:
  "\<exists>w' s. run_state (logout (demo_ext (demo_tokens 0 1)) ''A'' ''T'') (demo_world demo_token_db 0) = (Inr (), w') \<and>
     s = demo_life (demo_ext (demo_tokens 0 1)) (demo_srv w') \<and>
     fst (run_state (refresh_tokens_op (demo_ext (demo_tokens 0 1)) demo_config ''T'' ''e'' ''2'' ''y'') (world s))
       = Inl (Msg ''invalid refresh token'')"
proof -
  let ?X = "demo_ext (demo_tokens 0 1)"
  obtain r w' where run: "run_state (logout ?X ''A'' ''T'') (demo_world demo_token_db 0) = (r, w')" by fastforce
  have w: "world (demo_srv w' :: (mem_store, unit) srv) = w'" by (simp add: demo_srv_def)
  from logged_out_token_stays_out [OF _ _ run demo_no_later_token demo_matcher w demo_life_reachable,
      where dev = "''e''" and ip = "''2''" and ua = "''y''"] run
  show ?thesis by (auto simp: demo_srv_def)
qed

text \<open>
  C36: the server exchanges no refresh token but its own. If it answers an exchange with new
  tokens, in whatever state it has come to from a state \<open>s0\<close>, then the digest of the presented
  token was in the tables at \<open>s0\<close>, or it is that of a refresh token that the server's private
  key signed since, with an identifier that the server drew since. This holds whatever requests,
  served one after the other, audit tasks and background work came in between, and however calls
  fail, those of the exchange included.
\<close>
theorem only_own_tokens_are_exchanged:
  fixes s0 s :: "('r, 'l) srv"
  assumes "matcher_ok E" and "server_reachable X cfg E lat s0 s"
    and "run_state (refresh_tokens_op X cfg tok dev ip ua) (world s) = (Inr resp, w')"
  shows "hash_token X tok \<in> t_hash ` set (refresh_tokens (db (world s0))) \<or>
    (\<exists>m c t. draws (world s0) \<le> m \<and> m < draws (world s) \<and> rc_jti c = uuid_string X (rand_uuid X m) \<and>
       jwt_sign X (private_key (world s0)) (refresh_payload c) = Inr t \<and> hash_token X t = hash_token X tok)"
proof -
  have "\<not> gone (hash_token X tok) (db (world s))"
    using gone_is_rejected [of X tok "world s" cfg dev ip ua] assms(3) by auto
  moreover have "spent X (hash_token X tok) (world s0) (world s)" by (rule spending.server_related [OF assms(1,2)])
  ultimately have "\<not> gone (hash_token X tok) (db (world s0)) \<or>
      signed_between X (private_key (world s0)) (draws (world s0)) (draws (world s)) (hash_token X tok)"
    by (auto simp: spent_def)
  then show ?thesis unfolding gone_def signed_between_def by blast
qed

theorem only_own_tokens_are_exchanged_witness:
  "\<exists>resp w'. run_state (refresh_tokens_op (demo_ext (demo_tokens 0 3)) demo_config ''T'' ''d'' ''1'' ''x'')
       (demo_world demo_token_db 0) = (Inr resp, w') \<and>
     hash_token (demo_ext (demo_tokens 0 3)) ''T'' \<in> t_hash ` set (refresh_tokens demo_token_db)"
proof -
  let ?X = "demo_ext (demo_tokens 0 3)"
  let ?init = "demo_srv (demo_world demo_token_db 0) :: (mem_store, unit) srv"
  obtain resp w' where run: "run_state (refresh_tokens_op ?X demo_config ''T'' ''d'' ''1'' ''x'')
      (demo_world demo_token_db 0) = (Inr resp, w')"
    using demo_refresh_run by blast
  have "world ?init = demo_world demo_token_db 0" by (simp add: demo_srv_def)
  with only_own_tokens_are_exchanged [OF demo_matcher server_reachable.start, of ?X demo_config "''T''" "''d''" "''1''" "''x''" ?init resp w'] run
  show ?thesis by auto
qed

end
