(* ===== verification/Spec2Isabelle.thy ===== *)
theory Spec2Isabelle
  imports Answers GuessRace GzipPool IssueRace LoadServer MigrateRace RevokeRace Startup Throttle TokenReuse
begin

text \<open>
  A model of the enterprise API server and of its load test, with what makes them correct.

  \<^bold>\<open>The program.\<close> \<open>cmd/api/main.go\<close> reads the configuration, loads the JWT keys, opens the
  PostgreSQL pool, runs the migrations, connects to Redis, opens the file storage, seeds the
  administrator and serves HTTP. A request passes the global middleware of
  \<open>internal/router/router.go\<close> (security headers, CORS, compression, throttle, activity log),
  then the middleware of its route (rate limiter, authentication, permission check), then a
  handler, which calls the service of its module, which calls repositories, which send SQL.
  All of them share the tables, Redis, the in-memory token cache, the throttle's map of
  clients and the audit worker pool. \<open>cmd/loadtest/main.go\<close> is a client that measures the server.

  \<^bold>\<open>Theories, in the order of their imports.\<close>

  \<^item> \<open>Prelude\<close>: instants and durations in nanoseconds (64-bit products wrap around), errors,
    programs of the state monad, \<open>if err != nil\<close> as \<open>on_error\<close>, rules that lift a relation
    from the steps of a program to the program. \<open>Text\<close>: splitting and joining strings.
  \<^item> \<open>Tables\<close>: \<open>internal/database/migrations/*.up.sql\<close> as a record of row lists with keys, unique
    columns, references, cascades and column widths; one function per SQL statement of the
    repositories. \<open>Integrity\<close>: each statement keeps the tables consistent (\<open>db_ok\<close>).
  \<^item> \<open>Redis\<close>: the commands that the code uses, as a locale of their documented laws, with an
    in-memory interpretation. \<open>TokenCache\<close>: \<open>internal/shared/utils/cache.go\<close>, both critical
    sections of \<open>Get\<close>, eviction for any order of map iteration, every interleaving.
  \<^item> \<open>World\<close>: the state in which handlers run (tables, Redis, cache, clock, package variables, the
    schedule of call outcomes) and the record \<open>ext\<close> of code that is not in the repository.
    \<open>Jwt\<close>: \<open>internal/shared/utils/jwt.go\<close>. \<open>Config\<close>: \<open>internal/config/config.go\<close>.
  \<^item> \<open>AuthRepo\<close>, \<open>AuthService\<close>: the repositories and the service of \<open>internal/modules/auth\<close>.
    \<open>Demo\<close>: the locale \<open>services\<close> of what the outside code promises, and concrete outside code
    for the witnesses. \<open>SessionLimit\<close>, \<open>Lockout\<close>, \<open>AuthProps\<close>: what the service guarantees.
    \<open>GuessRace\<close>, \<open>RefreshRace\<close>, \<open>IssueRace\<close>: the same operations when requests run at the same
    time, one Redis call or SQL statement after the other.
  \<^item> \<open>Http\<close>: request, answer and context. \<open>Middleware\<close>: \<open>internal/middleware\<close>. \<open>AuthGuard\<close>,
    \<open>RateLimit\<close>, \<open>Throttle\<close>: who passes, and how many. \<open>RevokeRace\<close>: requests and logouts that run
    at the same time, and how long a revoked token can still be used.
  \<^item> \<open>AdminRepo\<close>, \<open>AdminService\<close>, \<open>AdminProps\<close>: \<open>internal/modules/admin\<close>. \<open>Incident\<close>:
    \<open>internal/modules/incident\<close>. \<open>Handlers\<close>, \<open>Router\<close>: the handlers of all modules and the
    engine. \<open>ServerProps\<close>: the server as a whole.
  \<^item> \<open>WorkerPool\<close>: \<open>internal/shared/utils/worker.go\<close> as a step relation of submitters, workers
    and \<open>Shutdown\<close>. \<open>AuditPool\<close>: the audit queue of the server refines it. \<open>Answers\<close>: the headers,
    the compression and the log line of every answer. \<open>GzipPool\<close>: the compressors that requests share.
  \<^item> \<open>Disk\<close>: paths of \<open>path/filepath\<close> and a tree of files with failing calls. \<open>Storage\<close>:
    \<open>internal/shared/storage\<close>. \<open>Logger\<close>, \<open>LogLevels\<close>: \<open>internal/shared/logger\<close>, the files of the
    days and which entries reach them.
  \<^item> \<open>Migrate\<close>: \<open>internal/database/migrate.go\<close>; \<open>MigrateRace\<close>: instances that run it at the
    same time. \<open>Startup\<close>: \<open>postgres.go\<close>, \<open>redis.go\<close> and \<open>cmd/api/main.go\<close>, with the lines that
    it logs.
  \<^item> \<open>Invariants\<close>: relations between worlds that the services respect hold over the life of the
    server, and what every statement keeps but the storing of a token. \<open>TokenReuse\<close>: which refresh
    tokens the server exchanges, from any state to any later one.
  \<^item> \<open>Float64\<close>, \<open>LoadMetrics\<close>, \<open>LoadWorkers\<close>, \<open>LoadReport\<close>: \<open>cmd/loadtest/main.go\<close>, its
    measurements with the rounding of \<open>float64\<close> written out, its workers, and what it prints
    and writes. \<open>LoadServer\<close>: its concurrent health workers against the server, stage by stage of
    the middleware; a call that nothing comes between is what \<open>serve\<close> makes of it.
\<close>

text \<open>
  \<^bold>\<open>How definitions correspond to the code.\<close> A Go struct is a record with the same fields, an
  operation a definition with the name of the function in lower case with underscores, an
  \<open>(T, error)\<close> result a sum with \<open>Inl\<close> for the error; every early return is a branch. Effects are
  programs of the state monad over \<open>world\<close> (services), \<open>srv\<close> (requests), \<open>disk\<close>, \<open>log_state\<close> or
  \<open>machine\<close> (start-up). Concurrent code is a step relation (cache, worker pool, rate limiter) whose
  steps are the critical sections of the code, so its theorems hold for every interleaving.
  In \<open>Router\<close> and \<open>ServerProps\<close> requests run one after another. What they do when they run at
  the same time is the subject of these relations: the shared cache, the counters of the rate
  limiter and of failed logins, the pool, the compressors, the calls of the load test (\<open>LoadServer\<close>),
  requests and logouts (\<open>RevokeRace\<close>), and logins, refreshes and logouts statement by statement
  (\<open>IssueRace\<close>, whose undisturbed runs are those of \<open>AuthService\<close>).

  \<^bold>\<open>Failures.\<close> Each call to PostgreSQL, Redis or the disk ends as a schedule says: done, lost
  before it had an effect, or cut off after it had one; a cut-off query delivers a prefix of its rows.
  The schedule is an arbitrary list, so a theorem without an assumption on it holds for every
  failure of every call; after its end all calls succeed.

  \<^bold>\<open>What the lemmas show.\<close> For each component: an invariant and that each operation keeps it
  (\<open>Integrity\<close>, \<open>TokenCache\<close>, \<open>AuthGuard\<close>, \<open>WorkerPool\<close>, \<open>GzipPool\<close>); the behaviour of the
  operations, errors included (\<open>SessionLimit\<close>, \<open>Lockout\<close>, \<open>AuthProps\<close>, \<open>AdminProps\<close>, \<open>Incident\<close>);
  an abstract view and that the code refines it (\<open>AuditPool\<close>; \<open>Storage\<close> as a map; \<open>RateLimit\<close> as
  a counter with a deadline; the undisturbed runs of \<open>IssueRace\<close> and \<open>LoadServer\<close>); races and how far they reach (\<open>RateLimit\<close>,
  \<open>GuessRace\<close>, \<open>RefreshRace\<close>, \<open>IssueRace\<close>, \<open>RevokeRace\<close>, \<open>MigrateRace\<close>); that a reader of the report of the load test learns
  what was measured (\<open>LoadReport\<close>), and what that is (\<open>LoadServer\<close>); and, in \<open>ServerProps\<close>,
  \<open>Startup\<close> and \<open>TokenReuse\<close>, that the composition keeps the invariants through every sequence of requests and background steps. The
  interfaces are locales: \<open>redis_service\<close>, \<open>key_range\<close>, \<open>timed_cache\<close>, \<open>services\<close>,
  \<open>service_relation\<close>, \<open>world_relation\<close>, \<open>table_frame\<close>, \<open>token_bucket\<close>, \<open>file_store\<close>; each is interpreted on the model's
  definitions or, for outside code, on a concrete instance. Where the code does not do what it means to, the theorem
  says what it does.

  \<^bold>\<open>Bounds and loops.\<close> Loops over data are structural recursions. The worker pool has the
  code's 10 workers and buffer of 1000 as an instance; its theorems hold for any numbers, and
  \<open>shutdown_returns\<close> bounds its steps. The timed loops of the load test are
  \<open>while_option\<close>, and \<open>workers_stop\<close> proves that they end. No definition takes fuel.

  \<^bold>\<open>Not modelled.\<close> The log lines of the services, of failed audit tasks and of the shutdown; the
  encoding of log entries; paths that the file system refuses and texts that PostgreSQL refuses or
  cuts; the body that \<open>gin\<close> writes where no route matches; symbolic links and other processes on the disk; the
  matching of a URL path to a route by \<open>gin\<close>, JSON decoding, signing, bcrypt, SHA-256, the drivers, the compression and
  the parser of migration texts and the JSON text of the results of the load test, which are
  parameters; overflow of \<open>float64\<close>; the empty websocket module; the down
  migrations, which no code runs; the tests.
\<close>

end
